(* ===== verification/Prelude.thy ===== *)
theory Prelude
  imports Main "HOL-Library.Word" "HOL-Library.Signed_Division"
begin

text \<open>
  Vocabulary and automation shared by the whole development: bytes and byte buffers, the
  bounds-checked \<open>memcpy\<close> in both directions, the errors a collective can report, rank
  arithmetic on the ring, and the generic list lemmas the component theories use.
\<close>

section \<open>Bytes, buffers and errors\<close>

type_synonym byte = "8 word"
type_synonym bytes = "byte list"

named_theorems mem_simps \<open>bounds-checked loads and stores on byte buffers\<close>
named_theorems ring_simps \<open>rank arithmetic modulo the world size\<close>

text \<open>
  Every \<open>return false\<close> of the sources is one of these values. \<open>OutOfBounds\<close> is not
  a return value of the code: it marks an access outside the buffer it is made to, which is
  undefined behaviour in C++, as is \<open>NullPointer\<close>, a call through a null pointer; nor is
  \<open>LengthError\<close>, the exception of a container asked for an impossible size, which nothing catches.
\<close>

datatype error =
    NoTransport | SendFailed | RecvFailed | SizeMismatch | NotConnected | OutOfBounds
  | NotListening | SocketFailed | BadPeer | LengthError | NullPointer

type_synonym 'a result = "error + 'a"

definition res_bind :: "'a result \<Rightarrow> ('a \<Rightarrow> 'b result) \<Rightarrow> 'b result" where
  "res_bind m f = (case m of Inl e \<Rightarrow> Inl e | Inr a \<Rightarrow> f a)"

lemma res_bind_simps [simp]: "res_bind (Inr a) f = f a" "res_bind (Inl e) f = Inl e"
  by (simp_all add: res_bind_def)

text \<open>
  \<open>memcpy(dst, buf + off, n)\<close> and \<open>memcpy(buf + off, bs, |bs|)\<close>, with \<open>None\<close>
  for an access outside \<open>buf\<close>.
\<close>

definition mem_load :: "bytes \<Rightarrow> nat \<Rightarrow> nat \<Rightarrow> bytes option" where
  "mem_load buf off n = (if off + n \<le> length buf then Some (take n (drop off buf)) else None)"

definition mem_store :: "bytes \<Rightarrow> nat \<Rightarrow> bytes \<Rightarrow> bytes option" where
  "mem_store buf off bs =
     (if off + length bs \<le> length buf
      then Some (take off buf @ bs @ drop (off + length bs) buf) else None)"

text \<open>A C \<open>int\<close> used as a \<open>size_t\<close>: a negative value becomes a huge one.\<close>

definition to_size :: "int \<Rightarrow> nat" where
  "to_size i = nat (i mod 2 ^ 64)"

text \<open>\<open>size_t\<close> subtraction, which wraps around below zero.\<close>

definition size_sub :: "nat \<Rightarrow> nat \<Rightarrow> nat" where
  "size_sub a b = nat ((int a - int b) mod 2 ^ 64)"

lemma to_size_nonneg [simp]: "0 \<le> i \<Longrightarrow> i < 2 ^ 64 \<Longrightarrow> to_size i = nat i"
  by (simp add: to_size_def)

lemma size_sub_le: "b \<le> a \<Longrightarrow> a < 2 ^ 64 \<Longrightarrow> size_sub a b = a - b"
  by (simp add: size_sub_def of_nat_diff [symmetric] del: of_nat_diff)

lemma size_sub_wrap: "a < b \<Longrightarrow> b < 2 ^ 64 \<Longrightarrow> size_sub a b = 2 ^ 64 + a - b"
proof -
  assume ab: "a < b" and b: "b < 2 ^ 64"
  have "(int a - int b) mod 2 ^ 64 = (int a - int b + 2 ^ 64) mod 2 ^ 64"
    by simp
  also have "\<dots> = int a - int b + 2 ^ 64"
    using ab b by (intro mod_pos_pos_trivial) auto
  finally show ?thesis
    using ab b by (simp add: size_sub_def nat_diff_distrib' nat_add_distrib)
qed

lemma mem_load_whole [mem_simps]: "n = length buf \<Longrightarrow> mem_load buf 0 n = Some buf"
  by (simp add: mem_load_def)

lemma mem_load_append [mem_simps]:
  "off = length xs \<Longrightarrow> n = length ys \<Longrightarrow> mem_load (xs @ ys @ zs) off n = Some ys"
  by (simp add: mem_load_def)

lemma mem_store_append [mem_simps]:
  "off = length xs \<Longrightarrow> length ys' = length ys \<Longrightarrow>
   mem_store (xs @ ys @ zs) off ys' = Some (xs @ ys' @ zs)"
  by (simp add: mem_store_def)

lemma mem_store_whole [mem_simps]: "length bs = length buf \<Longrightarrow> mem_store buf 0 bs = Some bs"
  by (simp add: mem_store_def)

lemma mem_load_Some_length: "mem_load buf off n = Some bs \<Longrightarrow> length bs = n"
  by (auto simp: mem_load_def split: if_splits)

lemma mem_store_Some_length: "mem_store buf off bs = Some buf' \<Longrightarrow> length buf' = length buf"
  by (auto simp: mem_store_def split: if_splits)

lemma mem_load_out: "length buf < off + n \<Longrightarrow> mem_load buf off n = None"
  by (simp add: mem_load_def)

lemma mem_store_out: "length buf < off + length bs \<Longrightarrow> mem_store buf off bs = None"
  by (simp add: mem_store_def)

section \<open>Buffers made of chunks\<close>

text \<open>
  A buffer of \<open>n\<close> chunks is the concatenation of its chunks. All chunks but the last have
  the same size \<open>cb\<close>, the last may be shorter, so chunk \<open>c\<close> starts at \<open>c * cb\<close>.
\<close>

definition chunked :: "nat \<Rightarrow> (nat \<Rightarrow> bytes) \<Rightarrow> bytes" where
  "chunked n B = concat (map B [0..<n])"

lemma chunked_0 [simp]: "chunked 0 B = []"
  by (simp add: chunked_def)

lemma chunked_Suc: "chunked (Suc n) B = chunked n B @ B n"
  by (simp add: chunked_def)

lemma chunked_cong: "(\<And>c. c < n \<Longrightarrow> B c = B' c) \<Longrightarrow> chunked n B = chunked n B'"
  unfolding chunked_def by (rule arg_cong [where f = concat]) simp

lemma length_chunked: "(\<And>c. c < n \<Longrightarrow> length (B c) = cb) \<Longrightarrow> length (chunked n B) = n * cb"
  by (induction n) (simp_all add: chunked_Suc)

lemma chunked_add: "chunked (n + m) B = chunked n B @ chunked m (\<lambda>c. B (n + c))"
  by (induction m) (simp_all add: chunked_Suc)

lemma chunked_split:
  assumes "c < n"
  shows "chunked n B = chunked c B @ B c @ chunked (n - Suc c) (\<lambda>j. B (Suc c + j))"
proof -
  have "chunked n B = chunked (Suc c + (n - Suc c)) B"
    using assms by simp
  then show ?thesis
    by (simp only: chunked_add chunked_Suc append_assoc)
qed

lemma chunked_upd_cong: "n \<le> c \<Longrightarrow> chunked n (B(c := x)) = chunked n B"
  by (rule chunked_cong) simp

lemma mem_load_chunked [mem_simps]:
  assumes "c < n" "\<And>i. i < c \<Longrightarrow> length (B i) = cb" "m = length (B c)"
  shows "mem_load (chunked n B) (c * cb) m = Some (B c)"
  unfolding chunked_split [OF assms(1), of B]
  by (rule mem_load_append) (use assms length_chunked [of c B cb] in auto)

lemma mem_store_chunked [mem_simps]:
  assumes "c < n" "\<And>i. i < c \<Longrightarrow> length (B i) = cb" "length x = length (B c)"
  shows "mem_store (chunked n B) (c * cb) x = Some (chunked n (B(c := x)))"
proof -
  have "chunked n (B(c := x)) = chunked c B @ x @ chunked (n - Suc c) (\<lambda>j. B (Suc c + j))"
    using chunked_split [OF assms(1), of "B(c := x)"] by (simp add: chunked_upd_cong)
  moreover have "mem_store (chunked n B) (c * cb) x =
      Some (chunked c B @ x @ chunked (n - Suc c) (\<lambda>j. B (Suc c + j)))"
    unfolding chunked_split [OF assms(1), of B]
    by (rule mem_store_append) (use assms length_chunked [of c B cb] in auto)
  ultimately show ?thesis by simp
qed

text \<open>Cutting a buffer of \<open>n * cb\<close> bytes into its chunks.\<close>

definition chunk_of :: "nat \<Rightarrow> bytes \<Rightarrow> nat \<Rightarrow> bytes" where
  "chunk_of cb buf c = take cb (drop (c * cb) buf)"

lemma chunk_of_take: "c < m \<Longrightarrow> chunk_of cb (take (m * cb) buf) c = chunk_of cb buf c"
proof -
  assume "c < m"
  then have "Suc c * cb \<le> m * cb"
    by (intro mult_le_mono1) simp
  then show ?thesis
    by (simp add: chunk_of_def drop_take min_def)
qed

text \<open>The last chunk may be shorter than the others.\<close>

lemma chunked_chunk_of_short:
  assumes "(n - 1) * cb \<le> length buf" "length buf \<le> n * cb"
  shows "chunked n (chunk_of cb buf) = buf"
  using assms
proof (induction n arbitrary: buf)
  case (Suc m)
  have "chunked m (chunk_of cb (take (m * cb) buf)) = take (m * cb) buf"
    using Suc.prems(1) by (intro Suc.IH) (auto simp: diff_mult_distrib)
  moreover have "chunked m (chunk_of cb (take (m * cb) buf)) = chunked m (chunk_of cb buf)"
    by (rule chunked_cong) (rule chunk_of_take)
  moreover have "chunk_of cb buf m = drop (m * cb) buf"
    using Suc.prems(2) by (simp add: chunk_of_def)
  ultimately show ?case
    by (metis append_take_drop_id chunked_Suc)
qed simp

lemma chunked_chunk_of: "length buf = n * cb \<Longrightarrow> chunked n (chunk_of cb buf) = buf"
  by (rule chunked_chunk_of_short) (simp_all add: diff_mult_distrib)

lemma length_chunk_of:
  assumes "length buf = n * cb" "c < n"
  shows "length (chunk_of cb buf c) = cb"
proof -
  have "Suc c * cb \<le> n * cb"
    using assms(2) by (intro mult_le_mono1) simp
  then show ?thesis
    using assms(1) by (simp add: chunk_of_def)
qed

section \<open>Rank arithmetic\<close>

lemma smod_nonneg [ring_simps]: "0 \<le> k \<Longrightarrow> 0 < n \<Longrightarrow> k smod n = k mod n" for k n :: int
  by (simp add: signed_modulo_int_def sgn_if)

lemma mod_add_self2_int [ring_simps]: "(k - 1 + n) mod n = (k - 1) mod n" for k n :: int
  by simp

lemma mod_range: "0 < n \<Longrightarrow> 0 \<le> k mod n \<and> k mod n < n" for k n :: int
  by simp

lemma mod_diff_inject:
  fixes a b n :: int
  assumes "(a - r) mod n = (b - r) mod n" "0 \<le> a" "a < n" "0 \<le> b" "b < n"
  shows "a = b"
proof -
  have "a mod n = b mod n"
    using assms(1) by (metis diff_add_cancel mod_add_left_eq)
  then show ?thesis using assms by simp
qed

lemma next_prev_mod: "0 \<le> r \<Longrightarrow> r < n \<Longrightarrow> ((r - 1) mod n + 1) mod n = r" for r n :: int
  by (simp add: mod_add_left_eq)

lemma prev_next_mod: "0 \<le> r \<Longrightarrow> r < n \<Longrightarrow> ((r + 1) mod n - 1) mod n = r" for r n :: int
  by (simp add: mod_diff_left_eq)

section \<open>Updating the first element that satisfies a predicate\<close>

fun upd_first :: "('a \<Rightarrow> bool) \<Rightarrow> ('a \<Rightarrow> 'a) \<Rightarrow> 'a list \<Rightarrow> 'a list" where
  "upd_first P f [] = []"
| "upd_first P f (x # xs) = (if P x then f x # xs else x # upd_first P f xs)"

lemma upd_first_append: "\<forall>x\<in>set xs. \<not> P x \<Longrightarrow> P y \<Longrightarrow> upd_first P f (xs @ y # ys) = xs @ f y # ys"
  by (induction xs) auto

lemma find_append: "\<forall>x\<in>set xs. \<not> P x \<Longrightarrow> P y \<Longrightarrow> List.find P (xs @ y # ys) = Some y"
  by (induction xs) auto

lemma find_upd_first_other:
  assumes "\<And>x. P x \<Longrightarrow> \<not> Q x" "\<And>x. P x \<Longrightarrow> \<not> Q (f x)"
  shows "List.find Q (upd_first P f xs) = List.find Q xs"
  using assms by (induction xs) auto

lemma upd_first_commute:
  assumes "\<And>x. P x \<Longrightarrow> \<not> Q x \<and> \<not> Q (f x)" "\<And>x. Q x \<Longrightarrow> \<not> P x \<and> \<not> P (g x)"
  shows "upd_first Q g (upd_first P f xs) = upd_first P f (upd_first Q g xs)"
  using assms by (induction xs) auto

end
