(* ===== verification/Types.thy ===== *)
theory Types
  imports Prelude
begin

text \<open>
  The vocabulary of \<open>include/types.h\<close>, the small functions on it in \<open>src/utils.cpp\<close> and
  \<open>include/utils.h\<close>, the names the factories print, and the levels of
  \<open>include/logger.h\<close>.
\<close>

unbundle bit_operations_syntax

section \<open>Enumerations and configuration\<close>

datatype DataType = FLOAT32 | FLOAT64 | INT32 | INT64

datatype ReduceOp = OpSUM | OpMAX | OpMIN | OpAVG

datatype TopologyType = FULL_MESH | RING

datatype TransportType = TCP | RDMA

record CommConfig =
  config_rank :: int
  config_world_size :: int
  master_addr :: string
  master_port :: "16 word"

definition default_config :: CommConfig where
  "default_config = \<lparr>config_rank = 0, config_world_size = 1, master_addr = ''127.0.0.1'', master_port = 12345\<rparr>"

record NodeInfo =
  node_rank :: int
  ip_addr :: string
  data_port :: "16 word"

definition default_node :: NodeInfo where
  "default_node = \<lparr>node_rank = 0, ip_addr = [], data_port = 0\<rparr>"

section \<open>Sizes and names\<close>

fun GetDataTypeSize :: "DataType \<Rightarrow> nat" where
  "GetDataTypeSize FLOAT32 = 4"
| "GetDataTypeSize FLOAT64 = 8"
| "GetDataTypeSize INT32 = 4"
| "GetDataTypeSize INT64 = 8"

fun GetDataTypeName :: "DataType \<Rightarrow> string" where
  "GetDataTypeName FLOAT32 = ''FLOAT32''"
| "GetDataTypeName FLOAT64 = ''FLOAT64''"
| "GetDataTypeName INT32 = ''INT32''"
| "GetDataTypeName INT64 = ''INT64''"

fun GetReduceOpName :: "ReduceOp \<Rightarrow> string" where
  "GetReduceOpName OpSUM = ''SUM''"
| "GetReduceOpName OpMAX = ''MAX''"
| "GetReduceOpName OpMIN = ''MIN''"
| "GetReduceOpName OpAVG = ''AVG''"

fun TopologyTypeName :: "TopologyType \<Rightarrow> string" where
  "TopologyTypeName FULL_MESH = ''FullMesh''"
| "TopologyTypeName RING = ''Ring''"

fun TransportTypeName :: "TransportType \<Rightarrow> string" where
  "TransportTypeName TCP = ''TCP''"
| "TransportTypeName RDMA = ''RDMA''"

lemma GetDataTypeSize_pos [simp]: "0 < GetDataTypeSize t"
  by (cases t) auto

section \<open>Alignment\<close>

definition AlignUp :: "64 word \<Rightarrow> 64 word \<Rightarrow> 64 word" where
  "AlignUp sz alignment = (sz + alignment - 1) AND NOT (alignment - 1)"

text \<open>Clearing the low \<open>k\<close> bits rounds down to a multiple of \<open>2 ^ k\<close>.\<close>

lemma unat_and_not_mask: "unat (w AND NOT (mask k) :: 'a::len word) = unat w - unat w mod 2 ^ k"
proof -
  have "w AND NOT (mask k) = push_bit k (drop_bit k w)"
    by (rule bit_eqI) (auto simp: bit_simps)
  then have "w AND NOT (mask k) = w - take_bit k w"
    by (metis add_diff_cancel_right' bits_ident)
  moreover have "take_bit k w \<le> w"
    by (metis word_and_le2 take_bit_eq_mask)
  moreover have "unat (take_bit k w) = unat w mod 2 ^ k"
    by (simp only: unsigned_take_bit_eq take_bit_eq_mod [of k "unat w"])
  ultimately show ?thesis
    by (simp only: unat_sub)
qed

section \<open>Log levels\<close>

text \<open>The levels are compared with \<open><=\<close>, in the order of their declaration.\<close>

datatype LogLevel = DEBUG | INFO | WARN | ERROR

fun level_index :: "LogLevel \<Rightarrow> nat" where
  "level_index DEBUG = 0"
| "level_index INFO = 1"
| "level_index WARN = 2"
| "level_index ERROR = 3"

lemma level_index_inject: "level_index a = level_index b \<Longrightarrow> a = b"
  by (cases a; cases b) auto

instantiation LogLevel :: linorder
begin
definition less_eq_LogLevel :: "LogLevel \<Rightarrow> LogLevel \<Rightarrow> bool" where
  "a \<le> b \<longleftrightarrow> level_index a \<le> level_index b"
definition less_LogLevel :: "LogLevel \<Rightarrow> LogLevel \<Rightarrow> bool" where
  "a < b \<longleftrightarrow> level_index a < level_index b"
instance
  by intro_classes (auto simp: less_eq_LogLevel_def less_LogLevel_def intro: level_index_inject)
end

fun LevelToString :: "LogLevel \<Rightarrow> string" where
  "LevelToString DEBUG = ''DEBUG''"
| "LevelToString INFO = ''INFO''"
| "LevelToString WARN = ''WARN''"
| "LevelToString ERROR = ''ERROR''"

text \<open>
  A logger: its level, and the lines it has printed (without the time stamp, which is the
  clock's). \<open>log_at\<close> is \<open>Debug\<close>, \<open>Info\<close>, \<open>Warn\<close> and \<open>Error\<close>, which differ
  in the level only.
\<close>

record Logger =
  current_level :: LogLevel
  printed :: "(LogLevel \<times> string) list"

definition SetLogLevel :: "LogLevel \<Rightarrow> Logger \<Rightarrow> Logger" where
  "SetLogLevel level lg = lg\<lparr>current_level := level\<rparr>"

definition log_at :: "LogLevel \<Rightarrow> string \<Rightarrow> Logger \<Rightarrow> Logger" where
  "log_at level msg lg =
     (if current_level lg \<le> level then lg\<lparr>printed := printed lg @ [(level, msg)]\<rparr> else lg)"


end
