(* ===== verification/Bytes.thy ===== *)
theory Bytes
  imports Prelude
begin

text \<open>
  Machine integers in memory. The hosts the code runs on are little-endian, so the object
  representation of an integer lists its least significant byte first; \<open>htonl\<close> and
  \<open>htobe64\<close> give the value whose representation is in the opposite order.
\<close>

unbundle bit_operations_syntax

primrec le_bytes :: "nat \<Rightarrow> 'a::len word \<Rightarrow> bytes" where
  "le_bytes 0 w = []"
| "le_bytes (Suc n) w = ucast w # le_bytes n (drop_bit 8 w)"

primrec of_le :: "bytes \<Rightarrow> 'a::len word" where
  "of_le [] = 0"
| "of_le (b # bs) = ucast b OR push_bit 8 (of_le bs)"

definition be_bytes :: "nat \<Rightarrow> 'a::len word \<Rightarrow> bytes" where
  "be_bytes n w = rev (le_bytes n w)"

definition of_be :: "bytes \<Rightarrow> 'a::len word" where
  "of_be bs = of_le (rev bs)"

lemma length_le_bytes [simp]: "length (le_bytes n w) = n"
  by (induction n arbitrary: w) auto

lemma length_be_bytes [simp]: "length (be_bytes n w) = n"
  by (simp add: be_bytes_def)

lemma of_le_le_bytes_take: "of_le (le_bytes n w) = take_bit (8 * n) (w :: 'a::len word)"
proof (induction n arbitrary: w)
  case (Suc n)
  have "(ucast (ucast w :: byte) :: 'a word) OR push_bit 8 (take_bit (8 * n) (drop_bit 8 w)) =
      take_bit (8 * Suc n) w"
    by (rule bit_eqI) (auto simp: bit_simps)
  with Suc show ?case by simp
qed simp

lemma of_le_le_bytes [simp]: "LENGTH('a) \<le> 8 * n \<Longrightarrow> of_le (le_bytes n w) = (w :: 'a::len word)"
  by (simp add: of_le_le_bytes_take take_bit_word_eq_self)

lemma bit_of_le: "bit (of_le bs :: 'a::len word) i \<Longrightarrow> i < 8 * length bs"
proof (induction bs arbitrary: i)
  case (Cons b bs)
  then show ?case
    by (cases "i < 8") (auto simp: bit_simps dest: bit_imp_le_length dest!: Cons.IH)
qed simp

lemma le_bytes_of_le [simp]:
  "8 * length bs \<le> LENGTH('a) \<Longrightarrow> le_bytes (length bs) (of_le bs :: 'a::len word) = bs"
proof (induction bs)
  case (Cons b bs)
  let ?x = "of_le bs :: 'a word"
  have top: "bit ?x i \<Longrightarrow> 8 + i < LENGTH('a)" for i
    using bit_of_le [of bs i, where 'a = 'a] Cons.prems by auto
  have "ucast (ucast b OR push_bit 8 ?x) = b"
    using Cons.prems by (intro bit_eqI) (auto simp: bit_simps)
  moreover have "drop_bit 8 (ucast b OR push_bit 8 ?x) = ?x"
    using top by (intro bit_eqI) (auto simp: bit_simps dest: bit_imp_le_length)
  ultimately show ?case
    using Cons by simp
qed simp

lemma of_be_be_bytes [simp]: "LENGTH('a) \<le> 8 * n \<Longrightarrow> of_be (be_bytes n w) = (w :: 'a::len word)"
  by (simp add: of_be_def be_bytes_def)

section \<open>Arrays of integers\<close>

text \<open>The object representation of an array, and the array a buffer holds.\<close>

definition le_array :: "nat \<Rightarrow> 'a::len word list \<Rightarrow> bytes" where
  "le_array k ws = concat (map (le_bytes k) ws)"

primrec of_le_array :: "nat \<Rightarrow> nat \<Rightarrow> bytes \<Rightarrow> 'a::len word list" where
  "of_le_array k 0 bs = []"
| "of_le_array k (Suc n) bs = of_le (take k bs) # of_le_array k n (drop k bs)"

lemma length_le_array [simp]: "length (le_array k ws) = k * length ws"
  by (induction ws) (simp_all add: le_array_def)

lemma length_of_le_array [simp]: "length (of_le_array k n bs) = n"
  by (induction n arbitrary: bs) auto

lemma of_le_array_append:
  "length bs = k * length ws \<Longrightarrow> of_le_array k (length ws) (bs @ cs) = (of_le_array k (length ws) bs :: 'b::len word list)"
proof (induction ws arbitrary: bs)
  case (Cons w ws)
  then show ?case
    using Cons.IH [of "drop k bs"] by simp
qed simp

lemma of_le_array_le_array [simp]:
  "LENGTH('a) \<le> 8 * k \<Longrightarrow> length ws = n \<Longrightarrow> of_le_array k n (le_array k ws) = (ws :: 'a::len word list)"
  by (induction ws arbitrary: n) (auto simp: le_array_def)

lemma le_array_of_le_array [simp]:
  "8 * k \<le> LENGTH('a) \<Longrightarrow> length bs = k * n \<Longrightarrow> le_array k (of_le_array k n bs :: 'a::len word list) = bs"
proof (induction n arbitrary: bs)
  case (Suc n)
  have "le_bytes k (of_le (take k bs) :: 'a word) = take k bs"
    using Suc.prems le_bytes_of_le [of "take k bs", where 'a = 'a] by simp
  moreover have "le_array k (of_le_array k n (drop k bs) :: 'a word list) = drop k bs"
    using Suc.prems by (intro Suc.IH) simp_all
  ultimately show ?case
    by (simp add: le_array_def)
qed (simp add: le_array_def)

lemma of_le_array_nth:
  "i < n \<Longrightarrow> of_le_array k n bs ! i = of_le (take k (drop (i * k) bs))"
proof (induction n arbitrary: bs i)
  case (Suc n)
  then show ?case
    by (cases i) (simp_all add: add.commute)
qed simp

lemma of_le_array_take_drop:
  "c + m \<le> n \<Longrightarrow> of_le_array k m (take (m * k) (drop (c * k) bs)) = take m (drop c (of_le_array k n bs))"
proof (rule nth_equalityI)
  fix i
  assume le: "c + m \<le> n" and "i < length (of_le_array k m (take (m * k) (drop (c * k) bs)))"
  then have i: "i < m" by simp
  then have "Suc i * k \<le> m * k"
    by (intro mult_le_mono1) simp
  then have "take k (drop (i * k) (take (m * k) (drop (c * k) bs))) = take k (drop ((c + i) * k) bs)"
    by (simp add: drop_take min_def algebra_simps)
  then show "of_le_array k m (take (m * k) (drop (c * k) bs)) ! i = take m (drop c (of_le_array k n bs)) ! i"
    using i le by (simp add: of_le_array_nth)
qed simp

lemma le_array_Cons: "le_array k (w # ws) = le_bytes k w @ le_array k ws"
  by (simp add: le_array_def)

lemma le_array_drop: "le_array k (drop c ws) = drop (c * k) (le_array k ws)"
proof (induction c arbitrary: ws)
  case (Suc c)
  then show ?case
    by (cases ws) (simp_all add: le_array_Cons le_array_def [of k "[]"])
qed simp

lemma le_array_take: "le_array k (take c ws) = take (c * k) (le_array k ws)"
proof (induction c arbitrary: ws)
  case (Suc c)
  then show ?case
    by (cases ws) (simp_all add: le_array_Cons le_array_def [of k "[]"])
qed (simp add: le_array_def)

end
