(* ===== verification/Reduction.thy ===== *)
theory Reduction
  imports Types Bytes
begin

text \<open>
  \<open>ReduceData\<close> and \<open>PerformReduce\<close> of \<open>src/utils.cpp\<close>: the element-wise combination
  of two buffers, on the bytes of the buffers. Integers are two's complement words that wrap
  around (signed overflow is undefined in C++; wrapping is what the compiled addition does).
  Floating-point arithmetic is the platform's, a parameter of the model: a pair of \<open>arith\<close>
  records on the bit patterns of \<open>float\<close> and \<open>double\<close>.
\<close>

section \<open>The operations on one element type\<close>

record 'e arith =
  e_add :: "'e \<Rightarrow> 'e \<Rightarrow> 'e"
  e_gt :: "'e \<Rightarrow> 'e \<Rightarrow> bool"
  e_lt :: "'e \<Rightarrow> 'e \<Rightarrow> bool"
  e_div :: "'e \<Rightarrow> int \<Rightarrow> 'e"

definition int_arith :: "'a::len word arith" where
  "int_arith = \<lparr>e_add = (+), e_gt = (\<lambda>a b. sint b < sint a), e_lt = (\<lambda>a b. sint a < sint b),
     e_div = (\<lambda>a n. word_of_int (sint a sdiv n))\<rparr>"

record fp =
  fp32 :: "32 word arith"
  fp64 :: "64 word arith"

text \<open>One iteration of the loop of \<open>ReduceData\<close>: the new \<open>recv_buf[i]\<close>.\<close>

fun reduce_elem :: "'e arith \<Rightarrow> ReduceOp \<Rightarrow> 'e \<Rightarrow> 'e \<Rightarrow> 'e" where
  "reduce_elem A OpSUM s r = e_add A r s"
| "reduce_elem A OpMAX s r = (if e_gt A s r then s else r)"
| "reduce_elem A OpMIN s r = (if e_lt A s r then s else r)"
| "reduce_elem A OpAVG s r = e_add A r s"

definition ReduceData :: "'e arith \<Rightarrow> 'e list \<Rightarrow> 'e list \<Rightarrow> nat \<Rightarrow> ReduceOp \<Rightarrow> 'e list" where
  "ReduceData A send recv count op =
     fold (\<lambda>i recv. recv[i := reduce_elem A op (send ! i) (recv ! i)]) [0..<count] recv"

definition DivideData :: "'e arith \<Rightarrow> 'e list \<Rightarrow> nat \<Rightarrow> int \<Rightarrow> 'e list" where
  "DivideData A data count world_size =
     fold (\<lambda>i data. data[i := e_div A (data ! i) world_size]) [0..<count] data"

text \<open>The same on two buffers of elements of \<open>k\<close> bytes.\<close>

definition reduce_as ::
  "nat \<Rightarrow> 'a::len word arith \<Rightarrow> bytes \<Rightarrow> bytes \<Rightarrow> nat \<Rightarrow> ReduceOp \<Rightarrow> int \<Rightarrow> bytes" where
  "reduce_as k A send recv count op world_size =
     (let data = ReduceData A (of_le_array k count send) (of_le_array k count recv) count op;
          data = (if op = OpAVG then DivideData A data count world_size else data)
      in le_array k data @ drop (count * k) recv)"

definition PerformReduce ::
  "fp \<Rightarrow> bytes \<Rightarrow> bytes \<Rightarrow> nat \<Rightarrow> DataType \<Rightarrow> ReduceOp \<Rightarrow> int \<Rightarrow> bytes option" where
  "PerformReduce F send recv count dtype op world_size =
     (if length send < count * GetDataTypeSize dtype \<or> length recv < count * GetDataTypeSize dtype
      then None
      else Some (case dtype of
          FLOAT32 \<Rightarrow> reduce_as 4 (fp32 F) send recv count op world_size
        | FLOAT64 \<Rightarrow> reduce_as 8 (fp64 F) send recv count op world_size
        | INT32 \<Rightarrow> reduce_as 4 (int_arith :: 32 word arith) send recv count op world_size
        | INT64 \<Rightarrow> reduce_as 8 (int_arith :: 64 word arith) send recv count op world_size))"

section \<open>The loops are element-wise maps\<close>

text \<open>What \<open>PerformReduce\<close> does to one element, the division for AVG included.\<close>

definition combine :: "'e arith \<Rightarrow> ReduceOp \<Rightarrow> int \<Rightarrow> 'e \<Rightarrow> 'e \<Rightarrow> 'e" where
  "combine A op world_size s r =
     (if op = OpAVG then e_div A (reduce_elem A op s r) world_size else reduce_elem A op s r)"

lemma fold_update_upto:
  "n \<le> length xs \<Longrightarrow> fold (\<lambda>i xs. xs[i := g i (xs ! i)]) [0..<n] xs =
     map (\<lambda>i. g i (xs ! i)) [0..<n] @ drop n xs"
proof (induction n)
  case (Suc n)
  have "(map (\<lambda>i. g i (xs ! i)) [0..<n] @ drop n xs)[n := g n (xs ! n)] =
      map (\<lambda>i. g i (xs ! i)) [0..<Suc n] @ drop (Suc n) xs"
    using Suc.prems by (simp add: list_update_append Cons_nth_drop_Suc [symmetric])
  with Suc show ?case by (simp add: nth_append)
qed simp

lemma ReduceData_map2:
  "length send = n \<Longrightarrow> length recv = n \<Longrightarrow> ReduceData A send recv n op = map2 (reduce_elem A op) send recv"
  unfolding ReduceData_def
  by (subst fold_update_upto [where g = "\<lambda>i. reduce_elem A op (send ! i)"])
     (auto simp: map2_map_map [symmetric] intro!: nth_equalityI)

lemma DivideData_map: "length data = n \<Longrightarrow> DivideData A data n w = map (\<lambda>x. e_div A x w) data"
  unfolding DivideData_def
  by (subst fold_update_upto [where g = "\<lambda>i x. e_div A x w"]) (auto intro!: nth_equalityI)

lemma reduce_as_map2:
  "length recv = count * k \<Longrightarrow> reduce_as k A send recv count op w =
     le_array k (map2 (combine A op w) (of_le_array k count send) (of_le_array k count recv))"
  by (auto simp: reduce_as_def Let_def ReduceData_map2 DivideData_map combine_def
      intro!: arg_cong [where f = "le_array k"] nth_equalityI)

section \<open>Reduction of buffers of the right size\<close>

text \<open>
  \<open>reduce_bytes\<close> is \<open>PerformReduce\<close> where it is in bounds, as every collective calls
  it; \<open>view\<close> reads a buffer as the elements of its type, at the width of the type.
\<close>

definition reduce_bytes :: "fp \<Rightarrow> nat \<Rightarrow> DataType \<Rightarrow> ReduceOp \<Rightarrow> int \<Rightarrow> bytes \<Rightarrow> bytes \<Rightarrow> bytes" where
  "reduce_bytes F count dtype op w send recv = the (PerformReduce F send recv count dtype op w)"

lemma PerformReduce_ok:
  assumes "length send = count * GetDataTypeSize dtype" "length recv = count * GetDataTypeSize dtype"
  shows "PerformReduce F send recv count dtype op w = Some (reduce_bytes F count dtype op w send recv)"
  using assms by (simp add: reduce_bytes_def PerformReduce_def)

lemma length_reduce_bytes [simp]:
  assumes "length send = count * GetDataTypeSize dtype" "length recv = count * GetDataTypeSize dtype"
  shows "length (reduce_bytes F count dtype op w send recv) = count * GetDataTypeSize dtype"
  using assms by (cases dtype) (simp_all add: reduce_bytes_def PerformReduce_def reduce_as_map2)

definition view32 :: "nat \<Rightarrow> bytes \<Rightarrow> 32 word list" where
  "view32 count buf = of_le_array 4 count buf"

definition view64 :: "nat \<Rightarrow> bytes \<Rightarrow> 64 word list" where
  "view64 count buf = of_le_array 8 count buf"

lemma view32_reduce_bytes:
  assumes "length send = count * 4" "length recv = count * 4"
  shows "view32 count (reduce_bytes F count INT32 op w send recv) =
      map2 (combine int_arith op w) (view32 count send) (view32 count recv)"
    and "view32 count (reduce_bytes F count FLOAT32 op w send recv) =
      map2 (combine (fp32 F) op w) (view32 count send) (view32 count recv)"
  using assms by (simp_all add: reduce_bytes_def PerformReduce_def reduce_as_map2 view32_def)

lemma view64_reduce_bytes:
  assumes "length send = count * 8" "length recv = count * 8"
  shows "view64 count (reduce_bytes F count INT64 op w send recv) =
      map2 (combine int_arith op w) (view64 count send) (view64 count recv)"
    and "view64 count (reduce_bytes F count FLOAT64 op w send recv) =
      map2 (combine (fp64 F) op w) (view64 count send) (view64 count recv)"
  using assms by (simp_all add: reduce_bytes_def PerformReduce_def reduce_as_map2 view64_def)

lemma length_view [simp]: "length (view32 n b) = n" "length (view64 n b) = n"
  by (simp_all add: view32_def view64_def)

text \<open>
  C14: \<open>PerformReduce\<close> on two buffers of bytes is the element-wise operation on the elements
  that the bytes encode, for every element type and operation, the division for AVG included; it
  never reads or writes outside buffers of the right size.
\<close>

theorem PerformReduce_refines:
  assumes "length send = count * GetDataTypeSize dtype" "length recv = count * GetDataTypeSize dtype"
  shows "\<exists>buf. PerformReduce F send recv count dtype op w = Some buf \<and> length buf = length recv \<and>
    (case dtype of
       INT32 \<Rightarrow> view32 count buf = map2 (combine int_arith op w) (view32 count send) (view32 count recv)
     | INT64 \<Rightarrow> view64 count buf = map2 (combine int_arith op w) (view64 count send) (view64 count recv)
     | FLOAT32 \<Rightarrow> view32 count buf = map2 (combine (fp32 F) op w) (view32 count send) (view32 count recv)
     | FLOAT64 \<Rightarrow> view64 count buf = map2 (combine (fp64 F) op w) (view64 count send) (view64 count recv))"
  using PerformReduce_ok [OF assms, of F op w] length_reduce_bytes [OF assms, of F op w] assms
    view32_reduce_bytes [of send count recv F op w] view64_reduce_bytes [of send count recv F op w]
  by (cases dtype) simp_all

lemma PerformReduce_refines_witness:
  "\<exists>buf. PerformReduce \<lparr>fp32 = int_arith, fp64 = int_arith\<rparr> (le_array 4 [7, -3 :: 32 word]) (le_array 4 [5, 8 :: 32 word]) 2 INT32 OpMAX 4 = Some buf \<and>
    view32 2 buf = [7, 8]"
  using PerformReduce_refines [of "le_array 4 [7, -3 :: 32 word]" 2 INT32 "le_array 4 [5, 8 :: 32 word]" "\<lparr>fp32 = int_arith, fp64 = int_arith\<rparr>" OpMAX 4]
  by (auto simp: view32_def of_le_array_le_array combine_def int_arith_def)

section \<open>Associative and commutative reductions\<close>

text \<open>
  The integer operations other than AVG are associative and commutative, so the order in
  which a topology combines the contributions of the ranks does not matter.
\<close>

locale reduction =
  fixes f :: "'e \<Rightarrow> 'e \<Rightarrow> 'e"
  assumes assoc: "f (f a b) c = f a (f b c)" and comm: "f a b = f b a"
begin

lemma left_comm: "f a (f b c) = f b (f a c)"
  by (metis assoc comm)

lemma fold_start: "fold f xs (f a b) = f a (fold f xs b)"
  by (induction xs arbitrary: a b) (simp_all add: left_comm)

lemma fold_exchange: "f a (fold f xs b) = f b (fold f xs a)"
  by (metis comm fold_start)

lemma foldr_fold: "foldr f xs a = fold f xs a"
  by (induction xs) (simp_all add: fold_start)

lemma fold_append_comm: "fold f (xs @ ys) c = fold f (ys @ xs) c"
  by (induction xs arbitrary: c) (simp_all add: fold_start)

lemma fold_swap: "fold f (xs @ a # ys) b = fold f (xs @ b # ys) a"
  using fold_exchange [of a "xs @ ys" b] by (simp add: fold_start)

lemma fold_rotate: "fold f (xs @ a # ys) b = fold f (ys @ b # xs) a"
  using fold_append_comm [of xs "a # ys" b] fold_exchange [of a "ys @ xs" b]
  by (simp add: fold_start)

end

lemma sint_inject [dest]: "sint a = sint b \<Longrightarrow> a = (b :: 'a::len word)"
  by (rule signed_word_eqI)

interpretation int_sum: reduction "reduce_elem int_arith OpSUM :: 'a::len word \<Rightarrow> _"
  by unfold_locales (simp_all add: int_arith_def algebra_simps)

interpretation int_max: reduction "reduce_elem int_arith OpMAX :: 'a::len word \<Rightarrow> _"
  by unfold_locales (auto simp: int_arith_def)

interpretation int_min: reduction "reduce_elem int_arith OpMIN :: 'a::len word \<Rightarrow> _"
  by unfold_locales (auto simp: int_arith_def)

end
