(* ===== verification/Steps.thy ===== *)
theory Steps
  imports Main
begin

text \<open>
  Labelled transition systems whose steps commute. A scheduler picks the label of every step;
  the outcome of a label is determined. When two different enabled labels always commute, the
  order in which a scheduler picks them does not matter: one schedule that ends settles how
  every schedule ends, and after how many steps. The ranks of a collective and the channels
  between them are such a system (theory \<open>Network\<close>).
\<close>

section \<open>Runs of a labelled system\<close>

fun run :: "('l \<Rightarrow> 's \<Rightarrow> 's option) \<Rightarrow> 'l list \<Rightarrow> 's \<Rightarrow> 's option" where
  "run step [] s = Some s"
| "run step (l # ls) s = (case step l s of None \<Rightarrow> None | Some s' \<Rightarrow> run step ls s')"

definition stuck :: "('l \<Rightarrow> 's \<Rightarrow> 's option) \<Rightarrow> 's \<Rightarrow> bool" where
  "stuck step s \<longleftrightarrow> (\<forall>l. step l s = None)"

definition reaches :: "('l \<Rightarrow> 's \<Rightarrow> 's option) \<Rightarrow> 's \<Rightarrow> 's \<Rightarrow> bool" where
  "reaches step s t \<longleftrightarrow> (\<exists>ls. run step ls s = Some t)"

text \<open>
  \<open>always_ends step s t\<close>: no schedule from \<open>s\<close> runs for ever (all have at most \<open>B\<close>
  steps), none gets lost (from wherever it is, \<open>t\<close> can still be reached), and one that
  cannot go on has arrived in \<open>t\<close>. With \<open>t\<close> a state in which every rank has returned
  this is freedom from deadlock, termination and the result, for every interleaving.
\<close>

definition always_ends :: "('l \<Rightarrow> 's \<Rightarrow> 's option) \<Rightarrow> 's \<Rightarrow> 's \<Rightarrow> bool" where
  "always_ends step s t \<longleftrightarrow>
     stuck step t \<and>
     (\<exists>B. \<forall>ls u. run step ls s = Some u \<longrightarrow>
        length ls \<le> B \<and> reaches step u t \<and> (stuck step u \<longrightarrow> u = t))"

lemma run_append: "run step (ls @ ms) s = (case run step ls s of None \<Rightarrow> None | Some t \<Rightarrow> run step ms t)"
  by (induction ls arbitrary: s) (auto split: option.splits)

lemma reaches_refl [intro!, simp]: "reaches step s s"
  by (auto simp: reaches_def intro: exI [of _ "[]"])

lemma reaches_trans [trans]: "reaches step s t \<Longrightarrow> reaches step t u \<Longrightarrow> reaches step s u"
  unfolding reaches_def by (metis option.simps(5) run_append)

lemma reaches_step: "step l s = Some t \<Longrightarrow> reaches step s t"
  unfolding reaches_def by (rule exI [of _ "[l]"]) simp

lemma reaches_step_trans: "step l s = Some t \<Longrightarrow> reaches step t u \<Longrightarrow> reaches step s u"
  by (rule reaches_trans [OF reaches_step])

lemma stuck_reaches: "stuck step s \<Longrightarrow> reaches step s t \<Longrightarrow> t = s"
proof -
  assume st: "stuck step s" and "reaches step s t"
  then obtain ls where "run step ls s = Some t"
    by (auto simp: reaches_def)
  then show "t = s"
    using st by (cases ls) (auto simp: stuck_def)
qed

section \<open>Commuting steps\<close>

locale commuting_steps =
  fixes step :: "'l \<Rightarrow> 's \<Rightarrow> 's option"
  assumes commute: "l \<noteq> m \<Longrightarrow> step l s = Some s1 \<Longrightarrow> step m s = Some s2 \<Longrightarrow>
    \<exists>s'. step m s1 = Some s' \<and> step l s2 = Some s'"
begin

text \<open>A first step of another schedule is one of the steps of a schedule that ends.\<close>

lemma take_step:
  assumes "run step ls s = Some t" "stuck step t" "step m s = Some s'"
  shows "\<exists>ls'. run step ls' s' = Some t \<and> length ls = Suc (length ls')"
  using assms
proof (induction ls arbitrary: s s')
  case Nil
  then show ?case by (auto simp: stuck_def)
next
  case (Cons l ls)
  then obtain s1 where s1: "step l s = Some s1" and rest: "run step ls s1 = Some t"
    by (auto split: option.splits)
  show ?case
  proof (cases "l = m")
    case True
    with Cons.prems(3) s1 rest show ?thesis by auto
  next
    case False
    then obtain s'' where "step m s1 = Some s''" and l: "step l s' = Some s''"
      using commute [OF False s1 Cons.prems(3)] by blast
    from Cons.IH [OF rest Cons.prems(2) this(1)]
    obtain ls' where "run step ls' s'' = Some t" "length ls = Suc (length ls')"
      by blast
    with l show ?thesis
      by (intro exI [of _ "l # ls'"]) simp
  qed
qed

lemma take_steps:
  assumes "run step ms s = Some u" "run step ls s = Some t" "stuck step t"
  shows "\<exists>ns. run step ns u = Some t \<and> length ls = length ms + length ns"
  using assms
proof (induction ms arbitrary: s ls)
  case Nil
  then show ?case by auto
next
  case (Cons m ms)
  then obtain s' where s': "step m s = Some s'" "run step ms s' = Some u"
    by (auto split: option.splits)
  obtain ls' where "run step ls' s' = Some t" "length ls = Suc (length ls')"
    using take_step [OF Cons.prems(2,3) s'(1)] by blast
  moreover from Cons.IH [OF s'(2) this(1) Cons.prems(3)]
  obtain ns where "run step ns u = Some t" "length ls' = length ms + length ns"
    by blast
  ultimately show ?case by auto
qed

theorem one_schedule_suffices:
  assumes "reaches step s t" "stuck step t"
  shows "always_ends step s t"
proof -
  obtain ls where ls: "run step ls s = Some t"
    using assms(1) by (auto simp: reaches_def)
  have "length ms \<le> length ls \<and> reaches step u t \<and> (stuck step u \<longrightarrow> u = t)"
    if ms: "run step ms s = Some u" for ms u
  proof -
    obtain ns where "run step ns u = Some t" "length ls = length ms + length ns"
      using take_steps [OF ms ls assms(2)] by blast
    then show ?thesis
      using stuck_reaches [of step u t] by (auto simp: reaches_def)
  qed
  with assms(2) show ?thesis
    unfolding always_ends_def by blast
qed

text \<open>
  Schedules that have gone different ways can meet again: what one of them can still reach, a
  state with \<open>P\<close> for which \<open>P\<close> is never lost, every other one can still reach too.
\<close>

lemma join_step:
  assumes "run step ls s = Some t" "step m s = Some s'"
  shows "\<exists>v. reaches step t v \<and> reaches step s' v"
  using assms
proof (induction ls arbitrary: s s')
  case Nil
  then show ?case by (auto intro: reaches_step)
next
  case (Cons l ls)
  then obtain s1 where s1: "step l s = Some s1" and rest: "run step ls s1 = Some t"
    by (auto split: option.splits)
  show ?case
  proof (cases "l = m")
    case True
    with Cons.prems(2) s1 rest show ?thesis
      by (intro exI [of _ t]) (auto simp: reaches_def)
  next
    case False
    then obtain s'' where "step m s1 = Some s''" and l: "step l s' = Some s''"
      using commute [OF False s1 Cons.prems(2)] by blast
    with Cons.IH [OF rest] show ?thesis
      by (blast intro: reaches_step_trans)
  qed
qed

lemma join:
  assumes "reaches step s t" "reaches step s u"
  shows "\<exists>v. reaches step t v \<and> reaches step u v"
proof -
  obtain ms where "run step ms s = Some u"
    using assms(2) by (auto simp: reaches_def)
  then show ?thesis
    using assms(1)
  proof (induction ms arbitrary: s t)
    case Nil
    then show ?case by auto
  next
    case (Cons m ms)
    then obtain s' where s': "step m s = Some s'" "run step ms s' = Some u"
      by (auto split: option.splits)
    obtain w where "reaches step t w" "reaches step s' w"
      using Cons.prems(2) join_step [OF _ s'(1)] unfolding reaches_def by blast
    with Cons.IH [OF s'(2)] show ?case
      by (blast intro: reaches_trans)
  qed
qed

lemma still_reaches:
  assumes "reaches step s t" "P t" "reaches step s u" "\<And>l x y. P x \<Longrightarrow> step l x = Some y \<Longrightarrow> P y"
  shows "\<exists>v. reaches step u v \<and> P v"
proof -
  have "P x \<Longrightarrow> run step ls x = Some y \<Longrightarrow> P y" for x y ls
    by (induction ls arbitrary: x) (auto split: option.splits intro: assms(4))
  then show ?thesis
    using join [OF assms(1,3)] assms(2) unfolding reaches_def by blast
qed

text \<open>Where the system ends is a function of where it starts.\<close>

theorem always_ends_unique: "always_ends step s t \<Longrightarrow> reaches step s u \<Longrightarrow> stuck step u \<Longrightarrow> u = t"
  unfolding always_ends_def reaches_def by blast

end

end
