(* ===== verification/Network.thy ===== *)
theory Network
  imports Prelude Steps
begin

text \<open>
  The world a collective runs in. Every rank runs a program: a tree of blocking transport
  operations, each followed by what the code does with the results. Two ranks are joined by a
  byte stream in each direction, which holds at most \<open>cap\<close> bytes in flight: a sender
  blocks when it is full, a receiver while it is empty. A rank can have several operations
  pending at once, the calls its threads make; it goes on when all of them have returned,
  which is what \<open>join\<close> waits for. Which rank, and which pending operation, moves the next
  byte is up to a scheduler.
\<close>

section \<open>Programs\<close>

text \<open>
  A pending operation: the bytes a \<open>Send\<close> still has to hand over, or the number of bytes a
  \<open>Recv\<close> still waits for and those it has. \<open>OFail\<close> is a call that returned false.
\<close>

datatype op = OSend int bytes | ORecv int nat bytes | OFail

datatype op_result = Sent | Got bytes | Failed

datatype 'a prog = Ret 'a | Ops "op list" "op_result list \<Rightarrow> 'a prog"

type_synonym 'a io = "'a result prog"

fun op_done :: "op \<Rightarrow> bool" where
  "op_done (OSend p bs) = (bs = [])"
| "op_done (ORecv p n acc) = (n = 0)"
| "op_done OFail = True"

fun op_value :: "op \<Rightarrow> op_result" where
  "op_value (OSend p bs) = Sent"
| "op_value (ORecv p n acc) = Got acc"
| "op_value OFail = Failed"

primrec bind_prog :: "'a prog \<Rightarrow> ('a \<Rightarrow> 'b prog) \<Rightarrow> 'b prog" where
  "bind_prog (Ret a) f = f a"
| "bind_prog (Ops os k) f = Ops os (\<lambda>rs. bind_prog (k rs) f)"

text \<open>Sequencing where an error returns early, as \<open>if (!...) return false\<close> does.\<close>

definition bind_io :: "'a io \<Rightarrow> ('a \<Rightarrow> 'b io) \<Rightarrow> 'b io" where
  "bind_io m f = bind_prog m (\<lambda>r. case r of Inl e \<Rightarrow> Ret (Inl e) | Inr a \<Rightarrow> f a)"

abbreviation io_return :: "'a \<Rightarrow> 'a io" where
  "io_return a \<equiv> Ret (Inr a)"

abbreviation io_fail :: "error \<Rightarrow> 'a io" where
  "io_fail e \<equiv> Ret (Inl e)"

primrec for_each :: "'i list \<Rightarrow> ('i \<Rightarrow> 's \<Rightarrow> 's io) \<Rightarrow> 's \<Rightarrow> 's io" where
  "for_each [] body s = io_return s"
| "for_each (i # is) body s = bind_io (body i s) (for_each is body)"

text \<open>
  The transport calls of the collectives. \<open>io_exchange\<close> is the code's send thread with a
  receive on the current thread and the \<open>join\<close>: the code looks at what \<open>Recv\<close> returned
  and drops what \<open>Send\<close> returned.
\<close>

definition io_send :: "int \<Rightarrow> bytes \<Rightarrow> unit io" where
  "io_send h bs = Ops [OSend h bs] (\<lambda>rs. if rs = [Sent] then io_return () else io_fail SendFailed)"

definition io_recv :: "int \<Rightarrow> nat \<Rightarrow> bytes io" where
  "io_recv h n = Ops [ORecv h n []]
     (\<lambda>rs. case rs of [Got bs] \<Rightarrow> io_return bs | _ \<Rightarrow> io_fail RecvFailed)"

definition io_exchange :: "int \<Rightarrow> bytes \<Rightarrow> int \<Rightarrow> nat \<Rightarrow> bytes io" where
  "io_exchange d bs s n = Ops [OSend d bs, ORecv s n []]
     (\<lambda>rs. case rs of [_, Got bs] \<Rightarrow> io_return bs | _ \<Rightarrow> io_fail RecvFailed)"

definition io_load :: "bytes \<Rightarrow> nat \<Rightarrow> nat \<Rightarrow> bytes io" where
  "io_load buf off n = Ret (case mem_load buf off n of None \<Rightarrow> Inl OutOfBounds | Some bs \<Rightarrow> Inr bs)"

definition io_store :: "bytes \<Rightarrow> nat \<Rightarrow> bytes \<Rightarrow> bytes io" where
  "io_store buf off bs = Ret (case mem_store buf off bs of None \<Rightarrow> Inl OutOfBounds | Some b \<Rightarrow> Inr b)"

lemma bind_prog_assoc: "bind_prog (bind_prog m f) g = bind_prog m (\<lambda>a. bind_prog (f a) g)"
  by (induction m) auto

lemma bind_io_simps [simp]:
  "bind_io (Ret (Inr a)) f = f a"
  "bind_io (Ret (Inl e)) f = Ret (Inl e)"
  "bind_io (Ops os k) f = Ops os (\<lambda>rs. bind_io (k rs) f)"
  by (simp_all add: bind_io_def)

lemma bind_io_assoc [simp]: "bind_io (bind_io m f) g = bind_io m (\<lambda>a. bind_io (f a) g)"
proof -
  have "(\<lambda>r. bind_prog (case r of Inl e \<Rightarrow> Ret (Inl e) | Inr a \<Rightarrow> f a)
            (\<lambda>r. case r of Inl e \<Rightarrow> Ret (Inl e) | Inr a \<Rightarrow> g a)) =
        (\<lambda>r. case r of Inl e \<Rightarrow> Ret (Inl e) | Inr a \<Rightarrow>
            bind_prog (f a) (\<lambda>r. case r of Inl e \<Rightarrow> Ret (Inl e) | Inr a \<Rightarrow> g a))"
    by (auto split: sum.split)
  then show ?thesis
    by (simp add: bind_io_def bind_prog_assoc)
qed

lemma bind_io_return [simp]: "bind_io m io_return = m"
proof (induction m)
  case (Ret r)
  then show ?case by (cases r) simp_all
qed auto

lemma io_load_ok [simp]: "mem_load buf off n = Some bs \<Longrightarrow> io_load buf off n = io_return bs"
  by (simp add: io_load_def)

lemma io_load_out [simp]: "mem_load buf off n = None \<Longrightarrow> io_load buf off n = io_fail OutOfBounds"
  by (simp add: io_load_def)

lemma io_store_ok [simp]: "mem_store buf off bs = Some b \<Longrightarrow> io_store buf off bs = io_return b"
  by (simp add: io_store_def)

lemma io_store_out [simp]: "mem_store buf off bs = None \<Longrightarrow> io_store buf off bs = io_fail OutOfBounds"
  by (simp add: io_store_def)

lemma for_each_append: "for_each (is @ js) body s = bind_io (for_each is body s) (for_each js body)"
proof (induction "is" arbitrary: s)
  case (Cons i "is")
  then have "(\<lambda>s. for_each (is @ js) body s) = (\<lambda>s. bind_io (for_each is body s) (for_each js body))"
    by blast
  then show ?case by simp
qed simp

section \<open>Configurations and steps\<close>

text \<open>
  \<open>up N s d\<close> says that the link from \<open>s\<close> to \<open>d\<close> works; on a broken link the
  system calls return an error, and with them \<open>Send\<close> and \<open>Recv\<close>.
\<close>

record net =
  cap :: nat
  up :: "int \<Rightarrow> int \<Rightarrow> bool"

record 'a conf =
  progs :: "int \<Rightarrow> 'a prog"
  chan :: "int \<times> int \<Rightarrow> bytes"

text \<open>
  \<open>LSend s d\<close>: rank \<open>s\<close> hands its next byte for \<open>d\<close> over; \<open>LRecv s d\<close>: rank
  \<open>d\<close> takes the next byte from \<open>s\<close>; \<open>LJoin r\<close>: rank \<open>r\<close> goes on.
\<close>

datatype label = LSend int int | LRecv int int | LJoin int

fun sending :: "int \<Rightarrow> op \<Rightarrow> bool" where
  "sending d (OSend p bs) = (p = d \<and> bs \<noteq> [])"
| "sending d _ = False"

fun receiving :: "int \<Rightarrow> op \<Rightarrow> bool" where
  "receiving s (ORecv p n acc) = (p = s \<and> 0 < n)"
| "receiving s _ = False"

fun op_head :: "op \<Rightarrow> bytes" where
  "op_head (OSend p bs) = take 1 bs"
| "op_head _ = []"

fun op_sent :: "op \<Rightarrow> op" where
  "op_sent (OSend p bs) = OSend p (tl bs)"
| "op_sent q = q"

fun op_got :: "byte \<Rightarrow> op \<Rightarrow> op" where
  "op_got b (ORecv p n acc) = ORecv p (n - 1) (acc @ [b])"
| "op_got b q = q"

definition op_fail :: "op \<Rightarrow> op" where
  "op_fail q = OFail"

fun step :: "net \<Rightarrow> label \<Rightarrow> 'a conf \<Rightarrow> 'a conf option" where
  "step N (LSend s d) c =
     (case progs c s of
        Ret _ \<Rightarrow> None
      | Ops os k \<Rightarrow>
          (case List.find (sending d) os of
             None \<Rightarrow> None
           | Some q \<Rightarrow>
               if \<not> up N s d
               then Some (c\<lparr>progs := (progs c)(s := Ops (upd_first (sending d) op_fail os) k)\<rparr>)
               else if length (chan c (s, d)) < cap N
               then Some (c\<lparr>progs := (progs c)(s := Ops (upd_first (sending d) op_sent os) k),
                            chan := (chan c)((s, d) := chan c (s, d) @ op_head q)\<rparr>)
               else None))"
| "step N (LRecv s d) c =
     (case progs c d of
        Ret _ \<Rightarrow> None
      | Ops os k \<Rightarrow>
          (case List.find (receiving s) os of
             None \<Rightarrow> None
           | Some q \<Rightarrow>
               if \<not> up N s d
               then Some (c\<lparr>progs := (progs c)(d := Ops (upd_first (receiving s) op_fail os) k)\<rparr>)
               else (case chan c (s, d) of
                       [] \<Rightarrow> None
                     | b # bs \<Rightarrow>
                         Some (c\<lparr>progs := (progs c)(d := Ops (upd_first (receiving s) (op_got b) os) k),
                                 chan := (chan c)((s, d) := bs)\<rparr>))))"
| "step N (LJoin r) c =
     (case progs c r of
        Ret _ \<Rightarrow> None
      | Ops os k \<Rightarrow>
          if \<forall>q\<in>set os. op_done q
          then Some (c\<lparr>progs := (progs c)(r := k (map op_value os))\<rparr>) else None)"

lemma busy_not_done: "sending d q \<Longrightarrow> \<not> op_done q" "receiving d q \<Longrightarrow> \<not> op_done q"
  by (cases q; simp)+

lemma find_not_done:
  "List.find (sending d) os = Some q \<Longrightarrow> \<exists>q\<in>set os. \<not> op_done q"
  "List.find (receiving d) os = Some q \<Longrightarrow> \<exists>q\<in>set os. \<not> op_done q"
  by (auto simp: find_Some_iff dest!: busy_not_done intro: bexI [OF _ nth_mem])

lemma sending_after [simp]:
  "\<not> receiving s (op_sent q)" if "sending d q"
  using that by (cases q) auto

lemma sending_excl: "sending d q \<Longrightarrow> \<not> receiving s q"
  by (cases q) auto

lemma sending_other: "sending d q \<Longrightarrow> sending d' q \<longleftrightarrow> d = d'"
  by (cases q) auto

lemma sending_sent: "sending d q \<Longrightarrow> d \<noteq> d' \<Longrightarrow> \<not> sending d' (op_sent q)"
  by (cases q) auto

lemma receiving_other: "receiving d q \<Longrightarrow> receiving d' q \<longleftrightarrow> d = d'"
  by (cases q) auto

lemma receiving_got:
  "receiving s q \<Longrightarrow> \<not> sending d (op_got b q)"
  "receiving s q \<Longrightarrow> s \<noteq> s' \<Longrightarrow> \<not> receiving s' (op_got b q)"
  by (cases q; simp)+

lemma op_fail_idle [simp]: "\<not> sending d (op_fail q)" "\<not> receiving s (op_fail q)"
  by (simp_all add: op_fail_def)

lemmas op_class = sending_excl sending_other sending_sent receiving_other receiving_got

lemma find_sending_after [simp]:
  "d \<noteq> d' \<Longrightarrow> List.find (sending d') (upd_first (sending d) op_sent os) = List.find (sending d') os"
  "d \<noteq> d' \<Longrightarrow> List.find (sending d') (upd_first (sending d) op_fail os) = List.find (sending d') os"
  "List.find (sending d') (upd_first (receiving s) (op_got b) os) = List.find (sending d') os"
  "List.find (sending d') (upd_first (receiving s) op_fail os) = List.find (sending d') os"
  by (rule find_upd_first_other; auto dest: op_class)+

lemma find_receiving_after [simp]:
  "s \<noteq> s' \<Longrightarrow> List.find (receiving s') (upd_first (receiving s) (op_got b) os) = List.find (receiving s') os"
  "s \<noteq> s' \<Longrightarrow> List.find (receiving s') (upd_first (receiving s) op_fail os) = List.find (receiving s') os"
  "List.find (receiving s') (upd_first (sending d) op_sent os) = List.find (receiving s') os"
  "List.find (receiving s') (upd_first (sending d) op_fail os) = List.find (receiving s') os"
  by (rule find_upd_first_other; auto dest: op_class)+

lemma upd_first_net_commute:
  "d \<noteq> d' \<Longrightarrow> f \<in> {op_sent, op_fail} \<Longrightarrow> g \<in> {op_sent, op_fail} \<Longrightarrow>
   upd_first (sending d') g (upd_first (sending d) f os) = upd_first (sending d) f (upd_first (sending d') g os)"
  "s \<noteq> s' \<Longrightarrow> upd_first (receiving s') (op_got b') (upd_first (receiving s) (op_got b) os) =
   upd_first (receiving s) (op_got b) (upd_first (receiving s') (op_got b') os)"
  "s \<noteq> s' \<Longrightarrow> upd_first (receiving s') op_fail (upd_first (receiving s) (op_got b) os) =
   upd_first (receiving s) (op_got b) (upd_first (receiving s') op_fail os)"
  "s \<noteq> s' \<Longrightarrow> upd_first (receiving s') op_fail (upd_first (receiving s) op_fail os) =
   upd_first (receiving s) op_fail (upd_first (receiving s') op_fail os)"
  "f \<in> {op_sent, op_fail} \<Longrightarrow> upd_first (receiving s) (op_got b) (upd_first (sending d) f os) =
   upd_first (sending d) f (upd_first (receiving s) (op_got b) os)"
  "f \<in> {op_sent, op_fail} \<Longrightarrow> upd_first (receiving s) op_fail (upd_first (sending d) f os) =
   upd_first (sending d) f (upd_first (receiving s) op_fail os)"
  by (rule upd_first_commute; auto dest: op_class)+

section \<open>Steps of different labels commute\<close>

text \<open>A step, by the rank that takes it and what it does to that rank's program.\<close>

lemma step_cases:
  assumes "step N l c = Some c'"
  obtains
    (send) s d os k q where "l = LSend s d" "progs c s = Ops os k"
      "List.find (sending d) os = Some q" "up N s d" "length (chan c (s, d)) < cap N"
      "c' = c\<lparr>progs := (progs c)(s := Ops (upd_first (sending d) op_sent os) k),
              chan := (chan c)((s, d) := chan c (s, d) @ op_head q)\<rparr>"
  | (send_fail) s d os k q where "l = LSend s d" "progs c s = Ops os k"
      "List.find (sending d) os = Some q" "\<not> up N s d"
      "c' = c\<lparr>progs := (progs c)(s := Ops (upd_first (sending d) op_fail os) k)\<rparr>"
  | (recv) s d os k q b bs where "l = LRecv s d" "progs c d = Ops os k"
      "List.find (receiving s) os = Some q" "up N s d" "chan c (s, d) = b # bs"
      "c' = c\<lparr>progs := (progs c)(d := Ops (upd_first (receiving s) (op_got b) os) k),
              chan := (chan c)((s, d) := bs)\<rparr>"
  | (recv_fail) s d os k q where "l = LRecv s d" "progs c d = Ops os k"
      "List.find (receiving s) os = Some q" "\<not> up N s d"
      "c' = c\<lparr>progs := (progs c)(d := Ops (upd_first (receiving s) op_fail os) k)\<rparr>"
  | (join) r os k where "l = LJoin r" "progs c r = Ops os k" "\<forall>q\<in>set os. op_done q"
      "c' = c\<lparr>progs := (progs c)(r := k (map op_value os))\<rparr>"
  using assms by (cases l) (auto split: prog.splits option.splits if_splits list.splits)

lemma step_commute:
  assumes "l \<noteq> m" "step N l c = Some c1" "step N m c = Some c2"
  shows "\<exists>c'. step N m c1 = Some c' \<and> step N l c2 = Some c'"
  using assms(2)
proof (cases rule: step_cases)
  case l: (send s d os k q)
  show ?thesis
    using assms(3)
    by (cases rule: step_cases; use l assms(1) in
        \<open>auto simp: fun_upd_twist upd_first_net_commute dest: find_not_done\<close>)
next
  case l: (send_fail s d os k q)
  show ?thesis
    using assms(3)
    by (cases rule: step_cases; use l assms(1) in
        \<open>auto simp: fun_upd_twist upd_first_net_commute dest: find_not_done\<close>)
next
  case l: (recv s d os k q b bs)
  show ?thesis
    using assms(3)
    by (cases rule: step_cases; use l assms(1) in
        \<open>auto simp: fun_upd_twist upd_first_net_commute dest: find_not_done\<close>)
next
  case l: (recv_fail s d os k q)
  show ?thesis
    using assms(3)
    by (cases rule: step_cases; use l assms(1) in
        \<open>auto simp: fun_upd_twist upd_first_net_commute dest: find_not_done\<close>)
next
  case l: (join r os k)
  show ?thesis
    using assms(3)
    by (cases rule: step_cases; use l assms(1) in
        \<open>auto simp: fun_upd_twist dest: find_not_done\<close>)
qed

interpretation net: commuting_steps "step N"
  by unfold_locales (rule step_commute)

end
