(* ===== verification/Topology.thy ===== *)
theory Topology
  imports Reduction Network
begin

text \<open>
  The state of a \<open>Topology\<close> (\<open>include/topology.h\<close>) and of a \<open>Communicator\<close>
  (\<open>include/communicator.h\<close>), and the contract between them: which ranks a topology asks to be
  connected, and which end of a connection opens it.
\<close>

section \<open>State\<close>

record topology =
  rank :: int
  world_size :: int
  topo_name :: string

definition new_topology :: "string \<Rightarrow> topology" where
  "new_topology name = \<lparr>rank = -1, world_size = 0, topo_name = name\<rparr>"

definition Topology_Init :: "topology \<Rightarrow> int \<Rightarrow> int \<Rightarrow> topology" where
  "Topology_Init t r ws = t\<lparr>rank := r, world_size := ws\<rparr>"

text \<open>
  A transport is known by the rank at its other end, which is all the collectives rely on: what
  is sent on it arrives there. \<open>transports\<close> is the map from peer ranks to transports.
\<close>

record Communicator =
  config :: CommConfig
  transport_type :: TransportType
  topology_type :: TopologyType
  topo :: "topology option"
  transports :: "int \<Rightarrow> int option"

definition new_Communicator :: Communicator where
  "new_Communicator = \<lparr>config = default_config, transport_type = TCP, topology_type = FULL_MESH,
     topo = None, transports = Map.empty\<rparr>"

definition GetTransport :: "Communicator \<Rightarrow> int \<Rightarrow> int option" where
  "GetTransport comm peer_rank = transports comm peer_rank"

definition get_transport :: "Communicator \<Rightarrow> int \<Rightarrow> int io" where
  "get_transport comm peer =
     Ret (case GetTransport comm peer of None \<Rightarrow> Inl NoTransport | Some tr \<Rightarrow> Inr tr)"

lemma get_transport_simps [simp]:
  "GetTransport comm peer = Some tr \<Longrightarrow> get_transport comm peer = io_return tr"
  "GetTransport comm peer = None \<Longrightarrow> get_transport comm peer = io_fail NoTransport"
  by (simp_all add: get_transport_def)

text \<open>\<open>Utils::PerformReduce\<close> as a step of a program.\<close>

definition io_reduce ::
  "fp \<Rightarrow> bytes \<Rightarrow> bytes \<Rightarrow> nat \<Rightarrow> DataType \<Rightarrow> ReduceOp \<Rightarrow> int \<Rightarrow> bytes io" where
  "io_reduce F send recv count dtype op w =
     Ret (case PerformReduce F send recv count dtype op w of None \<Rightarrow> Inl OutOfBounds | Some b \<Rightarrow> Inr b)"

section \<open>The contract of a topology\<close>

text \<open>
  \<open>neighbors r\<close> are the ranks that rank \<open>r\<close> wants a connection to, and
  \<open>should_connect r p\<close> says that \<open>r\<close> is the end that opens the connection to \<open>p\<close>.
  The ends agree that there is a connection, and exactly one of them opens it. Then the
  connections that all ranks together open and accept match up.
\<close>

locale wiring =
  fixes ws :: int and neighbors :: "int \<Rightarrow> int list" and should_connect :: "int \<Rightarrow> int \<Rightarrow> bool"
  assumes neighbor_range: "0 \<le> r \<Longrightarrow> r < ws \<Longrightarrow> p \<in> set (neighbors r) \<Longrightarrow> 0 \<le> p \<and> p < ws \<and> p \<noteq> r"
    and neighbor_sym: "0 \<le> r \<Longrightarrow> r < ws \<Longrightarrow> p \<in> set (neighbors r) \<Longrightarrow> r \<in> set (neighbors p)"
    and neighbor_distinct: "0 \<le> r \<Longrightarrow> r < ws \<Longrightarrow> distinct (neighbors r)"
    and connect_up: "0 \<le> r \<Longrightarrow> r < ws \<Longrightarrow> p \<in> set (neighbors r) \<Longrightarrow> should_connect r p \<longleftrightarrow> r < p"
begin

lemma one_end_connects:
  assumes "0 \<le> r" "r < ws" "p \<in> set (neighbors r)"
  shows "should_connect r p \<longleftrightarrow> \<not> should_connect p r"
proof -
  have "0 \<le> p" "p < ws" "p \<noteq> r" "r \<in> set (neighbors p)"
    using assms neighbor_range neighbor_sym by blast+
  then show ?thesis
    using connect_up [OF assms] connect_up [of p r] by auto
qed

text \<open>The peers a rank connects to and the peers it accepts.\<close>

lemma connect_accept_match:
  assumes "0 \<le> r" "r < ws" "0 \<le> p" "p < ws"
  shows "p \<in> set (filter (should_connect r) (neighbors r)) \<longleftrightarrow>
         r \<in> set (filter (\<lambda>q. \<not> should_connect p q) (neighbors p))"
  using assms neighbor_sym one_end_connects by (metis (mono_tags, lifting) mem_Collect_eq set_filter)

lemma connect_accept_length:
  "length (filter (should_connect r) (neighbors r)) +
   length (filter (\<lambda>p. \<not> should_connect r p) (neighbors r)) = length (neighbors r)"
  by (rule sum_length_filter_compl)

lemma rank0_accepts_none: "0 < ws \<Longrightarrow> filter (\<lambda>p. \<not> should_connect 0 p) (neighbors 0) = []"
  using connect_up [of 0] neighbor_range [of 0] by (force simp: filter_empty_conv)

end

end
