(* ===== verification/Ring.thy ===== *)
theory Ring
  imports Topology
begin

text \<open>
  \<open>TopologyRing\<close> (\<open>src/topology_ring.cpp\<close>): which ranks are neighbours, and one program per
  collective. A program returns the final contents of the buffer the collective writes
  (\<open>buffer\<close> or \<open>recv_buf\<close>), or the error that made it return false. \<open>t\<close> is the topology
  object of the calling rank and \<open>comm\<close> its communicator.
\<close>

section \<open>Neighbours\<close>

definition GetPrevRank :: "topology \<Rightarrow> int \<Rightarrow> int" where
  "GetPrevRank t r = (r - 1 + world_size t) smod world_size t"

definition GetNextRank :: "topology \<Rightarrow> int \<Rightarrow> int" where
  "GetNextRank t r = (r + 1) smod world_size t"

definition Ring_GetNeighbors :: "topology \<Rightarrow> int \<Rightarrow> int list" where
  "Ring_GetNeighbors t r =
     (let prev = GetPrevRank t r; next = GetNextRank t r
      in if next \<noteq> prev then [prev, next] else [prev])"

definition Ring_ShouldConnect :: "topology \<Rightarrow> int \<Rightarrow> int \<Rightarrow> bool" where
  "Ring_ShouldConnect t my_rank peer_rank =
     (let prev = GetPrevRank t my_rank; next = GetNextRank t my_rank
      in if peer_rank = next \<and> my_rank < peer_rank then True
         else if peer_rank = prev \<and> my_rank < peer_rank then True
         else False)"

record RingTransports =
  rt_prev :: int
  rt_next :: int
  prev_rank :: int
  next_rank :: int

definition GetRingTransports :: "topology \<Rightarrow> Communicator \<Rightarrow> RingTransports io" where
  "GetRingTransports t comm =
     (let prev = (rank t - 1 + world_size t) smod world_size t;
          next = (rank t + 1) smod world_size t
      in case (GetTransport comm prev, GetTransport comm next) of
           (Some p, Some n) \<Rightarrow> io_return \<lparr>rt_prev = p, rt_next = n, prev_rank = prev, next_rank = next\<rparr>
         | _ \<Rightarrow> io_fail NoTransport)"

section \<open>One-to-all and all-to-one\<close>

definition Ring_Broadcast :: "topology \<Rightarrow> Communicator \<Rightarrow> bytes \<Rightarrow> nat \<Rightarrow> DataType \<Rightarrow> int \<Rightarrow> bytes io" where
  "Ring_Broadcast t comm buffer count dtype root =
     (let chunk_bytes = count * GetDataTypeSize dtype in
      bind_io (GetRingTransports t comm) (\<lambda>rt.
      if rank t = root then
        (if next_rank rt \<noteq> root then
           bind_io (io_load buffer 0 chunk_bytes) (\<lambda>data.
           bind_io (io_send (rt_next rt) data) (\<lambda>_. io_return buffer))
         else io_return buffer)
      else
        bind_io (io_recv (rt_prev rt) chunk_bytes) (\<lambda>data.
        bind_io (io_store buffer 0 data) (\<lambda>buffer.
        if next_rank rt \<noteq> root then
          bind_io (io_load buffer 0 chunk_bytes) (\<lambda>data.
          bind_io (io_send (rt_next rt) data) (\<lambda>_. io_return buffer))
        else io_return buffer))))"

definition Ring_Gather ::
  "topology \<Rightarrow> Communicator \<Rightarrow> bytes \<Rightarrow> bytes \<Rightarrow> nat \<Rightarrow> DataType \<Rightarrow> int \<Rightarrow> bytes io" where
  "Ring_Gather t comm send_buf recv_buf count dtype root =
     (let chunk_bytes = count * GetDataTypeSize dtype; ws = world_size t in
      bind_io (GetRingTransports t comm) (\<lambda>rt.
      let position = (rank t - root + ws) smod ws in
      if rank t = root then
        bind_io (io_load send_buf 0 chunk_bytes) (\<lambda>own.
        bind_io (io_store recv_buf (to_size root * chunk_bytes) own) (\<lambda>recv_buf.
        bind_io (io_recv (rt_next rt) (to_size (ws - 1) * chunk_bytes)) (\<lambda>temp.
        for_each [0..<nat (ws - 1)] (\<lambda>i recv_buf.
          let source_rank = (root + 1 + int i) smod ws in
          bind_io (io_load temp (i * chunk_bytes) chunk_bytes) (\<lambda>piece.
          io_store recv_buf (to_size source_rank * chunk_bytes) piece)) recv_buf)))
      else
        let chunks_to_send = ws - position in
        bind_io (io_load send_buf 0 chunk_bytes) (\<lambda>own.
        bind_io (io_store (replicate (to_size chunks_to_send * chunk_bytes) 0) 0 own) (\<lambda>send_buffer.
        bind_io (if position \<noteq> ws - 1 then
                   bind_io (io_recv (rt_next rt) (to_size (chunks_to_send - 1) * chunk_bytes)) (\<lambda>data.
                   io_store send_buffer chunk_bytes data)
                 else io_return send_buffer) (\<lambda>send_buffer.
        bind_io (io_load send_buffer 0 (to_size chunks_to_send * chunk_bytes)) (\<lambda>data.
        bind_io (io_send (rt_prev rt) data) (\<lambda>_. io_return recv_buf)))))))"

definition Ring_Scatter ::
  "topology \<Rightarrow> Communicator \<Rightarrow> bytes \<Rightarrow> bytes \<Rightarrow> nat \<Rightarrow> DataType \<Rightarrow> int \<Rightarrow> bytes io" where
  "Ring_Scatter t comm send_buf recv_buf count dtype root =
     (let chunk_bytes = count * GetDataTypeSize dtype; ws = world_size t in
      bind_io (GetRingTransports t comm) (\<lambda>rt.
      if rank t = root then
        bind_io (io_load send_buf (to_size root * chunk_bytes) chunk_bytes) (\<lambda>own.
        bind_io (io_store recv_buf 0 own) (\<lambda>recv_buf.
        bind_io (for_each [1..<nat ws] (\<lambda>step _.
          let target_rank = (root + int step) smod ws in
          bind_io (io_load send_buf (to_size target_rank * chunk_bytes) chunk_bytes) (\<lambda>piece.
          io_send (rt_next rt) piece)) ()) (\<lambda>_. io_return recv_buf)))
      else
        bind_io (io_recv (rt_prev rt) chunk_bytes) (\<lambda>data.
        bind_io (io_store recv_buf 0 data) (\<lambda>recv_buf.
        let my_pos = (rank t - root + ws) smod ws;
            steps_to_forward = ws - 1 - my_pos in
        bind_io (for_each [0..<nat steps_to_forward] (\<lambda>step _.
          bind_io (io_recv (rt_prev rt) chunk_bytes) (\<lambda>temp.
          io_send (rt_next rt) temp)) ()) (\<lambda>_. io_return recv_buf)))))"

definition Ring_Reduce ::
  "fp \<Rightarrow> topology \<Rightarrow> Communicator \<Rightarrow> bytes \<Rightarrow> bytes \<Rightarrow> nat \<Rightarrow> DataType \<Rightarrow> ReduceOp \<Rightarrow> int \<Rightarrow> bytes io" where
  "Ring_Reduce F t comm send_buf recv_buf count dtype op root =
     (let chunk_bytes = count * GetDataTypeSize dtype; ws = world_size t in
      bind_io (GetRingTransports t comm) (\<lambda>rt.
      let position = (rank t - root + ws) smod ws in
      if rank t = root then
        bind_io (io_load send_buf 0 chunk_bytes) (\<lambda>own.
        bind_io (io_store recv_buf 0 own) (\<lambda>recv_buf.
        bind_io (io_recv (rt_next rt) chunk_bytes) (\<lambda>temp_buffer.
        io_reduce F temp_buffer recv_buf count dtype op ws)))
      else
        bind_io (io_load send_buf 0 chunk_bytes) (\<lambda>own.
        bind_io (io_store (replicate chunk_bytes 0) 0 own) (\<lambda>temp_buffer.
        bind_io (if position \<noteq> ws - 1 then
                   bind_io (io_recv (rt_next rt) chunk_bytes) (\<lambda>recv_temp.
                   io_reduce F recv_temp temp_buffer count dtype op ws)
                 else io_return temp_buffer) (\<lambda>temp_buffer.
        bind_io (io_load temp_buffer 0 chunk_bytes) (\<lambda>data.
        bind_io (io_send (rt_prev rt) data) (\<lambda>_. io_return recv_buf)))))))"

section \<open>All-to-all\<close>

definition Ring_AllGather_step :: "topology \<Rightarrow> RingTransports \<Rightarrow> nat \<Rightarrow> nat \<Rightarrow> bytes \<Rightarrow> bytes io" where
  "Ring_AllGather_step t rt chunk_bytes i recv_buf =
     (let ws = world_size t;
          send_rank = (rank t - int i + ws) smod ws;
          recv_rank = (rank t - int i + ws - 1) smod ws in
      if rank t smod 2 = 0 then
        bind_io (io_load recv_buf (to_size send_rank * chunk_bytes) chunk_bytes) (\<lambda>data.
        bind_io (io_send (rt_next rt) data) (\<lambda>_.
        bind_io (io_recv (rt_prev rt) chunk_bytes) (\<lambda>data.
        io_store recv_buf (to_size recv_rank * chunk_bytes) data)))
      else
        bind_io (io_recv (rt_prev rt) chunk_bytes) (\<lambda>data.
        bind_io (io_store recv_buf (to_size recv_rank * chunk_bytes) data) (\<lambda>recv_buf.
        bind_io (io_load recv_buf (to_size send_rank * chunk_bytes) chunk_bytes) (\<lambda>data.
        bind_io (io_send (rt_next rt) data) (\<lambda>_. io_return recv_buf)))))"

definition Ring_AllGather ::
  "topology \<Rightarrow> Communicator \<Rightarrow> bytes \<Rightarrow> bytes \<Rightarrow> nat \<Rightarrow> DataType \<Rightarrow> bytes io" where
  "Ring_AllGather t comm send_buf recv_buf count dtype =
     (let chunk_bytes = count * GetDataTypeSize dtype in
      bind_io (GetRingTransports t comm) (\<lambda>rt.
      bind_io (io_load send_buf 0 chunk_bytes) (\<lambda>own.
      bind_io (io_store recv_buf (to_size (rank t) * chunk_bytes) own) (\<lambda>recv_buf.
      for_each [0..<nat (world_size t - 1)] (Ring_AllGather_step t rt chunk_bytes) recv_buf))))"

definition Ring_ReduceScatter ::
  "fp \<Rightarrow> topology \<Rightarrow> Communicator \<Rightarrow> bytes \<Rightarrow> bytes \<Rightarrow> nat \<Rightarrow> DataType \<Rightarrow> ReduceOp \<Rightarrow> bytes io" where
  "Ring_ReduceScatter F t comm send_buf recv_buf count dtype op =
     (let chunk_bytes = count * GetDataTypeSize dtype;
          total_bytes = chunk_bytes * to_size (world_size t);
          root = 0;
          reduced_buf = replicate total_bytes 0 in
      bind_io (Ring_Reduce F t comm send_buf reduced_buf (count * to_size (world_size t)) dtype op root)
        (\<lambda>reduced_buf. Ring_Scatter t comm reduced_buf recv_buf count dtype root))"

definition Ring_AllToAll ::
  "topology \<Rightarrow> Communicator \<Rightarrow> bytes \<Rightarrow> bytes \<Rightarrow> nat \<Rightarrow> DataType \<Rightarrow> bytes io" where
  "Ring_AllToAll t comm send_buf recv_buf count dtype =
     (let chunk_bytes = count * GetDataTypeSize dtype;
          ws = world_size t;
          total = chunk_bytes * to_size ws in
      bind_io (io_load send_buf (to_size (rank t) * chunk_bytes) chunk_bytes) (\<lambda>own.
      bind_io (io_store recv_buf (to_size (rank t) * chunk_bytes) own) (\<lambda>recv_buf.
      for_each [0..<nat ws] (\<lambda>src recv_buf.
        bind_io (if rank t = int src then
                   bind_io (io_load send_buf 0 total) (\<lambda>all. io_store (replicate total 0) 0 all)
                 else io_return (replicate total 0)) (\<lambda>temp_buffer.
        bind_io (Ring_Broadcast t comm temp_buffer (count * to_size ws) dtype (int src)) (\<lambda>temp_buffer.
        bind_io (io_load temp_buffer (to_size (rank t) * chunk_bytes) chunk_bytes) (\<lambda>piece.
        io_store recv_buf (src * chunk_bytes) piece)))) recv_buf)))"

section \<open>AllReduce\<close>

definition AllReduceTwoRanks ::
  "fp \<Rightarrow> topology \<Rightarrow> Communicator \<Rightarrow> bytes \<Rightarrow> bytes \<Rightarrow> nat \<Rightarrow> DataType \<Rightarrow> ReduceOp \<Rightarrow> bytes io" where
  "AllReduceTwoRanks F t comm send_buf recv_buf count dtype op =
     (let chunk_bytes = count * GetDataTypeSize dtype;
          peer = 1 - rank t in
      bind_io (get_transport comm peer) (\<lambda>transport.
      bind_io (io_load send_buf 0 chunk_bytes) (\<lambda>own.
      bind_io (io_store recv_buf 0 own) (\<lambda>recv_buf.
      bind_io (if rank t = 0 then
                 bind_io (io_load recv_buf 0 chunk_bytes) (\<lambda>data.
                 bind_io (io_send transport data) (\<lambda>_.
                 io_recv transport chunk_bytes))
               else
                 bind_io (io_recv transport chunk_bytes) (\<lambda>peer_data.
                 bind_io (io_load recv_buf 0 chunk_bytes) (\<lambda>data.
                 bind_io (io_send transport data) (\<lambda>_. io_return peer_data)))) (\<lambda>peer_data.
      io_reduce F peer_data recv_buf count dtype op 2)))))"

text \<open>The number of elements in chunk \<open>c\<close>, with the \<open>size_t\<close> subtraction of the code.\<close>

definition actual_count :: "nat \<Rightarrow> nat \<Rightarrow> int \<Rightarrow> nat" where
  "actual_count chunk_size count chunk = min chunk_size (size_sub count (to_size chunk * chunk_size))"

text \<open>The number of elements of a chunk, rounded up.\<close>

definition ring_chunk_size :: "nat \<Rightarrow> int \<Rightarrow> nat" where
  "ring_chunk_size count ws = (count + to_size ws - 1) div to_size ws"

definition AllReduceReduceScatter_step ::
  "fp \<Rightarrow> topology \<Rightarrow> RingTransports \<Rightarrow> nat \<Rightarrow> DataType \<Rightarrow> ReduceOp \<Rightarrow> nat \<Rightarrow> bytes \<Rightarrow> bytes io" where
  "AllReduceReduceScatter_step F t rt count dtype op i recv_buf =
     (let type_size = GetDataTypeSize dtype;
          ws = world_size t;
          chunk_size = ring_chunk_size count ws;
          chunk_bytes = chunk_size * type_size;
          send_chunk = (rank t - int i + ws) smod ws;
          recv_chunk = (rank t - int i + ws - 1) smod ws;
          send_offset = to_size send_chunk * chunk_bytes;
          recv_offset = to_size recv_chunk * chunk_bytes;
          actual_send_count = actual_count chunk_size count send_chunk;
          actual_recv_count = actual_count chunk_size count recv_chunk in
      bind_io (io_load recv_buf send_offset (actual_send_count * type_size)) (\<lambda>data.
      bind_io (io_exchange (rt_next rt) data (rt_prev rt) (actual_recv_count * type_size)) (\<lambda>temp_buffer.
      bind_io (io_load recv_buf recv_offset (actual_recv_count * type_size)) (\<lambda>own.
      bind_io (io_reduce F temp_buffer own actual_recv_count dtype op ws) (\<lambda>reduced.
      io_store recv_buf recv_offset reduced)))))"

definition AllReduceReduceScatter ::
  "fp \<Rightarrow> topology \<Rightarrow> bytes \<Rightarrow> nat \<Rightarrow> DataType \<Rightarrow> ReduceOp \<Rightarrow> RingTransports \<Rightarrow> bytes io" where
  "AllReduceReduceScatter F t recv_buf count dtype op rt =
     for_each [0..<nat (world_size t - 1)] (AllReduceReduceScatter_step F t rt count dtype op) recv_buf"

definition AllReduceAllGather_step ::
  "topology \<Rightarrow> RingTransports \<Rightarrow> nat \<Rightarrow> DataType \<Rightarrow> nat \<Rightarrow> bytes \<Rightarrow> bytes io" where
  "AllReduceAllGather_step t rt count dtype i recv_buf =
     (let type_size = GetDataTypeSize dtype;
          ws = world_size t;
          chunk_size = ring_chunk_size count ws;
          chunk_bytes = chunk_size * type_size;
          send_chunk = (rank t - int i + 1 + ws) smod ws;
          recv_chunk = (rank t - int i + ws) smod ws;
          send_offset = to_size send_chunk * chunk_bytes;
          recv_offset = to_size recv_chunk * chunk_bytes;
          actual_send_count = actual_count chunk_size count send_chunk;
          actual_recv_count = actual_count chunk_size count recv_chunk in
      bind_io (io_load recv_buf send_offset (actual_send_count * type_size)) (\<lambda>data.
      bind_io (io_exchange (rt_next rt) data (rt_prev rt) (actual_recv_count * type_size)) (\<lambda>data.
      io_store recv_buf recv_offset data)))"

definition AllReduceAllGather ::
  "topology \<Rightarrow> bytes \<Rightarrow> nat \<Rightarrow> DataType \<Rightarrow> RingTransports \<Rightarrow> bytes io" where
  "AllReduceAllGather t recv_buf count dtype rt =
     for_each [0..<nat (world_size t - 1)] (AllReduceAllGather_step t rt count dtype) recv_buf"

definition Ring_AllReduce ::
  "fp \<Rightarrow> topology \<Rightarrow> Communicator \<Rightarrow> bytes \<Rightarrow> bytes \<Rightarrow> nat \<Rightarrow> DataType \<Rightarrow> ReduceOp \<Rightarrow> bytes io" where
  "Ring_AllReduce F t comm send_buf recv_buf count dtype op =
     (if world_size t = 2 then AllReduceTwoRanks F t comm send_buf recv_buf count dtype op
      else
        let chunk_bytes = count * GetDataTypeSize dtype in
        bind_io (GetRingTransports t comm) (\<lambda>rt.
        bind_io (io_load send_buf 0 chunk_bytes) (\<lambda>own.
        bind_io (io_store recv_buf 0 own) (\<lambda>recv_buf.
        bind_io (AllReduceReduceScatter F t recv_buf count dtype op rt) (\<lambda>recv_buf.
        AllReduceAllGather t recv_buf count dtype rt)))))"

section \<open>Barrier\<close>

text \<open>\<open>dummy\<close> is the four bytes of the \<open>int\<close> that the ranks pass on.\<close>

definition token_send :: "int \<Rightarrow> bytes \<Rightarrow> bytes io" where
  "token_send tr dummy = bind_io (io_load dummy 0 4) (\<lambda>data. bind_io (io_send tr data) (\<lambda>_. io_return dummy))"

definition token_recv :: "int \<Rightarrow> bytes \<Rightarrow> bytes io" where
  "token_recv tr dummy = bind_io (io_recv tr 4) (\<lambda>data. io_store dummy 0 data)"

definition Ring_Barrier_round :: "topology \<Rightarrow> RingTransports \<Rightarrow> bytes \<Rightarrow> bytes io" where
  "Ring_Barrier_round t rt dummy =
     (if rank t = 0
      then bind_io (token_send (rt_next rt) dummy) (token_recv (rt_prev rt))
      else bind_io (token_recv (rt_prev rt) dummy) (token_send (rt_next rt)))"

definition Ring_Barrier :: "topology \<Rightarrow> Communicator \<Rightarrow> unit io" where
  "Ring_Barrier t comm =
     bind_io (GetRingTransports t comm) (\<lambda>rt.
     bind_io (Ring_Barrier_round t rt (replicate 4 0)) (\<lambda>dummy.
     bind_io (Ring_Barrier_round t rt dummy) (\<lambda>_. io_return ())))"

end
