(* ===== verification/Schedules.thy ===== *)
theory Schedules
  imports Network
begin

text \<open>
  Macro steps. On a network that works, a pending \<open>Send\<close> and the matching pending
  \<open>Recv\<close> can be carried out to their end, whatever the capacity of the links and however
  many bytes they move, and leave the link empty. A collective is then run by pairing sends
  with receives: \<open>syncs N f g\<close> says that ranks running the programs \<open>f\<close>, with nothing in
  flight, can get to the programs \<open>g\<close>, with nothing in flight. Since all steps commute, one
  such schedule is all that has to be found (\<open>net.one_schedule_suffices\<close>).
\<close>

definition healthy :: "net \<Rightarrow> bool" where
  "healthy N \<longleftrightarrow> 0 < cap N \<and> (\<forall>a b. up N a b)"

text \<open>The tightest network that works: its links hold one byte.\<close>

definition tight_net :: net where
  "tight_net = \<lparr>cap = 1, up = (\<lambda>_ _. True)\<rparr>"

lemma tight_net_healthy [simp]: "healthy tight_net"
  by (simp add: healthy_def tight_net_def)

definition launch :: "(int \<Rightarrow> 'a prog) \<Rightarrow> 'a conf" where
  "launch f = \<lparr>progs = f, chan = (\<lambda>_. [])\<rparr>"

definition syncs :: "net \<Rightarrow> (int \<Rightarrow> 'a prog) \<Rightarrow> (int \<Rightarrow> 'a prog) \<Rightarrow> bool" where
  "syncs N f g \<longleftrightarrow> reaches (step N) (launch f) (launch g)"

text \<open>The ranks of a world; the other integers run nothing.\<close>

definition world :: "int \<Rightarrow> (int \<Rightarrow> 'a io) \<Rightarrow> int \<Rightarrow> 'a io" where
  "world ws f r = (if 0 \<le> r \<and> r < ws then f r else io_fail BadPeer)"

lemma world_in [simp]: "0 \<le> r \<Longrightarrow> r < ws \<Longrightarrow> world ws f r = f r"
  by (simp add: world_def)

lemma world_cong: "(\<And>r. 0 \<le> r \<Longrightarrow> r < ws \<Longrightarrow> f r = g r) \<Longrightarrow> world ws f = world ws g"
  by (auto simp: world_def fun_eq_iff)

lemma world_upd: "0 \<le> a \<Longrightarrow> a < ws \<Longrightarrow> (world ws f)(a := p) = world ws (f(a := p))"
  by (auto simp: world_def fun_eq_iff)

lemma syncs_refl [simp, intro!]: "syncs N f f"
  by (simp add: syncs_def)

lemma syncs_trans [trans]: "syncs N f g \<Longrightarrow> syncs N g h \<Longrightarrow> syncs N f h"
  unfolding syncs_def by (rule reaches_trans)

lemma syncs_eq_trans: "syncs N f g \<Longrightarrow> g = h \<Longrightarrow> syncs N f h"
  by simp

section \<open>One transfer\<close>

lemma transfer_byte:
  assumes "progs c a = Ops (xs @ OSend b (x # bs) # ys) ka"
    and "progs c b = Ops (us @ ORecv a (Suc n) acc # vs) kb"
    and "a \<noteq> b" "chan c (a, b) = []" "healthy N"
    and "\<forall>q\<in>set xs. \<not> sending b q" "\<forall>q\<in>set us. \<not> receiving a q"
  shows "reaches (step N) c (c\<lparr>progs := (progs c)
    (a := Ops (xs @ OSend b bs # ys) ka, b := Ops (us @ ORecv a n (acc @ [x]) # vs) kb)\<rparr>)"
proof -
  let ?c1 = "c\<lparr>progs := (progs c)(a := Ops (xs @ OSend b bs # ys) ka), chan := (chan c)((a, b) := [x])\<rparr>"
  have "step N (LSend a b) c = Some ?c1"
    using assms by (simp add: find_append upd_first_append healthy_def)
  moreover have "step N (LRecv a b) ?c1 = Some (c\<lparr>progs := (progs c)
    (a := Ops (xs @ OSend b bs # ys) ka, b := Ops (us @ ORecv a n (acc @ [x]) # vs) kb)\<rparr>)"
    using assms by (simp add: find_append upd_first_append healthy_def fun_upd_idem)
  ultimately show ?thesis
    by (blast intro: reaches_step_trans reaches_step)
qed

lemma transfer_ops:
  assumes "progs c a = Ops (xs @ OSend b bs # ys) ka"
    and "progs c b = Ops (us @ ORecv a (length bs) acc # vs) kb"
    and "a \<noteq> b" "chan c (a, b) = []" "healthy N"
    and "\<forall>q\<in>set xs. \<not> sending b q" "\<forall>q\<in>set us. \<not> receiving a q"
  shows "reaches (step N) c (c\<lparr>progs := (progs c)
    (a := Ops (xs @ OSend b [] # ys) ka, b := Ops (us @ ORecv a 0 (acc @ bs) # vs) kb)\<rparr>)"
  using assms
proof (induction bs arbitrary: c acc)
  case Nil
  then have "c\<lparr>progs := (progs c)(a := Ops (xs @ OSend b [] # ys) ka,
      b := Ops (us @ ORecv a 0 (acc @ []) # vs) kb)\<rparr> = c"
    by (simp add: fun_upd_idem)
  then show ?case
    by (metis append_Nil2 reaches_refl)
next
  case (Cons x bs)
  let ?c1 = "c\<lparr>progs := (progs c)(a := Ops (xs @ OSend b bs # ys) ka,
      b := Ops (us @ ORecv a (length bs) (acc @ [x]) # vs) kb)\<rparr>"
  have first: "reaches (step N) c ?c1"
    using Cons.prems by (intro transfer_byte) auto
  have rest: "reaches (step N) ?c1 (?c1\<lparr>progs := (progs ?c1)(a := Ops (xs @ OSend b [] # ys) ka,
      b := Ops (us @ ORecv a 0 ((acc @ [x]) @ bs) # vs) kb)\<rparr>)"
    using Cons.prems by (intro Cons.IH) auto
  have eq: "?c1\<lparr>progs := (progs ?c1)(a := Ops (xs @ OSend b [] # ys) ka,
      b := Ops (us @ ORecv a 0 ((acc @ [x]) @ bs) # vs) kb)\<rparr> =
      c\<lparr>progs := (progs c)(a := Ops (xs @ OSend b [] # ys) ka,
      b := Ops (us @ ORecv a 0 (acc @ (x # bs)) # vs) kb)\<rparr>"
    using Cons.prems(3) by (simp add: fun_upd_twist)
  show ?case
    using reaches_trans [OF first rest] unfolding eq .
qed

text \<open>The same on programs alone, and the step of a rank whose operations are done.\<close>

lemma syncs_transfer:
  assumes "f a = Ops (xs @ OSend b bs # ys) ka"
    and "f b = Ops (us @ ORecv a (length bs) acc # vs) kb"
    and "a \<noteq> b" "healthy N"
    and "\<forall>q\<in>set xs. \<not> sending b q" "\<forall>q\<in>set us. \<not> receiving a q"
  shows "syncs N f (f(a := Ops (xs @ OSend b [] # ys) ka, b := Ops (us @ ORecv a 0 (acc @ bs) # vs) kb))"
proof -
  have upd: "(launch f)\<lparr>progs := (progs (launch f))(a := p, b := q)\<rparr> = launch (f(a := p, b := q))" for p q
    by (simp add: launch_def)
  show ?thesis
    unfolding syncs_def upd [symmetric]
    by (rule transfer_ops) (use assms in \<open>simp_all add: launch_def\<close>)
qed

lemma syncs_join:
  assumes "f r = Ops os k" "\<forall>q\<in>set os. op_done q"
  shows "syncs N f (f(r := k (map op_value os)))"
  unfolding syncs_def
  by (rule reaches_step [where l = "LJoin r"]) (use assms in \<open>simp add: launch_def\<close>)

text \<open>
  A send meets its receive: the two ranks go on, the receiver with the sender's bytes. The first
  form is for code that looks at what a call returned instead of returning early.
\<close>

lemma syncs_send_recv_result:
  assumes "f a = bind_prog (io_send b bs) ka" "f b = bind_prog (io_recv a (length bs)) kb"
    and "a \<noteq> b" "healthy N"
  shows "syncs N f (f(a := ka (Inr ()), b := kb (Inr bs)))"
proof -
  let ?sa = "\<lambda>rs. bind_prog (if rs = [Sent] then io_return () else io_fail SendFailed) ka"
  let ?rb = "\<lambda>rs. bind_prog (case rs of [Got bs] \<Rightarrow> io_return bs | _ \<Rightarrow> io_fail RecvFailed) kb"
  have "syncs N f (f(a := Ops ([] @ OSend b [] # []) ?sa, b := Ops ([] @ ORecv a 0 ([] @ bs) # []) ?rb))"
    by (rule syncs_transfer) (use assms in \<open>simp_all add: io_send_def io_recv_def\<close>)
  also have "syncs N \<dots> (f(a := ka (Inr ()), b := Ops ([] @ ORecv a 0 ([] @ bs) # []) ?rb))"
    using syncs_join [of "f(a := Ops ([] @ OSend b [] # []) ?sa, b := Ops ([] @ ORecv a 0 ([] @ bs) # []) ?rb)"
        a "[OSend b []]" ?sa N] assms(3) by (simp add: fun_upd_twist)
  also have "syncs N \<dots> (f(a := ka (Inr ()), b := kb (Inr bs)))"
    using syncs_join [of "f(a := ka (Inr ()), b := Ops ([] @ ORecv a 0 ([] @ bs) # []) ?rb)" b "[ORecv a 0 bs]" ?rb N]
    by simp
  finally show ?thesis .
qed

lemma syncs_send_recv:
  assumes "f a = bind_io (io_send b bs) ka" "f b = bind_io (io_recv a (length bs)) kb"
    and "a \<noteq> b" "healthy N"
  shows "syncs N f (f(a := ka (), b := kb bs))"
  using syncs_send_recv_result [of f a b bs _ _ N, OF assms(1,2) [unfolded bind_io_def] assms(3,4)] by simp

section \<open>Many transfers at once\<close>

text \<open>Senders \<open>S\<close>, each paired with a receiver \<open>d s\<close> of its own.\<close>

lemma syncs_matching:
  assumes "finite S" "inj_on d S" "d ` S \<inter> S = {}" "healthy N"
    and "\<And>s. s \<in> S \<Longrightarrow> f s = bind_io (io_send (d s) (x s)) (ka s)"
    and "\<And>s. s \<in> S \<Longrightarrow> f (d s) = bind_io (io_recv s (length (x s))) (kb s)"
    and "\<And>s. s \<in> S \<Longrightarrow> g s = ka s ()"
    and "\<And>s. s \<in> S \<Longrightarrow> g (d s) = kb s (x s)"
    and "\<And>r. r \<notin> S \<Longrightarrow> r \<notin> d ` S \<Longrightarrow> g r = f r"
  shows "syncs N f g"
  using assms
proof (induction S arbitrary: f rule: finite_induct)
  case empty
  then have "g = f" by auto
  then show ?case by simp
next
  case (insert s S)
  let ?f1 = "f(s := ka s (), d s := kb s (x s))"
  have ne: "s \<noteq> d s" "s \<notin> d ` S" "d s \<notin> S" "d s \<notin> d ` S"
    using insert by (auto simp: inj_on_def)
  have "syncs N f ?f1"
    using insert.prems ne by (intro syncs_send_recv) auto
  also have "syncs N ?f1 g"
  proof (rule insert.IH)
    show "inj_on d S" "d ` S \<inter> S = {}" "healthy N"
      using insert.prems by auto
    fix r
    show "?f1 r = bind_io (io_send (d r) (x r)) (ka r)" if "r \<in> S"
      using that ne insert.hyps insert.prems(4) by auto
    show "?f1 (d r) = bind_io (io_recv r (length (x r))) (kb r)" if "r \<in> S"
    proof -
      have "d r \<in> d ` S"
        using that by simp
      then have "d r \<noteq> s" "d r \<noteq> d s"
        using ne by metis+
      then show ?thesis using that insert.prems(5) by simp
    qed
    show "g r = ka r ()" "g (d r) = kb r (x r)" if "r \<in> S"
      using that insert.prems by auto
    show "g r = ?f1 r" if "r \<notin> S" "r \<notin> d ` S"
      using that ne insert.prems(6,7,8) by auto
  qed
  finally show ?case .
qed

text \<open>
  A round in which every rank of \<open>R\<close> sends to its successor and receives from its
  predecessor, both at once. In the middle of it the sends of the ranks \<open>D\<close> are done.
\<close>

definition exchanging ::
  "(int \<Rightarrow> int) \<Rightarrow> (int \<Rightarrow> int) \<Rightarrow> (int \<Rightarrow> bytes) \<Rightarrow> (int \<Rightarrow> op_result list \<Rightarrow> 'a prog) \<Rightarrow>
   int set \<Rightarrow> int set \<Rightarrow> (int \<Rightarrow> 'a prog) \<Rightarrow> int \<Rightarrow> 'a prog" where
  "exchanging nx pv x k R D f r = (if r \<in> R then
      Ops [OSend (nx r) (if r \<in> D then [] else x r),
           ORecv (pv r) (if pv r \<in> D then 0 else length (x (pv r))) (if pv r \<in> D then x (pv r) else [])] (k r)
      else f r)"

lemma exchanging_send:
  assumes "healthy N" "s \<in> R" "s \<notin> D"
    and nx: "\<And>r. r \<in> R \<Longrightarrow> nx r \<in> R \<and> nx r \<noteq> r \<and> pv (nx r) = r"
    and pv: "\<And>r. r \<in> R \<Longrightarrow> pv r \<in> R \<and> nx (pv r) = r"
  shows "syncs N (exchanging nx pv x k R D f) (exchanging nx pv x k R (insert s D) f)"
proof -
  let ?d = "nx s" and ?h = "exchanging nx pv x k R"
  let ?ys = "[ORecv (pv s) (if pv s \<in> D then 0 else length (x (pv s))) (if pv s \<in> D then x (pv s) else [])]"
  let ?us = "[OSend (nx ?d) (if ?d \<in> D then [] else x ?d)]"
  have d: "?d \<in> R" "?d \<noteq> s" "pv ?d = s" "pv s \<noteq> s"
    using nx pv assms(2) by metis+
  have only: "pv r = s \<longleftrightarrow> r = ?d" if "r \<in> R" for r
    using pv nx that assms(2) by metis
  have "syncs N (?h D f) ((?h D f)(s := Ops ([] @ OSend ?d [] # ?ys) (k s),
      ?d := Ops (?us @ ORecv s 0 ([] @ x s) # []) (k ?d)))"
    by (rule syncs_transfer) (use d assms(1-3) in \<open>simp_all add: exchanging_def\<close>)
  moreover have "(?h D f)(s := Ops ([] @ OSend ?d [] # ?ys) (k s),
      ?d := Ops (?us @ ORecv s 0 ([] @ x s) # []) (k ?d)) = ?h (insert s D) f"
    by (auto simp: exchanging_def fun_eq_iff only d assms(2))
  ultimately show ?thesis by simp
qed

lemma exchanging_sends:
  assumes "finite R" "healthy N" "D \<subseteq> R"
    and nx: "\<And>r. r \<in> R \<Longrightarrow> nx r \<in> R \<and> nx r \<noteq> r \<and> pv (nx r) = r"
    and pv: "\<And>r. r \<in> R \<Longrightarrow> pv r \<in> R \<and> nx (pv r) = r"
  shows "syncs N (exchanging nx pv x k R {} f) (exchanging nx pv x k R D f)"
  using finite_subset [OF assms(3,1)] assms(3)
proof (induction D rule: finite_induct)
  case (insert s D)
  then have "syncs N (exchanging nx pv x k R {} f) (exchanging nx pv x k R D f)"
    by simp
  also have "syncs N \<dots> (exchanging nx pv x k R (insert s D) f)"
    by (rule exchanging_send) (use insert assms(2) nx pv in auto)
  finally show ?case .
qed simp

lemma exchanging_joins:
  assumes "finite R" "D \<subseteq> R" and pv: "\<And>r. r \<in> R \<Longrightarrow> pv r \<in> R"
  shows "syncs N (exchanging nx pv x k R R f)
    (\<lambda>r. if r \<in> D then k r [Sent, Got (x (pv r))] else exchanging nx pv x k R R f r)"
  using finite_subset [OF assms(2,1)] assms(2)
proof (induction D rule: finite_induct)
  case (insert s D)
  let ?h = "exchanging nx pv x k R R f" and ?k = "\<lambda>r. k r [Sent, Got (x (pv r))]"
  let ?j = "\<lambda>r. if r \<in> D then ?k r else ?h r"
  have "syncs N ?h ?j"
    using insert by simp
  also have "syncs N ?j (?j(s := k s (map op_value [OSend (nx s) [], ORecv (pv s) 0 (x (pv s))])))"
    by (rule syncs_join) (use insert pv [of s] in \<open>simp_all add: exchanging_def\<close>)
  also have "?j(s := k s (map op_value [OSend (nx s) [], ORecv (pv s) 0 (x (pv s))])) =
      (\<lambda>r. if r \<in> insert s D then ?k r else ?h r)"
    by (auto simp: fun_eq_iff)
  finally show ?case .
qed simp

lemma syncs_exchange:
  fixes f g :: "int \<Rightarrow> 'a io"
  assumes "finite R" "healthy N"
    and nx: "\<And>r. r \<in> R \<Longrightarrow> nx r \<in> R \<and> nx r \<noteq> r \<and> pv (nx r) = r"
    and pv: "\<And>r. r \<in> R \<Longrightarrow> pv r \<in> R \<and> nx (pv r) = r"
    and f: "\<And>r. r \<in> R \<Longrightarrow> f r = bind_io (io_exchange (nx r) (x r) (pv r) (length (x (pv r)))) (K r)"
    and g: "\<And>r. r \<in> R \<Longrightarrow> g r = K r (x (pv r))"
    and out: "\<And>r. r \<notin> R \<Longrightarrow> g r = f r"
  shows "syncs N f g"
proof -
  let ?k = "\<lambda>r rs. bind_io (case rs of [_, Got bs] \<Rightarrow> io_return bs | _ \<Rightarrow> io_fail RecvFailed) (K r)"
  let ?h = "\<lambda>D. exchanging nx pv x ?k R D f"
  have start: "f = ?h {}"
    using f by (auto simp: exchanging_def io_exchange_def fun_eq_iff)
  have fin: "(\<lambda>r. if r \<in> R then ?k r [Sent, Got (x (pv r))] else ?h R r) = g"
    using g out by (auto simp: exchanging_def fun_eq_iff)
  have "syncs N (?h {}) (?h R)"
    by (rule exchanging_sends) (use assms in auto)
  also have "syncs N (?h R) (\<lambda>r. if r \<in> R then ?k r [Sent, Got (x (pv r))] else ?h R r)"
    by (rule exchanging_joins) (use assms in auto)
  finally show ?thesis
    unfolding fin start [symmetric] .
qed

section \<open>What a collective delivers\<close>

text \<open>
  \<open>delivers N ws f v\<close>: when each rank \<open>r\<close> of a world of \<open>ws\<close> ranks runs \<open>f r\<close> on the
  network \<open>N\<close>, then under every scheduler all of them return, rank \<open>r\<close> with \<open>v r\<close>, and
  the links are empty again.
\<close>

definition delivers :: "net \<Rightarrow> int \<Rightarrow> (int \<Rightarrow> 'a io) \<Rightarrow> (int \<Rightarrow> 'a result) \<Rightarrow> bool" where
  "delivers N ws f v \<longleftrightarrow>
     always_ends (step N) (launch (world ws f)) (launch (world ws (\<lambda>r. Ret (v r))))"

lemma step_returned: "progs c r = Ret v \<Longrightarrow> step N l c = Some c' \<Longrightarrow> progs c' r = Ret v"
  by (erule step_cases) auto

lemma reaches_returned: "reaches (step N) c c' \<Longrightarrow> progs c r = Ret v \<Longrightarrow> progs c' r = Ret v"
proof -
  have "run (step N) ls c = Some c' \<Longrightarrow> progs c r = Ret v \<Longrightarrow> progs c' r = Ret v" for ls
    by (induction ls arbitrary: c) (auto split: option.splits dest: step_returned)
  then show "reaches (step N) c c' \<Longrightarrow> progs c r = Ret v \<Longrightarrow> progs c' r = Ret v"
    by (auto simp: reaches_def)
qed

lemma stuck_returned:
  assumes "\<And>r. \<exists>v. progs c r = Ret v"
  shows "stuck (step N) c"
proof -
  have "step N l c = None" for l
  proof (rule ccontr)
    assume "step N l c \<noteq> None"
    then obtain c' where "step N l c = Some c'" by auto
    then show False
      by (rule step_cases) (use assms in \<open>metis prog.distinct(1)\<close>)+
  qed
  then show ?thesis by (simp add: stuck_def)
qed

lemma delivers_by_schedule:
  assumes "syncs N (world ws f) (world ws (\<lambda>r. Ret (v r)))"
  shows "delivers N ws f v"
  unfolding delivers_def
proof (rule net.one_schedule_suffices)
  show "reaches (step N) (launch (world ws f)) (launch (world ws (\<lambda>r. Ret (v r))))"
    using assms by (simp add: syncs_def)
  show "stuck (step N) (launch (world ws (\<lambda>r. Ret (v r))))"
    by (rule stuck_returned) (simp add: launch_def world_def)
qed

lemma delivers_cong:
  "(\<And>r. 0 \<le> r \<Longrightarrow> r < ws \<Longrightarrow> f r = g r) \<Longrightarrow> (\<And>r. 0 \<le> r \<Longrightarrow> r < ws \<Longrightarrow> v r = w r) \<Longrightarrow>
   delivers N ws f v = delivers N ws g w"
  using world_cong [of ws f g] world_cong [of ws "\<lambda>r. Ret (v r)" "\<lambda>r. Ret (w r)"]
  by (simp add: delivers_def)

lemma syncs_chain: "(\<And>k. k < m \<Longrightarrow> syncs N (S k) (S (Suc k))) \<Longrightarrow> syncs N (S 0) (S m)"
  by (induction m) (auto intro: syncs_trans)

section \<open>Running one collective after another\<close>

text \<open>
  What a program does does not depend on what is done with its result, so a schedule for the
  first of two collectives that are run in sequence is a schedule of the sequence.
\<close>

definition bind_conf :: "(int \<Rightarrow> 'a \<Rightarrow> 'b io) \<Rightarrow> 'a result conf \<Rightarrow> 'b result conf" where
  "bind_conf g c = \<lparr>progs = (\<lambda>r. bind_io (progs c r) (g r)), chan = chan c\<rparr>"

lemma step_bind_conf: "step N l c = Some c' \<Longrightarrow> step N l (bind_conf g c) = Some (bind_conf g c')"
  by (erule step_cases) (auto simp: bind_conf_def fun_eq_iff)

lemma run_bind_conf: "run (step N) ls c = Some c' \<Longrightarrow> run (step N) ls (bind_conf g c) = Some (bind_conf g c')"
proof (induction ls arbitrary: c)
  case (Cons l ls)
  then obtain c1 where "step N l c = Some c1" "run (step N) ls c1 = Some c'"
    by (auto split: option.splits)
  then show ?case
    using Cons.IH step_bind_conf [of N l c c1 g] by simp
qed simp

lemma syncs_bind: "syncs N f f' \<Longrightarrow> syncs N (\<lambda>r. bind_io (f r) (g r)) (\<lambda>r. bind_io (f' r) (g r))"
  unfolding syncs_def reaches_def
  using run_bind_conf [where c = "launch f" and c' = "launch f'" and g = g and N = N]
  by (auto simp: launch_def bind_conf_def)

lemma world_bind: "(\<lambda>r. bind_io (world ws f r) (g r)) = world ws (\<lambda>r. bind_io (f r) (g r))"
  by (auto simp: world_def fun_eq_iff)

lemma syncs_world_bind:
  "syncs N (world ws f) (world ws (\<lambda>r. io_return (v r))) \<Longrightarrow>
   syncs N (world ws (\<lambda>r. bind_io (f r) (g r))) (world ws (\<lambda>r. g r (v r)))"
  using syncs_bind [of N "world ws f" "world ws (\<lambda>r. io_return (v r))" g] by (simp add: world_bind)

lemma delivers_syncs: "delivers N ws f v \<Longrightarrow> syncs N (world ws f) (world ws (\<lambda>r. Ret (v r)))"
  unfolding delivers_def always_ends_def syncs_def by (metis run.simps(1))

text \<open>A program that runs one collective after another delivers what the last one delivers.\<close>

lemma delivers_bind:
  assumes "delivers N ws f (\<lambda>r. Inr (v r))" "delivers N ws (\<lambda>r. g r (v r)) w"
  shows "delivers N ws (\<lambda>r. bind_io (f r) (g r)) w"
proof (rule delivers_by_schedule)
  have "syncs N (world ws (\<lambda>r. bind_io (f r) (g r))) (world ws (\<lambda>r. g r (v r)))"
    by (rule syncs_world_bind) (rule delivers_syncs [OF assms(1)])
  then show "syncs N (world ws (\<lambda>r. bind_io (f r) (g r))) (world ws (\<lambda>r. Ret (w r)))"
    by (rule syncs_trans) (rule delivers_syncs [OF assms(2)])
qed

lemma for_each_pure:
  "(\<And>i. i < m \<Longrightarrow> body i (s i) = io_return (s (Suc i))) \<Longrightarrow> for_each [0..<m] body (s 0) = io_return (s m)"
  by (induction m) (simp_all add: for_each_append)

text \<open>A loop in lock step: one round of all ranks at a time.\<close>

lemma syncs_rounds:
  fixes k :: "int \<Rightarrow> 's \<Rightarrow> 'b io"
  assumes rounds: "\<And>m (k :: int \<Rightarrow> 's \<Rightarrow> 'b io). m < M \<Longrightarrow>
      syncs N (world ws (\<lambda>r. bind_io (body r m (S r m)) (k r))) (world ws (\<lambda>r. k r (S r (Suc m))))"
  shows "syncs N (world ws (\<lambda>r. bind_io (for_each [0..<M] (body r) (S r 0)) (k r))) (world ws (\<lambda>r. k r (S r M)))"
proof -
  define W where "W = (\<lambda>m. world ws (\<lambda>r. bind_io (for_each [m..<M] (body r) (S r m)) (k r)))"
  have "syncs N (W m) (W (Suc m))" if "m < M" for m
    using rounds [OF that, where k = "\<lambda>r s. bind_io (for_each [Suc m..<M] (body r) s) (k r)"] that
    by (simp add: W_def upt_conv_Cons)
  then have "syncs N (W 0) (W M)"
    by (rule syncs_chain [where S = W])
  then show ?thesis
    by (simp add: W_def)
qed

end
