(* ===== verification/RingChains.thy ===== *)
theory RingChains
  imports RingPositions
begin

text \<open>
  \<open>Reduce\<close>, \<open>Gather\<close> and \<open>Scatter\<close> on the ring: schedules that run them to their end, with
  what each rank returns.
\<close>

section \<open>Chains towards the root\<close>

text \<open>
  \<open>Reduce\<close> and \<open>Gather\<close> have the same shape: position \<open>q\<close> hands \<open>msg q\<close> to position
  \<open>q - 1\<close>, which makes \<open>msg (q - 1)\<close> of it, until the root has \<open>msg 1\<close>. The lemma asks
  for the programs in that form: the last position sends at once, the others wait.
\<close>

definition to_root :: "int \<Rightarrow> int \<Rightarrow> (nat \<Rightarrow> bytes) \<Rightarrow> (nat \<Rightarrow> bytes) \<Rightarrow> nat \<Rightarrow> bytes io" where
  "to_root ws root msg fin q =
     (if q = 0 then io_return (fin 0)
      else bind_io (io_send (at ws root (q - 1)) (msg q)) (\<lambda>_. io_return (fin q)))"

lemma syncs_to_root:
  assumes "0 < ws" "healthy N"
    and last: "init (nat ws - 1) = to_root ws root msg fin (nat ws - 1)"
    and other: "\<And>q. Suc q < nat ws \<Longrightarrow> \<exists>kb. init q = bind_io (io_recv (at ws root (Suc q)) (length (msg (Suc q)))) kb \<and>
        kb (msg (Suc q)) = to_root ws root msg fin q"
  shows "syncs N (by_pos ws root init) (by_pos ws root (\<lambda>q. io_return (fin q)))"
proof -
  let ?n = "nat ws"
  define S where "S = (\<lambda>m q. if ?n - Suc m < q then io_return (fin q)
      else if q = ?n - Suc m then to_root ws root msg fin q else init q)"
  have "syncs N (by_pos ws root (S m)) (by_pos ws root (S (Suc m)))" if m: "m < ?n - 1" for m
  proof -
    define q where "q = ?n - Suc (Suc m)"
    have q: "Suc q < ?n" "?n - Suc m = Suc q"
      using m by (auto simp: q_def)
    obtain kb where kb: "init q = bind_io (io_recv (at ws root (Suc q)) (length (msg (Suc q)))) kb"
      "kb (msg (Suc q)) = to_root ws root msg fin q"
      using other [OF q(1)] by blast
    have "syncs N (by_pos ws root (S m))
        (by_pos ws root ((S m)(Suc q := io_return (fin (Suc q)), q := kb (msg (Suc q)))))"
      by (rule syncs_pos) (use q kb assms(2) in \<open>auto simp: S_def to_root_def\<close>)
    also have "(S m)(Suc q := io_return (fin (Suc q)), q := kb (msg (Suc q))) = S (Suc m)"
      using kb(2) q by (auto simp: S_def fun_eq_iff q_def)
    finally show ?thesis .
  qed
  then have "syncs N (by_pos ws root (S 0)) (by_pos ws root (S (?n - 1)))"
    by (rule syncs_pos_chain)
  moreover have "by_pos ws root (S 0) = by_pos ws root init"
    by (rule by_pos_cong) (use last in \<open>auto simp: S_def\<close>)
  moreover have "by_pos ws root (S (?n - 1)) = by_pos ws root (\<lambda>q. io_return (fin q))"
    by (rule by_pos_cong) (auto simp: S_def to_root_def)
  ultimately show ?thesis by simp
qed

section \<open>Reduce\<close>

text \<open>
  What position \<open>q\<close> holds when it has combined what comes from farther out with its own
  contribution: \<open>d q \<oplus> (d (q+1) \<oplus> (... \<oplus> d (n-1)))\<close>.
\<close>

definition reduce_from :: "(bytes \<Rightarrow> bytes \<Rightarrow> bytes) \<Rightarrow> nat \<Rightarrow> (nat \<Rightarrow> bytes) \<Rightarrow> nat \<Rightarrow> bytes" where
  "reduce_from red n d q = foldr (\<lambda>p acc. red acc (d p)) [q..<n - 1] (d (n - 1))"

lemma reduce_from_last [simp]: "reduce_from red n d (n - Suc 0) = d (n - Suc 0)"
  by (simp add: reduce_from_def)

lemma reduce_from_step: "Suc q < n \<Longrightarrow> reduce_from red n d q = red (reduce_from red n d (Suc q)) (d q)"
  by (simp add: reduce_from_def upt_conv_Cons)

lemma length_reduce_from:
  assumes "\<And>q. length (d q) = count * GetDataTypeSize dtype"
  shows "length (reduce_from (reduce_bytes F count dtype op w) n d q) = count * GetDataTypeSize dtype"
proof -
  have "length (foldr (\<lambda>p acc. reduce_bytes F count dtype op w acc (d p)) ps (d (n - 1))) = count * GetDataTypeSize dtype" for ps
    using assms by (induction ps) auto
  then show ?thesis by (simp add: reduce_from_def)
qed

lemma mem_store_replicate [mem_simps]: "n = length bs \<Longrightarrow> mem_store (replicate n x) 0 bs = Some bs"
  by (simp add: mem_store_def)

lemma Ring_Reduce_syncs:
  assumes w: "wired_ring ws comm" and root: "0 \<le> root" "root < ws" and two: "2 \<le> ws" and N: "healthy N"
    and len: "\<And>r. length (d r) = count * GetDataTypeSize dtype"
    and rlen: "length (rbuf root) = count * GetDataTypeSize dtype"
  shows "syncs N (world ws (\<lambda>r. Ring_Reduce F (ring_topo ws r) (comm r) (d r) (rbuf r) count dtype op root))
    (world ws (\<lambda>r. io_return (if r = root
       then reduce_from (reduce_bytes F count dtype op ws) (nat ws) (\<lambda>q. d (at ws root q)) 0 else rbuf r)))"
proof -
  let ?n = "nat ws" and ?red = "reduce_bytes F count dtype op ws"
  let ?msg = "reduce_from ?red ?n (\<lambda>q. d (at ws root q))"
  let ?fin = "\<lambda>q. if q = 0 then ?msg 0 else rbuf (at ws root q)"
  let ?init = "\<lambda>q. Ring_Reduce F (ring_topo ws (at ws root q)) (comm (at ws root q)) (d (at ws root q)) (rbuf (at ws root q)) count dtype op root"
  have mlen: "length (?msg q) = count * GetDataTypeSize dtype" for q
    using len by (rule length_reduce_from)
  have root0: "at ws root 0 = root"
    using root by (rule at_0)
  have "syncs N (by_pos ws root ?init) (by_pos ws root (\<lambda>q. io_return (?fin q)))"
  proof (rule syncs_to_root [where msg = ?msg])
    show "0 < ws" "healthy N" using two N by auto
    show "?init (?n - 1) = to_root ws root ?msg ?fin (?n - 1)"
      using two root len at_eq_root [of root ws "?n - 1"] at_pred [of ws root "?n - 2"]
        chain_position [of root ws "?n - 1"]
      by (auto simp: Ring_Reduce_def Let_def w mem_simps to_root_def numeral_2_eq_2 Suc_diff_Suc)
    fix q assume q: "Suc q < ?n"
    show "\<exists>kb. ?init q = bind_io (io_recv (at ws root (Suc q)) (length (?msg (Suc q)))) kb \<and>
        kb (?msg (Suc q)) = to_root ws root ?msg ?fin q"
    proof (cases q)
      case 0
      then show ?thesis
        using q two root len rlen mlen [of 1] root0 at_Suc [of ws root 0] reduce_from_step [OF q, of ?red "\<lambda>q. d (at ws root q)"]
        by (auto simp: Ring_Reduce_def Let_def w mem_simps to_root_def mlen intro!: exI conjI)
    next
      case (Suc p)
      then show ?thesis
        using q two root len mlen [of "Suc q"] at_eq_root [of root ws q] at_Suc [of ws root q] at_pred [of ws root p]
          chain_position [of root ws q] reduce_from_step [OF q, of ?red "\<lambda>q. d (at ws root q)"]
        by (auto simp: Ring_Reduce_def Let_def w mem_simps to_root_def mlen intro!: exI conjI)
    qed
  qed
  moreover have "world ws (\<lambda>r. Ring_Reduce F (ring_topo ws r) (comm r) (d r) (rbuf r) count dtype op root) = by_pos ws root ?init"
    by (rule world_by_pos) simp
  moreover have "world ws (\<lambda>r. io_return (if r = root then ?msg 0 else rbuf r)) = by_pos ws root (\<lambda>q. io_return (?fin q))"
    by (rule world_by_pos) (use root in \<open>auto simp: at_eq_root\<close>)
  ultimately show ?thesis by simp
qed

section \<open>Gather\<close>

text \<open>Position \<open>q\<close> sends its own chunk followed by those of all positions farther out.\<close>

definition gather_from :: "nat \<Rightarrow> (nat \<Rightarrow> bytes) \<Rightarrow> nat \<Rightarrow> bytes" where
  "gather_from n d q = concat (map d [q..<n])"

lemma gather_from_step: "q < n \<Longrightarrow> gather_from n d q = d q @ gather_from n d (Suc q)"
  by (simp add: gather_from_def upt_conv_Cons)

lemma gather_from_last: "0 < n \<Longrightarrow> gather_from n d (n - Suc 0) = d (n - Suc 0)"
  by (simp add: gather_from_def upt_conv_Cons)

lemma length_gather_from:
  assumes "\<And>q. length (d q) = cb"
  shows "length (gather_from n d q) = (n - q) * cb"
proof -
  have "length (concat (map d xs)) = length xs * cb" for xs
    using assms by (induction xs) auto
  then show ?thesis by (simp add: gather_from_def)
qed

lemma gather_from_chunked: "gather_from n d 1 = chunked (n - 1) (\<lambda>i. d (Suc i))"
proof -
  have "map d [1..<n] = map (\<lambda>i. d (Suc i)) [0..<n - 1]"
    by (rule nth_equalityI) auto
  then show ?thesis
    by (simp add: gather_from_def chunked_def)
qed

lemma mem_store_fresh [mem_simps]:
  "length bs \<le> n \<Longrightarrow> mem_store (replicate n x) 0 bs = Some (bs @ replicate (n - length bs) x)"
  by (simp add: mem_store_def)

lemma mem_store_tail [mem_simps]:
  "off = length xs \<Longrightarrow> length ys' = length ys \<Longrightarrow> mem_store (xs @ ys) off ys' = Some (xs @ ys')"
  using mem_store_append [of off xs ys' ys "[]"] by simp

lemma posn_eq_at: "0 \<le> r \<Longrightarrow> r < ws \<Longrightarrow> k < nat ws \<Longrightarrow> posn ws root r = k \<longleftrightarrow> r = at ws root k"
  by (metis at_posn posn_at)

lemma gather_place:
  assumes root: "0 \<le> root" "root < ws" and ws: "ws < 2 ^ 31"
    and len: "\<And>r. length (d r) = cb" "\<And>c. length (B c) = cb"
  shows "for_each [0..<nat (ws - 1)] (\<lambda>i recv_buf.
      let source_rank = (root + 1 + int i) smod ws in
      bind_io (io_load (gather_from (nat ws) (\<lambda>q. d (at ws root q)) 1) (i * cb) cb) (\<lambda>piece.
      io_store recv_buf (to_size source_rank * cb) piece))
      (chunked (nat ws) (B(nat root := d root))) = io_return (chunked (nat ws) (\<lambda>c. d (int c)))"
proof -
  let ?s = "\<lambda>i. chunked (nat ws) (\<lambda>c. if posn ws root (int c) \<le> i then d (int c) else B c)"
  have "for_each [0..<nat (ws - 1)] (\<lambda>i recv_buf.
      let source_rank = (root + 1 + int i) smod ws in
      bind_io (io_load (gather_from (nat ws) (\<lambda>q. d (at ws root q)) 1) (i * cb) cb) (\<lambda>piece.
      io_store recv_buf (to_size source_rank * cb) piece)) (?s 0) = io_return (?s (nat (ws - 1)))"
  proof (rule for_each_pure)
    fix i assume i: "i < nat (ws - 1)"
    let ?a = "at ws root (Suc i)"
    have a: "0 \<le> ?a" "?a < ws" "nat ?a < nat ws" "to_size ?a = nat ?a"
      using root ws at_range [of ws root "Suc i"] to_size_at [of ws root "Suc i"] by auto
    have src: "(root + 1 + int i) smod ws = ?a"
      using root by (simp add: smod_nonneg at_def algebra_simps)
    have "io_load (gather_from (nat ws) (\<lambda>q. d (at ws root q)) 1) (i * cb) cb = io_return (d ?a)"
      unfolding gather_from_chunked using i len by (simp add: mem_simps)
    moreover have "io_store (?s i) (nat ?a * cb) (d ?a) = io_return (?s (Suc i))"
    proof -
      have "mem_store (?s i) (nat ?a * cb) (d ?a) =
          Some (chunked (nat ws) ((\<lambda>c. if posn ws root (int c) \<le> i then d (int c) else B c)(nat ?a := d ?a)))"
        using a len by (intro mem_store_chunked) auto
      also have "chunked (nat ws) ((\<lambda>c. if posn ws root (int c) \<le> i then d (int c) else B c)(nat ?a := d ?a)) = ?s (Suc i)"
      proof (rule chunked_cong)
        fix c assume "c < nat ws"
        then have "posn ws root (int c) = Suc i \<longleftrightarrow> c = nat ?a"
          using posn_eq_at [of "int c" ws "Suc i" root] i a by auto
        then show "((\<lambda>c. if posn ws root (int c) \<le> i then d (int c) else B c)(nat ?a := d ?a)) c =
            (if posn ws root (int c) \<le> Suc i then d (int c) else B c)"
          using a by (auto simp: le_Suc_eq)
      qed
      finally show ?thesis by simp
    qed
    ultimately show "(let source_rank = (root + 1 + int i) smod ws in
        bind_io (io_load (gather_from (nat ws) (\<lambda>q. d (at ws root q)) 1) (i * cb) cb) (\<lambda>piece.
        io_store (?s i) (to_size source_rank * cb) piece)) = io_return (?s (Suc i))"
      using a by (simp add: src)
  qed
  moreover have "?s 0 = chunked (nat ws) (B(nat root := d root))"
  proof (rule chunked_cong)
    fix c assume "c < nat ws"
    then have "posn ws root (int c) = 0 \<longleftrightarrow> c = nat root"
      using posn_eq_at [of "int c" ws 0 root] root at_0 [OF root] by auto
    then show "(if posn ws root (int c) \<le> 0 then d (int c) else B c) = (B(nat root := d root)) c"
      using root by auto
  qed
  moreover have "?s (nat (ws - 1)) = chunked (nat ws) (\<lambda>c. d (int c))"
  proof (rule chunked_cong)
    fix c
    have "posn ws root (int c) \<le> nat (ws - 1)"
      using posn_less [of ws root "int c"] root by (simp add: nat_diff_distrib)
    then show "(if posn ws root (int c) \<le> nat (ws - 1) then d (int c) else B c) = d (int c)"
      by simp
  qed
  ultimately show ?thesis by simp
qed

lemma Ring_Gather_other:
  assumes w: "wired_ring ws comm" and root: "0 \<le> root" "root < ws" and ws: "ws < 2 ^ 31"
    and q: "0 < q" "Suc q < nat ws" and len: "length own = count * GetDataTypeSize dtype"
  shows "Ring_Gather (ring_topo ws (at ws root q)) (comm (at ws root q)) own rbuf count dtype root =
    bind_io (io_recv (at ws root (Suc q)) ((nat ws - Suc q) * (count * GetDataTypeSize dtype))) (\<lambda>data.
    bind_io (io_store (own @ replicate ((nat ws - Suc q) * (count * GetDataTypeSize dtype)) 0)
              (count * GetDataTypeSize dtype) data) (\<lambda>send_buffer.
    bind_io (io_load send_buffer 0 ((nat ws - q) * (count * GetDataTypeSize dtype))) (\<lambda>data.
    bind_io (io_send (at ws root (q - 1)) data) (\<lambda>_. io_return rbuf))))"
proof -
  let ?cb = "count * GetDataTypeSize dtype"
  have pos: "(at ws root q - root + ws) smod ws = int q"
    using chain_position [of root ws q] root q by simp
  have size1: "to_size (ws - int q) = nat ws - q"
    using ws q by (subst to_size_nonneg) auto
  have size2: "to_size (ws - int q - 1) = nat ws - Suc q"
    using ws q by (subst to_size_nonneg) auto
  have ne: "at ws root q \<noteq> root" "int q \<noteq> ws - 1"
    using at_eq_root [of root ws q] root q by auto
  have fresh: "mem_store (replicate ((nat ws - q) * ?cb) 0) 0 own = Some (own @ replicate ((nat ws - Suc q) * ?cb) 0)"
  proof -
    have "nat ws - q = Suc (nat ws - Suc q)" using q by simp
    then show ?thesis using len by (simp add: mem_store_def)
  qed
  show ?thesis
    using w root q len at_Suc [of ws root q] at_pred [of ws root "q - 1"]
    by (simp add: Ring_Gather_def Let_def pos size1 size2 ne fresh mem_simps)
qed

lemma Ring_Gather_syncs:
  assumes w: "wired_ring ws comm" and root: "0 \<le> root" "root < ws" and two: "2 \<le> ws" and ws: "ws < 2 ^ 31"
    and N: "healthy N"
    and len: "\<And>r. length (d r) = count * GetDataTypeSize dtype"
    and rlen: "length (rbuf root) = nat ws * (count * GetDataTypeSize dtype)"
  shows "syncs N (world ws (\<lambda>r. Ring_Gather (ring_topo ws r) (comm r) (d r) (rbuf r) count dtype root))
    (world ws (\<lambda>r. io_return (if r = root then chunked (nat ws) (\<lambda>c. d (int c)) else rbuf r)))"
proof -
  let ?n = "nat ws" and ?cb = "count * GetDataTypeSize dtype"
  let ?msg = "gather_from ?n (\<lambda>q. d (at ws root q))"
  let ?fin = "\<lambda>q. if q = 0 then chunked ?n (\<lambda>c. d (int c)) else rbuf (at ws root q)"
  let ?init = "\<lambda>q. Ring_Gather (ring_topo ws (at ws root q)) (comm (at ws root q)) (d (at ws root q)) (rbuf (at ws root q)) count dtype root"
  have mlen: "length (?msg q) = (?n - q) * ?cb" for q
    using len by (rule length_gather_from)
  have root0: "at ws root 0 = root"
    using root by (rule at_0)
  have sizes: "to_size k = nat k" if "0 \<le> k" "k \<le> ws" for k
    using that ws by simp
  have "syncs N (by_pos ws root ?init) (by_pos ws root (\<lambda>q. io_return (?fin q)))"
  proof (rule syncs_to_root [where msg = ?msg])
    show "0 < ws" "healthy N" using two N by auto
    show "?init (?n - 1) = to_root ws root ?msg ?fin (?n - 1)"
      using two root len at_eq_root [of root ws "?n - 1"] at_pred [of ws root "?n - 2"]
        chain_position [of root ws "?n - 1"] gather_from_last [of ?n "\<lambda>q. d (at ws root q)"]
      by (auto simp: Ring_Gather_def Let_def w mem_simps to_root_def numeral_2_eq_2 Suc_diff_Suc sizes)
    fix q assume q: "Suc q < ?n"
    show "\<exists>kb. ?init q = bind_io (io_recv (at ws root (Suc q)) (length (?msg (Suc q)))) kb \<and>
        kb (?msg (Suc q)) = to_root ws root ?msg ?fin q"
    proof (cases q)
      case 0
      let ?B = "chunk_of ?cb (rbuf root)"
      have B: "mem_store (rbuf root) (to_size root * ?cb) (d root) = Some (chunked ?n (?B(nat root := d root)))"
        using mem_store_chunked [of "nat root" ?n ?B ?cb "d root"] root len rlen sizes
          chunked_chunk_of [OF rlen] length_chunk_of [OF rlen] by simp
      let ?B' = "\<lambda>c. if c < ?n then ?B c else replicate ?cb 0"
      have Blen: "length (?B' c) = ?cb" for c
        using length_chunk_of [OF rlen] by simp
      have "chunked ?n (?B(nat root := d root)) = chunked ?n (?B'(nat root := d root))"
        by (rule chunked_cong) auto
      then show ?thesis
        using 0 q two root len B mlen [of 1] root0 at_Suc [of ws root 0] sizes [of "ws - 1"]
          gather_place [where B = ?B' and d = d and cb = ?cb, OF root ws len Blen]
        by (auto simp: Ring_Gather_def Let_def w mem_simps to_root_def nat_diff_distrib intro!: exI conjI)
    next
      case (Suc p)
      then have "0 < q" by simp
      moreover have "mem_store (d (at ws root q) @ replicate ((?n - Suc q) * ?cb) 0) ?cb (?msg (Suc q)) = Some (?msg q)"
        using len mlen [of "Suc q"] q by (simp add: mem_simps gather_from_step [of q ?n])
      ultimately show ?thesis
        using Ring_Gather_other [OF w root ws, of q "d (at ws root q)" count dtype "rbuf (at ws root q)"] q len
          mlen [of q] mlen [of "Suc q"]
        by (auto simp: to_root_def mem_simps intro!: exI conjI)
    qed
  qed
  moreover have "world ws (\<lambda>r. Ring_Gather (ring_topo ws r) (comm r) (d r) (rbuf r) count dtype root) = by_pos ws root ?init"
    by (rule world_by_pos) simp
  moreover have "world ws (\<lambda>r. io_return (if r = root then chunked ?n (\<lambda>c. d (int c)) else rbuf r)) = by_pos ws root (\<lambda>q. io_return (?fin q))"
    by (rule world_by_pos) (use root in \<open>auto simp: at_eq_root\<close>)
  ultimately show ?thesis by simp
qed

section \<open>Scatter\<close>

text \<open>
  The chunk for position \<open>m\<close> travels along the ring through the positions before it. The
  root is about to send the chunk for position \<open>m\<close> (\<open>scatter_root m\<close>); position \<open>p\<close> has
  its own chunk and has passed \<open>j\<close> others on (\<open>scatter_fwd p j\<close>).
\<close>

definition scatter_root :: "int \<Rightarrow> int \<Rightarrow> (nat \<Rightarrow> bytes) \<Rightarrow> nat \<Rightarrow> bytes io" where
  "scatter_root ws root piece m =
     bind_io (for_each [m..<nat ws] (\<lambda>step _. io_send (at ws root 1) (piece step)) ()) (\<lambda>_. io_return (piece 0))"

definition scatter_fwd :: "int \<Rightarrow> int \<Rightarrow> nat \<Rightarrow> (nat \<Rightarrow> bytes) \<Rightarrow> nat \<Rightarrow> nat \<Rightarrow> bytes io" where
  "scatter_fwd ws root cb piece p j =
     bind_io (for_each [j..<nat ws - 1 - p] (\<lambda>step _.
       bind_io (io_recv (at ws root (p - 1)) cb) (\<lambda>temp. io_send (at ws root (Suc p)) temp)) ())
     (\<lambda>_. io_return (piece p))"

lemma scatter_root_step:
  "m < nat ws \<Longrightarrow> scatter_root ws root piece m =
     bind_io (io_send (at ws root 1) (piece m)) (\<lambda>_. scatter_root ws root piece (Suc m))"
  by (simp add: scatter_root_def upt_conv_Cons)

lemma scatter_fwd_step:
  "j < nat ws - 1 - p \<Longrightarrow> scatter_fwd ws root cb piece p j =
     bind_io (io_recv (at ws root (p - 1)) cb) (\<lambda>temp.
     bind_io (io_send (at ws root (Suc p)) temp) (\<lambda>_. scatter_fwd ws root cb piece p (Suc j)))"
  by (simp add: scatter_fwd_def upt_conv_Cons)

text \<open>The chunk for position \<open>m + 1\<close> has reached position \<open>q\<close>.\<close>

definition scatter_at ::
  "int \<Rightarrow> int \<Rightarrow> nat \<Rightarrow> (nat \<Rightarrow> bytes) \<Rightarrow> (nat \<Rightarrow> bytes io) \<Rightarrow> nat \<Rightarrow> nat \<Rightarrow> nat \<Rightarrow> bytes io" where
  "scatter_at ws root cb piece init m q p =
     (if p = 0 then scatter_root ws root piece (if q = 0 then Suc m else Suc (Suc m))
      else if m < p then init p
      else if p = q then bind_io (io_send (at ws root (Suc p)) (piece (Suc m)))
        (\<lambda>_. scatter_fwd ws root cb piece p (Suc m - p))
      else scatter_fwd ws root cb piece p (if p < q then Suc m - p else m - p))"

lemma scatter_at_sender:
  assumes "q \<le> m" "Suc m < nat ws"
  shows "\<exists>ka. scatter_at ws root cb piece init m q q = bind_io (io_send (at ws root (Suc q)) (piece (Suc m))) ka \<and>
    ka () = scatter_at ws root cb piece init m (Suc q) q"
  using assms by (cases "q = 0") (auto simp: scatter_at_def scatter_root_step intro!: exI conjI)

lemma scatter_at_hop:
  assumes "q < m" "Suc m < nat ws" "healthy N" "length (piece (Suc m)) = cb"
  shows "syncs N (by_pos ws root (scatter_at ws root cb piece init m q))
    (by_pos ws root (scatter_at ws root cb piece init m (Suc q)))"
proof -
  let ?G = "scatter_at ws root cb piece init m"
  obtain ka where ka: "?G q q = bind_io (io_send (at ws root (Suc q)) (piece (Suc m))) ka" "ka () = ?G (Suc q) q"
    using scatter_at_sender [of q m ws root cb piece init] assms by auto
  have r: "?G q (Suc q) = bind_io (io_recv (at ws root q) cb) (\<lambda>temp.
      bind_io (io_send (at ws root (Suc (Suc q))) temp) (\<lambda>_. scatter_fwd ws root cb piece (Suc q) (m - q)))"
    using assms by (simp add: scatter_at_def scatter_fwd_step Suc_diff_Suc)
  have "syncs N (by_pos ws root (?G q)) (by_pos ws root ((?G q)(q := ka (), Suc q :=
      bind_io (io_send (at ws root (Suc (Suc q))) (piece (Suc m))) (\<lambda>_. scatter_fwd ws root cb piece (Suc q) (m - q)))))"
    by (rule syncs_pos) (use assms ka(1) r in auto)
  also have "(?G q)(q := ka (), Suc q :=
      bind_io (io_send (at ws root (Suc (Suc q))) (piece (Suc m))) (\<lambda>_. scatter_fwd ws root cb piece (Suc q) (m - q))) = ?G (Suc q)"
    using assms ka(2) by (auto simp: scatter_at_def fun_eq_iff)
  finally show ?thesis .
qed

lemma scatter_at_last_hop:
  assumes "Suc m < nat ws" "healthy N" "length (piece (Suc m)) = cb"
    and init: "init (Suc m) = bind_io (io_recv (at ws root m) cb) kb" "kb (piece (Suc m)) = scatter_fwd ws root cb piece (Suc m) 0"
  shows "syncs N (by_pos ws root (scatter_at ws root cb piece init m m))
    (by_pos ws root (scatter_at ws root cb piece init (Suc m) 0))"
proof -
  let ?G = "scatter_at ws root cb piece init"
  obtain ka where ka: "?G m m m = bind_io (io_send (at ws root (Suc m)) (piece (Suc m))) ka" "ka () = ?G m (Suc m) m"
    using scatter_at_sender [of m m ws root cb piece init] assms(1) by auto
  have "syncs N (by_pos ws root (?G m m)) (by_pos ws root ((?G m m)(m := ka (), Suc m := kb (piece (Suc m)))))"
    by (rule syncs_pos) (use assms ka(1) in \<open>auto simp: scatter_at_def\<close>)
  also have "(?G m m)(m := ka (), Suc m := kb (piece (Suc m))) = ?G (Suc m) 0"
  proof
    fix p
    consider "p < m" | "p = m" | "p = Suc m" | "Suc m < p" by linarith
    then show "((?G m m)(m := ka (), Suc m := kb (piece (Suc m)))) p = ?G (Suc m) 0 p"
      using ka(2) init(2) by cases (auto simp: scatter_at_def)
  qed
  finally show ?thesis .
qed

lemma syncs_scatter:
  assumes "healthy N" and len: "\<And>p. length (piece p) = cb" and "0 < ws"
    and init0: "init 0 = scatter_root ws root piece 1"
    and init: "\<And>m. Suc m < nat ws \<Longrightarrow> \<exists>kb. init (Suc m) = bind_io (io_recv (at ws root m) cb) kb \<and>
        kb (piece (Suc m)) = scatter_fwd ws root cb piece (Suc m) 0"
  shows "syncs N (by_pos ws root init) (by_pos ws root (\<lambda>p. io_return (piece p)))"
proof -
  let ?G = "scatter_at ws root cb piece init"
  have "syncs N (by_pos ws root (?G m 0)) (by_pos ws root (?G (Suc m) 0))" if m: "m < nat ws - 1" for m
  proof -
    have m': "Suc m < nat ws" using m by simp
    obtain kb where kb: "init (Suc m) = bind_io (io_recv (at ws root m) cb) kb"
      "kb (piece (Suc m)) = scatter_fwd ws root cb piece (Suc m) 0"
      using init [OF m'] by blast
    have "syncs N (by_pos ws root (?G m 0)) (by_pos ws root (?G m m))"
      by (rule syncs_pos_chain, rule scatter_at_hop) (use m assms in auto)
    also have "syncs N (by_pos ws root (?G m m)) (by_pos ws root (?G (Suc m) 0))"
      using m' assms(1) len kb by (intro scatter_at_last_hop)
    finally show ?thesis .
  qed
  then have "syncs N (by_pos ws root (?G 0 0)) (by_pos ws root (?G (nat ws - 1) 0))"
    by (rule syncs_pos_chain [where S = "\<lambda>m. ?G m 0"])
  moreover have "by_pos ws root (?G 0 0) = by_pos ws root init"
    by (rule by_pos_cong) (use init0 in \<open>auto simp: scatter_at_def\<close>)
  moreover have "by_pos ws root (?G (nat ws - 1) 0) = by_pos ws root (\<lambda>p. io_return (piece p))"
    by (rule by_pos_cong) (use \<open>0 < ws\<close> in \<open>auto simp: scatter_at_def scatter_root_def scatter_fwd_def\<close>)
  ultimately show ?thesis by simp
qed

lemma Ring_Scatter_syncs:
  assumes w: "wired_ring ws comm" and root: "0 \<le> root" "root < ws" and ws: "ws < 2 ^ 31"
    and N: "healthy N"
    and len: "\<And>r. length (s r) = count * GetDataTypeSize dtype"
    and sbuf: "sbuf root = chunked (nat ws) (\<lambda>c. s (int c))"
    and rlen: "\<And>r. length (rbuf r) = count * GetDataTypeSize dtype"
  shows "syncs N (world ws (\<lambda>r. Ring_Scatter (ring_topo ws r) (comm r) (sbuf r) (rbuf r) count dtype root))
    (world ws (\<lambda>r. io_return (s r)))"
proof -
  let ?n = "nat ws" and ?cb = "count * GetDataTypeSize dtype"
  let ?piece = "\<lambda>p. s (at ws root p)"
  let ?init = "\<lambda>q. Ring_Scatter (ring_topo ws (at ws root q)) (comm (at ws root q)) (sbuf (at ws root q)) (rbuf (at ws root q)) count dtype root"
  have load: "io_load (chunked ?n (\<lambda>c. s (int c))) (nat (at ws root p) * ?cb) ?cb = io_return (?piece p)" for p
    using root len by (simp add: mem_simps)
  have "syncs N (by_pos ws root ?init) (by_pos ws root (\<lambda>p. io_return (?piece p)))"
  proof (rule syncs_scatter [OF N])
    show "length (?piece p) = ?cb" "0 < ws" for p
      using len root by auto
    have target: "(root + int step) smod ws = at ws root step" for step
      using root by (simp add: smod_nonneg at_def)
    show "?init 0 = scatter_root ws root ?piece 1"
      using w root ws len rlen load [of 0] at_Suc [of ws root 0]
      by (simp add: Ring_Scatter_def Let_def scatter_root_def at_0 sbuf target load mem_simps)
    fix m assume m: "Suc m < ?n"
    have steps: "nat (ws - 1 - (at ws root (Suc m) - root + ws) smod ws) = ?n - 1 - Suc m"
      using chain_position [of root ws "Suc m"] root m by simp
    show "\<exists>kb. ?init (Suc m) = bind_io (io_recv (at ws root m) ?cb) kb \<and>
        kb (?piece (Suc m)) = scatter_fwd ws root ?cb ?piece (Suc m) 0"
      using w root len rlen m at_eq_root [of root ws "Suc m"] at_Suc [of ws root "Suc m"] at_pred [of ws root m]
      by (auto simp: Ring_Scatter_def Let_def scatter_fwd_def steps mem_simps intro!: exI conjI)
  qed
  moreover have "world ws (\<lambda>r. Ring_Scatter (ring_topo ws r) (comm r) (sbuf r) (rbuf r) count dtype root) = by_pos ws root ?init"
    by (rule world_by_pos) simp
  moreover have "world ws (\<lambda>r. io_return (s r)) = by_pos ws root (\<lambda>p. io_return (?piece p))"
    by (rule world_by_pos) simp
  ultimately show ?thesis by simp
qed

section \<open>ReduceScatter and AllToAll\<close>

text \<open>Both are sequences of collectives, so their schedules are sequences of schedules.\<close>

lemma Ring_ReduceScatter_syncs:
  assumes w: "wired_ring ws comm" and two: "2 \<le> ws" and ws: "ws < 2 ^ 31" and N: "healthy N"
    and len: "\<And>r. length (d r) = nat ws * (count * GetDataTypeSize dtype)"
    and rlen: "\<And>r. length (rbuf r) = count * GetDataTypeSize dtype"
  shows "syncs N (world ws (\<lambda>r. Ring_ReduceScatter F (ring_topo ws r) (comm r) (d r) (rbuf r) count dtype op))
    (world ws (\<lambda>r. io_return (chunk_of (count * GetDataTypeSize dtype)
       (reduce_from (reduce_bytes F (count * nat ws) dtype op ws) (nat ws) (\<lambda>q. d (int q)) 0) (nat r))))"
proof -
  let ?n = "nat ws" and ?cb = "count * GetDataTypeSize dtype"
  let ?R = "reduce_from (reduce_bytes F (count * ?n) dtype op ws) ?n (\<lambda>q. d (at ws 0 q)) 0"
  have nb: "count * ?n * GetDataTypeSize dtype = ?n * ?cb" "?cb * ?n = ?n * ?cb"
    by simp_all
  have tos: "to_size ws = ?n"
    using two ws by (intro to_size_nonneg) auto
  have Rlen: "length ?R = ?n * ?cb"
    using length_reduce_from [of "\<lambda>q. d (at ws 0 q)" "count * ?n" dtype] len by (simp add: nb)
  have "syncs N (world ws (\<lambda>r. Ring_Reduce F (ring_topo ws r) (comm r) (d r) (replicate (?cb * ?n) 0) (count * ?n) dtype op 0))
      (world ws (\<lambda>r. io_return (if r = 0 then ?R else replicate (?cb * ?n) 0)))"
    by (rule Ring_Reduce_syncs [OF w _ _ two N]) (use two len nb in auto)
  from syncs_world_bind [OF this, where g = "\<lambda>r b. Ring_Scatter (ring_topo ws r) (comm r) b (rbuf r) count dtype 0"]
  have "syncs N (world ws (\<lambda>r. Ring_ReduceScatter F (ring_topo ws r) (comm r) (d r) (rbuf r) count dtype op))
      (world ws (\<lambda>r. Ring_Scatter (ring_topo ws r) (comm r) (if r = 0 then ?R else replicate (?cb * ?n) 0) (rbuf r) count dtype 0))"
    by (simp add: Ring_ReduceScatter_def Let_def tos)
  also have "syncs N \<dots> (world ws (\<lambda>r. io_return ((\<lambda>r. if 0 \<le> r \<and> r < ws then chunk_of ?cb ?R (nat r) else replicate ?cb 0) r)))"
  proof (rule Ring_Scatter_syncs [OF w _ _ ws N])
    show "length (if 0 \<le> r \<and> r < ws then chunk_of ?cb ?R (nat r) else replicate ?cb 0) = ?cb" for r
      using length_chunk_of [OF Rlen, of "nat r"] by simp
    have "?R = chunked ?n (chunk_of ?cb ?R)"
      using chunked_chunk_of [OF Rlen] by simp
    also have "\<dots> = chunked ?n (\<lambda>c. if 0 \<le> int c \<and> int c < ws then chunk_of ?cb ?R (nat (int c)) else replicate ?cb 0)"
      by (rule chunked_cong) auto
    finally show "(if 0 = (0 :: int) then ?R else replicate (?cb * ?n) 0) =
        chunked ?n (\<lambda>c. if 0 \<le> int c \<and> int c < ws then chunk_of ?cb ?R (nat (int c)) else replicate ?cb 0)"
      by simp
  qed (use two rlen in auto)
  also have "world ws (\<lambda>r. io_return ((\<lambda>r. if 0 \<le> r \<and> r < ws then chunk_of ?cb ?R (nat r) else replicate ?cb 0) r)) =
      world ws (\<lambda>r. io_return (chunk_of ?cb ?R (nat r)))"
    by (rule world_cong) simp
  also have "?R = reduce_from (reduce_bytes F (count * ?n) dtype op ws) ?n (\<lambda>q. d (int q)) 0"
  proof -
    have "at ws 0 q = int q" if "q < ?n" for q
      using that by (simp add: at_def)
    then show ?thesis
      using two by (auto simp: reduce_from_def intro!: foldr_cong)
  qed
  finally show ?thesis .
qed

text \<open>
  What rank \<open>r\<close> has after \<open>i\<close> of the broadcasts of \<open>AllToAll\<close>: \<open>S c r\<close> is the chunk
  that rank \<open>c\<close> has for rank \<open>r\<close>.
\<close>

definition alltoall_buf ::
  "int \<Rightarrow> (nat \<Rightarrow> int \<Rightarrow> bytes) \<Rightarrow> (nat \<Rightarrow> bytes) \<Rightarrow> nat \<Rightarrow> int \<Rightarrow> bytes" where
  "alltoall_buf ws S old i r = chunked (nat ws) (\<lambda>c. if c < i \<or> int c = r then S c r else old c)"

lemma Ring_AllToAll_syncs:
  assumes w: "wired_ring ws comm" and "0 < ws" and ws: "ws < 2 ^ 31" and N: "healthy N"
    and len: "\<And>c r. length (S c r) = count * GetDataTypeSize dtype"
    and sbuf: "\<And>r. sbuf r = chunked (nat ws) (\<lambda>j. S (nat r) (int j))"
    and rlen: "\<And>r. length (rbuf r) = nat ws * (count * GetDataTypeSize dtype)"
  shows "syncs N (world ws (\<lambda>r. Ring_AllToAll (ring_topo ws r) (comm r) (sbuf r) (rbuf r) count dtype))
    (world ws (\<lambda>r. io_return (chunked (nat ws) (\<lambda>c. S c r))))"
proof -
  let ?n = "nat ws" and ?cb = "count * GetDataTypeSize dtype"
  define old where "old = (\<lambda>r c. if c < ?n then chunk_of ?cb (rbuf r) c else replicate ?cb 0)"
  have oldlen: "length (old r c) = ?cb" for r c
    using length_chunk_of [OF rlen] by (simp add: old_def)
  have rbuf: "rbuf r = chunked ?n (old r)" for r
    using chunked_chunk_of [OF rlen [of r]] chunked_cong [of ?n "chunk_of ?cb (rbuf r)" "old r"]
    by (simp add: old_def)
  have tos: "to_size ws = ?n" "\<And>r. 0 \<le> r \<Longrightarrow> r < ws \<Longrightarrow> to_size r = nat r"
    using \<open>0 < ws\<close> ws by (auto intro!: to_size_nonneg)
  have slen: "length (sbuf r) = ?cb * ?n" for r
    using length_chunked [of ?n "\<lambda>j. S (nat r) (int j)" ?cb] len sbuf by simp
  define body where "body = (\<lambda>r src recv_buf.
     bind_io (if r = int src then
                bind_io (io_load (sbuf r) 0 (?cb * ?n)) (\<lambda>all. io_store (replicate (?cb * ?n) 0) 0 all)
              else io_return (replicate (?cb * ?n) 0)) (\<lambda>temp_buffer.
     bind_io (Ring_Broadcast (ring_topo ws r) (comm r) temp_buffer (count * ?n) dtype (int src)) (\<lambda>temp_buffer.
     bind_io (io_load temp_buffer (nat r * ?cb) ?cb) (\<lambda>piece.
     io_store recv_buf (src * ?cb) piece))))"
  define W where "W = (\<lambda>i. world ws (\<lambda>r. for_each [i..<?n] (body r) (alltoall_buf ws S (old r) i r)))"
  have "syncs N (W i) (W (Suc i))" if i: "i < ?n" for i
  proof -
    define T where "T = (\<lambda>r. if r = int i then sbuf r else replicate (?cb * ?n) 0)"
    define g where "g = (\<lambda>r temp. bind_io (bind_io (io_load temp (nat r * ?cb) ?cb) (\<lambda>piece.
        io_store (alltoall_buf ws S (old r) i r) (i * ?cb) piece)) (for_each [Suc i..<?n] (body r)))"
    have pre: "W i = world ws (\<lambda>r. bind_io (Ring_Broadcast (ring_topo ws r) (comm r) (T r) (count * ?n) dtype (int i)) (g r))"
      unfolding W_def
      by (rule world_cong) (use i slen in \<open>simp add: upt_conv_Cons body_def T_def g_def mem_simps\<close>)
    have bc: "syncs N (world ws (\<lambda>r. Ring_Broadcast (ring_topo ws r) (comm r) (T r) (count * ?n) dtype (int i)))
        (world ws (\<lambda>r. io_return (T (int i))))"
      by (rule Ring_Broadcast_syncs [OF w _ _ N]) (use i slen in \<open>auto simp: T_def\<close>)
    have "g r (T (int i)) = for_each [Suc i..<?n] (body r) (alltoall_buf ws S (old r) (Suc i) r)"
      if r: "0 \<le> r" "r < ws" for r
    proof -
      have "mem_load (T (int i)) (nat r * ?cb) ?cb = Some (S i r)"
        using r len by (simp add: T_def sbuf mem_load_chunked)
      moreover have "mem_store (alltoall_buf ws S (old r) i r) (i * ?cb) (S i r) = Some (alltoall_buf ws S (old r) (Suc i) r)"
        unfolding alltoall_buf_def
        by (subst mem_store_chunked) (use i len oldlen in \<open>auto intro!: chunked_cong simp: less_Suc_eq\<close>)
      ultimately show ?thesis
        by (simp add: g_def)
    qed
    then have post: "world ws (\<lambda>r. g r (T (int i))) = W (Suc i)"
      unfolding W_def by (rule world_cong)
    show ?thesis
      using syncs_world_bind [OF bc, where g = g] unfolding pre post .
  qed
  then have "syncs N (W 0) (W ?n)"
    by (rule syncs_chain [where S = W])
  moreover have "world ws (\<lambda>r. Ring_AllToAll (ring_topo ws r) (comm r) (sbuf r) (rbuf r) count dtype) = W 0"
    unfolding W_def
  proof (rule world_cong)
    fix r assume r: "0 \<le> r" "r < ws"
    have "mem_load (sbuf r) (nat r * ?cb) ?cb = Some (S (nat r) r)"
      using r len by (simp add: sbuf mem_load_chunked)
    moreover have "mem_store (rbuf r) (nat r * ?cb) (S (nat r) r) = Some (alltoall_buf ws S (old r) 0 r)"
      unfolding alltoall_buf_def rbuf
      by (subst mem_store_chunked) (use r len oldlen in \<open>auto intro!: chunked_cong\<close>)
    ultimately show "Ring_AllToAll (ring_topo ws r) (comm r) (sbuf r) (rbuf r) count dtype =
        for_each [0..<?n] (body r) (alltoall_buf ws S (old r) 0 r)"
      using r by (simp add: Ring_AllToAll_def Let_def body_def tos cong: if_cong)
  qed
  moreover have "W ?n = world ws (\<lambda>r. io_return (chunked ?n (\<lambda>c. S c r)))"
    unfolding W_def by (rule world_cong) (auto simp: alltoall_buf_def intro!: chunked_cong)
  ultimately show ?thesis by simp
qed

end
