(* ===== verification/Reduced.thy ===== *)
theory Reduced
  imports Reduction
begin

text \<open>
  What a reduction over all ranks is, element by element, and that it does not depend on the
  order in which a collective combines the contributions of the ranks. This holds for the
  integer types and for SUM, MAX and MIN; it is the specification the reducing collectives
  are proved against.
\<close>

section \<open>Folds over the contributions in any order\<close>

context reduction
begin

lemma fold_distinct:
  assumes "distinct ps" "distinct qs" "set ps = set qs"
  shows "fold f (map v ps) z = fold f (map v qs) z"
proof -
  have commute: "comp_fun_commute_on UNIV (\<lambda>p. f (v p))"
    by (rule comp_fun_commute_on.intro) (simp add: fun_eq_iff left_comm)
  have "fold f (map v xs) z = Finite_Set.fold (\<lambda>p. f (v p)) z (set xs)" if "distinct xs" for xs
    using comp_fun_commute_on.fold_set_fold_remdups [OF commute, of xs z] that by (simp add: fold_map comp_def distinct_remdups_id)
  then show ?thesis using assms by simp
qed

lemma fold_perm:
  assumes "distinct (p # ps)" "distinct (q # qs)" "set (p # ps) = set (q # qs)"
  shows "fold f (map v ps) (v p) = fold f (map v qs) (v q)"
proof (cases "p = q")
  case True
  then have "set ps = set qs"
    using assms by auto
  then show ?thesis using assms True fold_distinct [of ps qs] by simp
next
  case False
  then obtain us vs where ps: "ps = us @ q # vs"
    using assms(3) by (metis list.set_intros(1) set_ConsD split_list)
  have "fold f (map v ps) (v p) = fold f (map v (us @ p # vs)) (v q)"
    unfolding ps by (simp only: map_append list.map) (rule fold_swap)
  also have "\<dots> = fold f (map v qs) (v q)"
    by (rule fold_distinct) (use assms ps False in auto)
  finally show ?thesis .
qed

lemma fold_join: "fold f (xs @ b # ys) a = f (fold f xs a) (fold f ys b)"
proof -
  have "f b (fold f xs a) = f (fold f xs a) b"
    by (rule comm)
  then show ?thesis by (simp add: fold_start)
qed

lemma foldr_flip: "foldr (\<lambda>p acc. f acc (v p)) ps z = fold f (map v ps) z"
proof -
  have "foldr (\<lambda>p acc. f acc (v p)) ps z = foldr f (map v ps) z"
    by (induction ps) (simp_all add: comm)
  then show ?thesis by (simp only: foldr_fold)
qed

lemma fold_flip: "fold (\<lambda>p acc. f acc (v p)) ps z = fold f (map v ps) z"
  by (induction ps arbitrary: z) (simp_all add: comm)

end

lemma int_reduction: "op \<noteq> OpAVG \<Longrightarrow> reduction (reduce_elem int_arith op :: 'a::len word \<Rightarrow> _)"
  by (cases op)
     (simp_all add: int_sum.reduction_axioms int_max.reduction_axioms int_min.reduction_axioms)

lemma combine_not_avg [simp]: "op \<noteq> OpAVG \<Longrightarrow> combine A op w = reduce_elem A op"
  by (intro ext) (simp add: combine_def)

section \<open>The reduced buffer\<close>

text \<open>Element \<open>i\<close> of the result combines element \<open>i\<close> of the buffers of ranks \<open>0\<close> to \<open>n - 1\<close>.\<close>

definition reduced_words :: "nat \<Rightarrow> 'a::len word arith \<Rightarrow> ReduceOp \<Rightarrow> nat \<Rightarrow> nat \<Rightarrow> (nat \<Rightarrow> bytes) \<Rightarrow> 'a word list" where
  "reduced_words k A op count n d =
     map (\<lambda>i. fold (reduce_elem A op) (map (\<lambda>q. of_le_array k count (d q) ! i) [1..<n]) (of_le_array k count (d 0) ! i))
       [0..<count]"

lemma length_reduced_words [simp]: "length (reduced_words k A op count n d) = count"
  by (simp add: reduced_words_def)

definition reduced :: "DataType \<Rightarrow> ReduceOp \<Rightarrow> nat \<Rightarrow> nat \<Rightarrow> (nat \<Rightarrow> bytes) \<Rightarrow> bytes" where
  "reduced dtype op count n d =
     (if dtype = INT64 then le_array 8 (reduced_words 8 (int_arith :: 64 word arith) op count n d)
      else le_array 4 (reduced_words 4 (int_arith :: 32 word arith) op count n d))"

definition int_type :: "DataType \<Rightarrow> bool" where
  "int_type dtype \<longleftrightarrow> dtype \<in> {INT32, INT64}"

section \<open>Reducing buffers one after the other\<close>

lemma fold_reduce_as:
  fixes A :: "'a::len word arith"
  assumes "op \<noteq> OpAVG" "LENGTH('a) = 8 * k"
    and "\<And>q. length (d q) = count * k" "length z = count * k"
  shows "fold (\<lambda>q acc. reduce_as k A acc (d q) count op w) ps z = le_array k
      (map (\<lambda>i. fold (\<lambda>q acc. reduce_elem A op acc (of_le_array k count (d q) ! i)) ps (of_le_array k count z ! i)) [0..<count])"
  using assms(4)
proof (induction ps arbitrary: z)
  case Nil
  have "map (\<lambda>i. of_le_array k count z ! i :: 'a word) [0..<count] = of_le_array k count z"
    by (rule nth_equalityI) simp_all
  then show ?case using assms Nil by (simp add: mult.commute)
next
  case (Cons q ps)
  have step: "reduce_as k A z (d q) count op w =
      le_array k (map2 (reduce_elem A op) (of_le_array k count z) (of_le_array k count (d q)))"
    using assms by (simp add: reduce_as_map2)
  have "length (reduce_as k A z (d q) count op w) = count * k"
    by (simp add: step)
  from Cons.IH [OF this] show ?case
    using assms by (auto simp: step intro!: arg_cong [where f = "le_array k"])
qed

lemma reduce_bytes_as:
  assumes "length send = count * GetDataTypeSize dtype" "length recv = count * GetDataTypeSize dtype"
  shows "dtype = INT32 \<Longrightarrow> reduce_bytes F count dtype op w send recv = reduce_as 4 (int_arith :: 32 word arith) send recv count op w"
    and "dtype = INT64 \<Longrightarrow> reduce_bytes F count dtype op w send recv = reduce_as 8 (int_arith :: 64 word arith) send recv count op w"
  using assms by (simp_all add: reduce_bytes_def PerformReduce_def)

lemma fold_reduce_bytes_as:
  fixes d :: "nat \<Rightarrow> bytes"
  assumes "\<And>s r. length s = m \<Longrightarrow> length r = m \<Longrightarrow> R s r = R' s r \<and> length (R s r) = m"
    and "\<And>q. length (d q) = m" "length z = m"
  shows "fold (\<lambda>q acc. R acc (d q)) ps z = fold (\<lambda>q acc. R' acc (d q)) ps z"
  using assms(3)
proof (induction ps arbitrary: z)
  case (Cons q ps)
  then have "R z (d q) = R' z (d q)" "length (R z (d q)) = m"
    using assms(1,2) by blast+
  with Cons.IH show ?case by simp
qed simp

lemma fold_reduced_words:
  assumes "op \<noteq> OpAVG" "distinct (p # ps)" "set (p # ps) = {0..<n}"
  shows "map (\<lambda>i. fold (\<lambda>q acc. reduce_elem int_arith op acc (of_le_array k count (d q) ! i)) ps (of_le_array k count (d p) ! i)) [0..<count]
       = (reduced_words k (int_arith :: 'a::len word arith) op count n d)"
proof -
  have "0 \<in> {0..<n}"
    using assms(3) by (cases "n = 0") auto
  then have "{0..<n} = set (0 # [1..<n])"
    by auto
  then have "set (p # ps) = set (0 # [1..<n])"
    using assms(3) by simp
  then have "fold (reduce_elem int_arith op) (map v ps) (v p) = fold (reduce_elem int_arith op) (map v [1..<n]) (v 0 :: 'a word)" for v
    using reduction.fold_perm [OF int_reduction [OF assms(1)] assms(2), of 0 "[1..<n]" v] by simp
  from this [where v = "\<lambda>q. of_le_array k count (d q) ! _"] show ?thesis
    by (simp only: reduced_words_def reduction.fold_flip [OF int_reduction [OF assms(1)]])
qed

text \<open>Whatever the order \<open>p, ps\<close> of the ranks, the result is \<open>reduced\<close>.\<close>

lemma fold_reduce_bytes:
  assumes "int_type dtype" "op \<noteq> OpAVG" "distinct (p # ps)" "set (p # ps) = {0..<n}"
    and len: "\<And>q. length (d q) = count * GetDataTypeSize dtype"
  shows "fold (\<lambda>q acc. reduce_bytes F count dtype op w acc (d q)) ps (d p) = reduced dtype op count n d"
proof -
  consider "dtype = INT32" | "dtype = INT64"
    using assms(1) by (auto simp: int_type_def)
  then show ?thesis
  proof cases
    case 1
    have "fold (\<lambda>q acc. reduce_bytes F count dtype op w acc (d q)) ps (d p) =
        fold (\<lambda>q acc. reduce_as 4 (int_arith :: 32 word arith) acc (d q) count op w) ps (d p)"
      by (rule fold_reduce_bytes_as [where m = "count * 4"]) (use 1 len in \<open>simp_all add: reduce_bytes_as(1) reduce_as_map2\<close>)
    also have "\<dots> = reduced dtype op count n d"
      using 1 len assms by (simp add: fold_reduce_as fold_reduced_words reduced_def)
    finally show ?thesis .
  next
    case 2
    have "fold (\<lambda>q acc. reduce_bytes F count dtype op w acc (d q)) ps (d p) =
        fold (\<lambda>q acc. reduce_as 8 (int_arith :: 64 word arith) acc (d q) count op w) ps (d p)"
      by (rule fold_reduce_bytes_as [where m = "count * 8"]) (use 2 len in \<open>simp_all add: reduce_bytes_as(2) reduce_as_map2\<close>)
    also have "\<dots> = reduced dtype op count n d"
      using 2 len assms by (simp add: fold_reduce_as fold_reduced_words reduced_def)
    finally show ?thesis .
  qed
qed

lemma foldr_reduce_bytes:
  assumes "int_type dtype" "op \<noteq> OpAVG" "distinct (p # ps)" "set (p # ps) = {0..<n}"
    and len: "\<And>q. length (d q) = count * GetDataTypeSize dtype"
  shows "foldr (\<lambda>q acc. reduce_bytes F count dtype op w acc (d q)) ps (d p) = reduced dtype op count n d"
  using fold_reduce_bytes [OF assms(1,2) _ _ len, of p "rev ps" n F w] assms(3,4) by (simp add: foldr_conv_fold)

lemma length_reduced [simp]:
  "int_type dtype \<Longrightarrow> length (reduced dtype op count n d) = count * GetDataTypeSize dtype"
  by (auto simp: reduced_def int_type_def reduced_words_def)

lemma reduced_cong:
  "(\<And>q. q < n \<Longrightarrow> d q = d' q) \<Longrightarrow> 0 < n \<Longrightarrow> reduced dtype op count n d = reduced dtype op count n d'"
  by (auto simp: reduced_def reduced_words_def intro!: arg_cong [where f = "le_array _"] arg_cong2 [where f = "fold _"])

section \<open>Reducing a part of the buffers\<close>

lemma reduced_words_slice:
  assumes "a + m \<le> count" "0 < n"
  shows "reduced_words k A op m n (\<lambda>q. take (m * k) (drop (a * k) (d q))) =
      take m (drop a (reduced_words k A op count n d))"
proof (rule nth_equalityI)
  fix i assume "i < length (reduced_words k A op m n (\<lambda>q. take (m * k) (drop (a * k) (d q))))"
  then have "i < m"
    by (simp add: reduced_words_def)
  then show "reduced_words k A op m n (\<lambda>q. take (m * k) (drop (a * k) (d q))) ! i =
      take m (drop a (reduced_words k A op count n d)) ! i"
    using assms by (simp add: reduced_words_def of_le_array_take_drop)
qed (use assms in \<open>simp add: reduced_words_def\<close>)

lemma reduced_slice:
  assumes "int_type dtype" "a + m \<le> count" "0 < n"
  shows "reduced dtype op m n (\<lambda>q. take (m * GetDataTypeSize dtype) (drop (a * GetDataTypeSize dtype) (d q))) =
      take (m * GetDataTypeSize dtype) (drop (a * GetDataTypeSize dtype) (reduced dtype op count n d))"
  using assms by (auto simp: int_type_def reduced_def reduced_words_slice le_array_take le_array_drop)

section \<open>Combining two reductions\<close>

lemma reduced_words_append:
  assumes "op \<noteq> OpAVG" "0 < n" "0 < m"
  shows "map2 (reduce_elem int_arith op) (reduced_words k int_arith op count n d) (reduced_words k int_arith op count m (\<lambda>q. d (n + q))) =
      (reduced_words k (int_arith :: 'a::len word arith) op count (n + m) d)"
proof (rule nth_equalityI)
  let ?f = "reduce_elem (int_arith :: 'a word arith) op"
  fix i assume "i < length (map2 ?f (reduced_words k int_arith op count n d) (reduced_words k int_arith op count m (\<lambda>q. d (n + q))))"
  then have i: "i < count"
    by (simp add: reduced_words_def)
  define v :: "nat \<Rightarrow> 'a word" where "v = (\<lambda>q. of_le_array k count (d q) ! i)"
  have "[1..<n + m] = [1..<n] @ n # [Suc n..<n + m]"
    using assms upt_add_eq_append [of 1 n m] by (simp add: upt_conv_Cons)
  moreover have "map (\<lambda>q. v (n + q)) [1..<m] = map v [Suc n..<n + m]"
    by (rule nth_equalityI) auto
  ultimately have "fold ?f (map v [1..<n + m]) (v 0) =
      ?f (fold ?f (map v [1..<n]) (v 0)) (fold ?f (map (\<lambda>q. v (n + q)) [1..<m]) (v n))"
    by (simp add: reduction.fold_join [OF int_reduction [OF assms(1)]] del: fold_append)
  then show "map2 ?f (reduced_words k int_arith op count n d) (reduced_words k int_arith op count m (\<lambda>q. d (n + q))) ! i =
      reduced_words k int_arith op count (n + m) d ! i"
    using i by (simp add: reduced_words_def v_def)
qed (simp add: reduced_words_def)

lemma map2_reduce_comm:
  "op \<noteq> OpAVG \<Longrightarrow> map2 (reduce_elem int_arith op) xs ys = map2 (reduce_elem int_arith op) ys (xs :: 'a::len word list)"
  using reduction.comm [OF int_reduction] by (induction xs ys rule: list_induct2') auto

lemma reduce_bytes_comm:
  assumes "int_type dtype" "op \<noteq> OpAVG" "length s = count * GetDataTypeSize dtype" "length r = count * GetDataTypeSize dtype"
  shows "reduce_bytes F count dtype op w s r = reduce_bytes F count dtype op w r s"
  using assms by (auto simp: int_type_def reduce_bytes_as reduce_as_map2 map2_reduce_comm [OF assms(2), of _ "of_le_array _ _ r"])

lemma reduce_bytes_reduced:
  assumes "int_type dtype" "op \<noteq> OpAVG" "0 < n" "0 < m"
  shows "reduce_bytes F count dtype op w (reduced dtype op count n d) (reduced dtype op count m (\<lambda>q. d (n + q))) =
      reduced dtype op count (n + m) d"
proof -
  have len: "length (reduced dtype op count n d) = count * GetDataTypeSize dtype" for n d
    using assms(1) by simp
  show ?thesis
    using assms(1) len
    by (auto simp: int_type_def reduce_bytes_as reduce_as_map2 reduced_def assms reduced_words_append length_reduced_words)
qed

end
