(* ===== verification/RingRounds.thy ===== *)
theory RingRounds
  imports RingChains Reduced
begin

text \<open>
  The collectives of the ring in which every rank sends to its successor and receives from its
  predecessor in each round: \<open>AllGather\<close>, where even ranks send first and odd ranks receive
  first, and \<open>AllReduce\<close>, where a thread sends while the rank receives.
\<close>

section \<open>Half-duplex rounds\<close>

text \<open>
  Even ranks send first. The sends pair up in three groups: the even ranks other than a last
  one, then rank \<open>ws - 1\<close> if it is even, then the odd ranks.
\<close>

abbreviation nxt :: "int \<Rightarrow> int \<Rightarrow> int" where
  "nxt ws r \<equiv> (r + 1) mod ws"

abbreviation prv :: "int \<Rightarrow> int \<Rightarrow> int" where
  "prv ws r \<equiv> (r - 1) mod ws"

lemma nxt_below: "0 \<le> r \<Longrightarrow> r + 1 < ws \<Longrightarrow> nxt ws r = r + 1"
  by simp

lemma nxt_last: "0 < ws \<Longrightarrow> nxt ws (ws - 1) = 0"
  by simp

lemma prv_above: "0 < r \<Longrightarrow> r < ws \<Longrightarrow> prv ws r = r - 1"
  by simp

lemma prv_0: "2 \<le> ws \<Longrightarrow> (- 1) mod ws = ws - 1" for ws :: int
  by (simp add: zmod_minus1)

lemma mod_2_Suc: "r mod 2 = 0 \<Longrightarrow> (r + 1) mod 2 = 1" "r mod 2 = 1 \<Longrightarrow> (r + 1) mod 2 = 0" for r :: int
  by presburger+

lemma mod_2_pred: "r mod 2 = 0 \<Longrightarrow> (r - 1) mod 2 = 1" "r mod 2 = 1 \<Longrightarrow> (r - 1) mod 2 = 0" for r :: int
  by presburger+

lemma syncs_half_duplex:
  fixes f g :: "int \<Rightarrow> 'a io"
  assumes N: "healthy N" and two: "2 \<le> ws"
    and even: "\<And>r. 0 \<le> r \<Longrightarrow> r < ws \<Longrightarrow> r mod 2 = 0 \<Longrightarrow>
      f r = bind_io (io_send (nxt ws r) (x r)) (\<lambda>_. bind_io (io_recv (prv ws r) (length (x (prv ws r)))) (K r))"
    and odd: "\<And>r. 0 \<le> r \<Longrightarrow> r < ws \<Longrightarrow> r mod 2 = 1 \<Longrightarrow>
      f r = bind_io (io_recv (prv ws r) (length (x (prv ws r)))) (L r)"
    and odd': "\<And>r. 0 \<le> r \<Longrightarrow> r < ws \<Longrightarrow> r mod 2 = 1 \<Longrightarrow>
      L r (x (prv ws r)) = bind_io (io_send (nxt ws r) (x r)) (\<lambda>_. K r (x (prv ws r)))"
    and g: "\<And>r. 0 \<le> r \<Longrightarrow> r < ws \<Longrightarrow> g r = K r (x (prv ws r))"
  shows "syncs N (world ws f) (world ws g)"
proof -
  define rcv where "rcv = (\<lambda>r. bind_io (io_recv (prv ws r) (length (x (prv ws r)))) (K r))"
  define snd where "snd = (\<lambda>r. bind_io (io_send (nxt ws r) (x r)) (\<lambda>_. K r (x (prv ws r))))"
  define f1 where "f1 = (\<lambda>r. if r mod 2 = 0 then (if r + 1 < ws then rcv r else f r) else snd r)"
  define f2 where "f2 = (\<lambda>r. if r mod 2 = 0 then (if r = 0 \<and> ws mod 2 = 1 then g 0 else rcv r) else snd r)"
  define A where "A = {r. 0 \<le> r \<and> r + 1 < ws \<and> r mod 2 = 0}"
  define B where "B = {r. r = ws - 1 \<and> r mod 2 = 0}"
  define C where "C = {r. 0 \<le> r \<and> r < ws \<and> r mod 2 = 1}"
  have fin: "finite A" "finite B" "finite C"
    by (rule finite_subset [of _ "{0..<ws}"]; use two in \<open>auto simp: A_def B_def C_def\<close>)+
  have one: "syncs N (world ws f) (world ws f1)"
  proof (rule syncs_matching [of A "\<lambda>r. r + 1" N _ x "\<lambda>r _. rcv r" "\<lambda>s. L (s + 1)"])
    show "(\<lambda>r. r + 1) ` A \<inter> A = {}"
      by (auto simp: A_def)
    fix r
    show "world ws f r = bind_io (io_send (r + 1) (x r)) (\<lambda>_. rcv r)" if "r \<in> A"
      using that even [of r] by (simp add: A_def rcv_def)
    show "world ws f (r + 1) = bind_io (io_recv r (length (x r))) (L (r + 1))" if "r \<in> A"
      using that odd [of "r + 1"] mod_2_Suc [of r] by (simp add: A_def)
    show "world ws f1 r = rcv r" if "r \<in> A"
      using that by (simp add: A_def f1_def)
    show "world ws f1 (r + 1) = L (r + 1) (x r)" if "r \<in> A"
    proof -
      have "(r + 1) mod 2 = 1" "0 \<le> r + 1" "r + 1 < ws"
        using that mod_2_Suc [of r] by (auto simp: A_def)
      then show ?thesis
        using odd' [of "r + 1"] that by (simp add: f1_def snd_def A_def)
    qed
    show "world ws f1 r = world ws f r" if "r \<notin> A" "r \<notin> (\<lambda>r. r + 1) ` A"
    proof (cases "0 \<le> r \<and> r < ws")
      case True
      have "r mod 2 = 0 \<and> \<not> r + 1 < ws"
      proof (rule ccontr)
        assume "\<not> ?thesis"
        moreover have "r - 1 \<notin> A"
        proof
          assume "r - 1 \<in> A"
          then have "r - 1 + 1 \<in> (\<lambda>r. r + 1) ` A"
            by (rule imageI)
          then show False using that(2) by simp
        qed
        ultimately show False
          using that(1) True mod_2_pred(2) [of r] by (auto simp: A_def)
      qed
      then show ?thesis using True by (simp add: f1_def)
    qed (auto simp: world_def)
  qed (use N fin in \<open>auto\<close>)
  have two_: "syncs N (world ws f1) (world ws f2)"
  proof (rule syncs_matching [of B "\<lambda>_. 0" N _ x "\<lambda>r _. rcv r" "\<lambda>_. K 0"])
    show "inj_on (\<lambda>_. 0 :: int) B"
      by (auto simp: B_def inj_on_def)
    show "(\<lambda>_. 0) ` B \<inter> B = {}"
      using two by (auto simp: B_def)
    fix r
    show "world ws f1 r = bind_io (io_send 0 (x r)) (\<lambda>_. rcv r)" if "r \<in> B"
      using that even [of r] two by (auto simp: B_def f1_def rcv_def)
    show "world ws f1 0 = bind_io (io_recv r (length (x r))) (K 0)" if "r \<in> B"
      using that two by (auto simp: B_def f1_def rcv_def prv_0)
    show "world ws f2 r = rcv r" if "r \<in> B"
      using that two by (auto simp: B_def f2_def)
    show "world ws f2 0 = K 0 (x r)" if "r \<in> B"
      using that two g [of 0] by (auto simp: B_def f2_def prv_0)
    show "world ws f2 r = world ws f1 r" if "r \<notin> B" "r \<notin> (\<lambda>_. 0) ` B"
    proof (cases "0 \<le> r \<and> r < ws")
      case True
      have "r + 1 < ws" if "r mod 2 = 0"
        using that True \<open>r \<notin> B\<close> by (auto simp: B_def)
      moreover have "ws mod 2 = 0" if "r = 0"
      proof -
        have "ws - 1 \<notin> B"
          using that \<open>r \<notin> (\<lambda>_. 0) ` B\<close> by auto
        then show ?thesis
          by (simp add: B_def) presburger
      qed
      ultimately show ?thesis using True by (auto simp: f1_def f2_def)
    qed (auto simp: world_def)
  qed (use N fin in auto)
  have three: "syncs N (world ws f2) (world ws g)"
  proof (rule syncs_matching [of C "nxt ws" N _ x "\<lambda>r _. K r (x (prv ws r))" "\<lambda>s. K (nxt ws s)"])
    show "inj_on (nxt ws) C"
      by (rule inj_on_inverseI [of _ "prv ws"]) (simp add: C_def prev_next_mod)
    have even_nxt: "nxt ws r mod 2 = 0 \<and> (nxt ws r = 0 \<longrightarrow> ws mod 2 = 0)" if "r \<in> C" for r
    proof (cases "r + 1 < ws")
      case True
      then have "nxt ws r = r + 1"
        using that by (simp add: C_def)
      moreover have "(r + 1) mod 2 = 0" "r + 1 \<noteq> 0"
        using that mod_2_Suc(2) [of r] by (auto simp: C_def)
      ultimately show ?thesis by simp
    next
      case False
      then have "r = ws - 1"
        using that by (simp add: C_def)
      moreover have "ws mod 2 = 0"
        using that calculation mod_2_Suc(2) [of r] by (simp add: C_def)
      ultimately show ?thesis by simp
    qed
    show "nxt ws ` C \<inter> C = {}"
      using even_nxt by (auto simp: C_def)
    fix r
    have nr: "0 \<le> nxt ws r" "nxt ws r < ws"
      using two by simp_all
    show "world ws f2 r = bind_io (io_send (nxt ws r) (x r)) (\<lambda>_. K r (x (prv ws r)))" if "r \<in> C"
      using that by (simp add: C_def f2_def snd_def)
    show "world ws f2 (nxt ws r) = bind_io (io_recv r (length (x r))) (K (nxt ws r))" if "r \<in> C"
      using that nr even_nxt [OF that] by (auto simp: C_def f2_def rcv_def prev_next_mod)
    show "world ws g r = K r (x (prv ws r))" if "r \<in> C"
      using that g by (simp add: C_def)
    show "world ws g (nxt ws r) = K (nxt ws r) (x r)" if "r \<in> C"
      using that nr g [of "nxt ws r"] by (simp add: C_def prev_next_mod)
    show "world ws g r = world ws f2 r" if "r \<notin> C" "r \<notin> nxt ws ` C"
    proof (cases "0 \<le> r \<and> r < ws")
      case True
      have ev: "r mod 2 = 0"
        using that True by (auto simp: C_def)
      have "prv ws r \<notin> C"
      proof
        assume "prv ws r \<in> C"
        then have "nxt ws (prv ws r) \<in> nxt ws ` C"
          by (rule imageI)
        then show False
          using that(2) True next_prev_mod [of r ws] by simp
      qed
      have "r = 0"
      proof (rule ccontr)
        assume "r \<noteq> 0"
        then have "prv ws r = r - 1"
          using True by simp
        then show False
          using \<open>prv ws r \<notin> C\<close> True ev \<open>r \<noteq> 0\<close> mod_2_pred(1) [of r] by (simp add: C_def)
      qed
      moreover have "ws mod 2 = 1"
        using \<open>prv ws r \<notin> C\<close> two calculation mod_2_Suc(1) [of "ws - 1"] mod_2_pred(1) [of ws] by (cases "ws mod 2 = 0") (auto simp: C_def prv_0)
      ultimately show ?thesis using two by (simp add: f2_def)
    qed (auto simp: world_def)
  qed (use N fin in auto)
  from one have "syncs N (world ws f) (world ws f2)"
    using two_ by (rule syncs_trans)
  then show ?thesis
    using three by (rule syncs_trans)
qed

section \<open>AllGather\<close>

text \<open>\<open>dist ws r c\<close> is the number of hops from rank \<open>c\<close> to rank \<open>r\<close>.\<close>

abbreviation dist :: "int \<Rightarrow> int \<Rightarrow> nat \<Rightarrow> int" where
  "dist ws r c \<equiv> (r - int c) mod ws"

lemma hops_iff:
  "0 \<le> c \<Longrightarrow> c < ws \<Longrightarrow> 0 \<le> m \<Longrightarrow> m < ws \<Longrightarrow> (r - c) mod ws = m \<longleftrightarrow> c = (r - m) mod ws" for c :: int
proof -
  assume c: "0 \<le> c" "c < ws" and m: "0 \<le> m" "m < ws"
  have "c = (r - m) mod ws" if "(r - c) mod ws = m"
    using c mod_diff_right_eq [of r "r - c" ws] that by simp
  moreover have "(r - (r - m) mod ws) mod ws = m"
    using m by (simp add: mod_diff_right_eq)
  ultimately show ?thesis by blast
qed

lemma dist_iff:
  assumes "c < nat ws" "0 \<le> m" "m < ws"
  shows "dist ws r c = m \<longleftrightarrow> c = nat ((r - m) mod ws)"
  using assms hops_iff [of "int c" ws m r] by (auto simp: nat_eq_iff)

lemma dist_nat: "0 \<le> m \<Longrightarrow> m < ws \<Longrightarrow> dist ws r (nat ((r - m) mod ws)) = m"
  by (simp add: mod_diff_right_eq)

lemma dist_le_0: "c < nat ws \<Longrightarrow> 0 \<le> r \<Longrightarrow> r < ws \<Longrightarrow> dist ws r c \<le> 0 \<longleftrightarrow> c = nat r"
  using dist_iff [of c ws 0 r] pos_mod_sign [of ws "r - int c"] by (auto simp: order.antisym)

lemma dist_le_Suc:
  assumes "c < nat ws" "1 + int m < ws"
  shows "dist ws r c \<le> 1 + int m \<longleftrightarrow> dist ws r c \<le> int m \<or> c = nat ((r - int m - 1) mod ws)"
  using dist_iff [of c ws "1 + int m" r] assms by (auto simp: algebra_simps)

text \<open>Rank \<open>r\<close> after \<open>m\<close> rounds: it has the data of the ranks at most \<open>m\<close> hops before it.\<close>

definition gathered :: "int \<Rightarrow> (nat \<Rightarrow> bytes) \<Rightarrow> (nat \<Rightarrow> bytes) \<Rightarrow> int \<Rightarrow> nat \<Rightarrow> bytes" where
  "gathered ws D old r m = chunked (nat ws) (\<lambda>c. if dist ws r c \<le> int m then D c else old c)"

lemma to_size_mod [simp]: "0 < ws \<Longrightarrow> ws < 2 ^ 31 \<Longrightarrow> to_size (k mod ws) = nat (k mod ws)"
proof (rule to_size_nonneg)
  assume ws: "0 < ws" "ws < 2 ^ 31"
  then show "0 \<le> k mod ws" by simp
  have "k mod ws < ws" using ws by simp
  also have "\<dots> < 2 ^ 64" using ws(2) by simp
  finally show "k mod ws < 2 ^ 64" .
qed

lemma nat_mod_less: "0 < ws \<Longrightarrow> nat (k mod ws) < nat ws"
  by (simp add: nat_less_iff)

lemma smod_rounds:
  assumes "0 \<le> r" "r < ws" "int m < ws"
  shows "(r - int m + ws) smod ws = (r - int m) mod ws"
    and "(r - int m + ws - 1) smod ws = (r - int m - 1) mod ws"
    and "(r - int m + 1 + ws) smod ws = (r - int m + 1) mod ws"
proof -
  show "(r - int m + ws) smod ws = (r - int m) mod ws"
    using assms by (simp add: smod_nonneg)
  have "r - int m + ws - 1 = (r - int m - 1) + ws" "0 \<le> r - int m + ws - 1"
    using assms by auto
  then show "(r - int m + ws - 1) smod ws = (r - int m - 1) mod ws"
    using assms by (metis mod_add_self2 order.strict_trans1 smod_nonneg)
  show "(r - int m + 1 + ws) smod ws = (r - int m + 1) mod ws"
    using assms by (simp add: smod_nonneg)
qed

lemma Ring_AllGather_step_syncs:
  assumes two: "2 \<le> ws" and ws: "ws < 2 ^ 31" and N: "healthy N" and m: "1 + int m < ws"
    and len: "\<And>c. length (D c) = cb" "\<And>r c. length (old r c) = cb"
  shows "syncs N
    (world ws (\<lambda>r. bind_io (Ring_AllGather_step (ring_topo ws r) (ring_links ws r) cb m (gathered ws D (old r) r m)) (k r)))
    (world ws (\<lambda>r. k r (gathered ws D (old r) r (Suc m))))"
proof (rule syncs_half_duplex [OF N two])
  define x where "x = (\<lambda>r. D (nat ((r - int m) mod ws)))"
  have xp: "x (prv ws r) = D (nat ((r - int m - 1) mod ws))" for r
    by (simp add: x_def mod_diff_left_eq algebra_simps)
  define K where "K = (\<lambda>r data. bind_io (io_store (gathered ws D (old r) r m) (nat ((r - int m - 1) mod ws) * cb) data) (k r))"
  define L where "L = (\<lambda>r data. bind_io (io_store (gathered ws D (old r) r m) (nat ((r - int m - 1) mod ws) * cb) data) (\<lambda>recv_buf.
      bind_io (io_load recv_buf (nat ((r - int m) mod ws) * cb) cb) (\<lambda>data.
      bind_io (io_send (nxt ws r) data) (\<lambda>_. k r recv_buf))))"
  fix r :: int
  assume r: "0 \<le> r" "r < ws"
  note idx = nat_mod_less [of ws]
  have store: "io_store (gathered ws D (old r) r m) (nat ((r - int m - 1) mod ws) * cb) (x (prv ws r)) =
      io_return (gathered ws D (old r) r (Suc m))"
    unfolding gathered_def xp
    by (rule io_store_ok, subst mem_store_chunked)
       (use two len m idx in \<open>auto intro!: chunked_cong simp: dist_le_Suc\<close>)
  have load: "j \<in> {m, Suc m} \<Longrightarrow> io_load (gathered ws D (old r) r j) (nat ((r - int m) mod ws) * cb) cb = io_return (x r)" for j
    unfolding gathered_def x_def
    by (rule io_load_ok, subst mem_load_chunked) (use two len m idx dist_nat [of "int m" ws r] in auto)
  have sm: "r smod 2 = r mod 2"
    using r by (simp add: smod_nonneg)
  note simps = Ring_AllGather_step_def Let_def smod_rounds [OF r] sm
  show "bind_io (Ring_AllGather_step (ring_topo ws r) (ring_links ws r) cb m (gathered ws D (old r) r m)) (k r) =
      bind_io (io_send (nxt ws r) (x r)) (\<lambda>_. bind_io (io_recv (prv ws r) (length (x (prv ws r)))) (K r))"
    if "r mod 2 = 0"
    using that two ws m len load [of m] by (simp add: simps K_def x_def)
  show "bind_io (Ring_AllGather_step (ring_topo ws r) (ring_links ws r) cb m (gathered ws D (old r) r m)) (k r) =
      bind_io (io_recv (prv ws r) (length (x (prv ws r)))) (L r)"
    if "r mod 2 = 1"
    using that two ws m len by (simp add: simps L_def x_def)
  show "L r (x (prv ws r)) = bind_io (io_send (nxt ws r) (x r)) (\<lambda>_. K r (x (prv ws r)))" if "r mod 2 = 1"
    using store load [of "Suc m"] by (simp add: L_def K_def)
  show "k r (gathered ws D (old r) r (Suc m)) = K r (x (prv ws r))"
    using store by (simp add: K_def)
qed

lemma Ring_AllGather_syncs:
  assumes w: "wired_ring ws comm" and two: "2 \<le> ws" and ws: "ws < 2 ^ 31" and N: "healthy N"
    and len: "\<And>r. length (d r) = count * GetDataTypeSize dtype"
    and rlen: "\<And>r. length (rbuf r) = nat ws * (count * GetDataTypeSize dtype)"
  shows "syncs N (world ws (\<lambda>r. Ring_AllGather (ring_topo ws r) (comm r) (d r) (rbuf r) count dtype))
    (world ws (\<lambda>r. io_return (chunked (nat ws) (\<lambda>c. d (int c)))))"
proof -
  let ?n = "nat ws" and ?cb = "count * GetDataTypeSize dtype"
  define old where "old = (\<lambda>r c. if c < ?n then chunk_of ?cb (rbuf r) c else replicate ?cb 0)"
  have oldlen: "length (old r c) = ?cb" for r c
    using length_chunk_of [OF rlen] by (simp add: old_def)
  have rbuf: "rbuf r = chunked ?n (old r)" for r
    using chunked_chunk_of [OF rlen [of r]] chunked_cong [of ?n "chunk_of ?cb (rbuf r)" "old r"]
    by (simp add: old_def)
  define S where "S = (\<lambda>r. gathered ws (\<lambda>c. d (int c)) (old r) r)"
  define body where "body = (\<lambda>r. Ring_AllGather_step (ring_topo ws r) (ring_links ws r) ?cb)"
  have "syncs N (world ws (\<lambda>r. bind_io (for_each [0..<nat (ws - 1)] (body r) (S r 0)) io_return))
      (world ws (\<lambda>r. io_return (S r (nat (ws - 1)))))"
    unfolding S_def body_def
    by (rule syncs_rounds, rule Ring_AllGather_step_syncs [OF two ws N]) (use len oldlen in auto)
  moreover have "world ws (\<lambda>r. Ring_AllGather (ring_topo ws r) (comm r) (d r) (rbuf r) count dtype) =
      world ws (\<lambda>r. bind_io (for_each [0..<nat (ws - 1)] (body r) (S r 0)) io_return)"
  proof (rule world_cong)
    fix r assume r: "0 \<le> r" "r < ws"
    have "mem_store (rbuf r) (nat r * ?cb) (d r) = Some (S r 0)"
      unfolding rbuf S_def gathered_def
      by (subst mem_store_chunked) (use r len oldlen in \<open>auto intro!: chunked_cong simp: dist_le_0\<close>)
    moreover have "to_size r = nat r"
      using r ws by simp
    ultimately show "Ring_AllGather (ring_topo ws r) (comm r) (d r) (rbuf r) count dtype =
        bind_io (for_each [0..<nat (ws - 1)] (body r) (S r 0)) io_return"
      using r w len by (simp add: Ring_AllGather_def body_def mem_simps)
  qed
  moreover have "world ws (\<lambda>r. io_return (S r (nat (ws - 1)))) = world ws (\<lambda>r. io_return (chunked ?n (\<lambda>c. d (int c))))"
  proof -
    have "(r - int c) mod ws \<le> ws - 1" for r c
      using two by simp
    then show ?thesis
      using two by (intro world_cong) (simp add: S_def gathered_def)
  qed
  ultimately show ?thesis by simp
qed

end
