(* ===== verification/RingAllReduce.thy ===== *)
theory RingAllReduce
  imports RingRounds
begin

text \<open>
  \<open>AllReduce\<close> on the ring: a reduce-scatter pass that leaves each rank with one finished
  chunk, and an all-gather pass that hands the finished chunks round. The buffer is cut into
  \<open>ws\<close> chunks of \<open>\<lceil>count / ws\<rceil>\<close> elements. The code takes for granted that all chunks but the
  last are full; \<open>fits\<close> states it, and \<open>allreduce_misfit\<close> shows what happens where it fails.
\<close>

section \<open>Full-duplex rounds\<close>

lemma syncs_full_duplex:
  fixes f g :: "int \<Rightarrow> 'a io"
  assumes N: "healthy N" and two: "2 \<le> ws"
    and f: "\<And>r. 0 \<le> r \<Longrightarrow> r < ws \<Longrightarrow>
      f r = bind_io (io_exchange (nxt ws r) (x r) (prv ws r) (length (x (prv ws r)))) (K r)"
    and g: "\<And>r. 0 \<le> r \<Longrightarrow> r < ws \<Longrightarrow> g r = K r (x (prv ws r))"
  shows "syncs N (world ws f) (world ws g)"
proof (rule syncs_exchange [of "{0..<ws}" N "nxt ws" "prv ws" _ x K])
  show "nxt ws r \<in> {0..<ws} \<and> nxt ws r \<noteq> r \<and> prv ws (nxt ws r) = r" if "r \<in> {0..<ws}" for r
  proof -
    have "nxt ws r \<noteq> r"
    proof (cases "r + 1 < ws")
      case False
      then have "r = ws - 1" using that by simp
      then show ?thesis using two by simp
    qed (use that in simp)
    then show ?thesis
      using that two by (simp add: prev_next_mod)
  qed
  show "prv ws r \<in> {0..<ws} \<and> nxt ws (prv ws r) = r" if "r \<in> {0..<ws}" for r
    using that two by (simp add: next_prev_mod)
qed (use N f g in \<open>auto simp: world_def\<close>)

section \<open>Chunks\<close>

definition fits :: "int \<Rightarrow> nat \<Rightarrow> bool" where
  "fits ws count \<longleftrightarrow> (nat ws - 1) * ring_chunk_size count ws \<le> count"

text \<open>The number of elements of chunk \<open>c\<close>.\<close>

definition chunk_count :: "int \<Rightarrow> nat \<Rightarrow> nat \<Rightarrow> nat" where
  "chunk_count ws count c = min (ring_chunk_size count ws) (count - c * ring_chunk_size count ws)"

lemma chunk_covers:
  assumes "0 < ws" "ws < 2 ^ 31"
  shows "count \<le> nat ws * ring_chunk_size count ws"
proof -
  have tos: "to_size ws = nat ws"
    using assms by (intro to_size_nonneg) auto
  have n: "0 < nat ws" using assms by simp
  have "count + nat ws - 1 = nat ws * ring_chunk_size count ws + (count + nat ws - 1) mod nat ws"
    by (simp add: ring_chunk_size_def tos)
  moreover have "(count + nat ws - 1) mod nat ws < nat ws"
    using n by simp
  ultimately show ?thesis
    using n by linarith
qed

lemma fits_start:
  assumes "fits ws count" "c < nat ws"
  shows "c * ring_chunk_size count ws \<le> count"
proof -
  have "c * ring_chunk_size count ws \<le> (nat ws - 1) * ring_chunk_size count ws"
    using assms(2) by (intro mult_le_mono1) simp
  also have "\<dots> \<le> count"
    using assms(1) by (simp only: fits_def)
  finally show ?thesis .
qed

lemma actual_count_chunk:
  assumes "fits ws count" "2 \<le> ws" "ws < 2 ^ 31" "count < 2 ^ 64"
  shows "actual_count (ring_chunk_size count ws) count (k mod ws) = chunk_count ws count (nat (k mod ws))"
proof -
  have "nat (k mod ws) < nat ws"
    using assms by (intro nat_mod_less) simp
  then show ?thesis
    using fits_start [OF assms(1)] assms(2-4) by (simp add: actual_count_def chunk_count_def size_sub_le)
qed

lemma chunk_count_full:
  assumes "fits ws count" "Suc c < nat ws"
  shows "chunk_count ws count c = ring_chunk_size count ws"
  using fits_start [OF assms] by (simp add: chunk_count_def)

lemma length_piece:
  "length d = count * ts \<Longrightarrow> length (chunk_of (ring_chunk_size count ws * ts) d c) = chunk_count ws count c * ts"
proof -
  assume "length d = count * ts"
  moreover have "count * ts - c * (ring_chunk_size count ws * ts) = (count - c * ring_chunk_size count ws) * ts"
    by (simp add: diff_mult_distrib)
  moreover have "min (a * ts) (b * ts) = min a b * ts" for a b
    by (simp add: min_def)
  ultimately show ?thesis
    by (simp add: chunk_of_def chunk_count_def min.commute)
qed

lemma chunked_pieces:
  assumes "length d = count * ts" "fits ws count" "2 \<le> ws" "ws < 2 ^ 31"
  shows "chunked (nat ws) (chunk_of (ring_chunk_size count ws * ts) d) = d"
proof (rule chunked_chunk_of_short)
  show "(nat ws - 1) * (ring_chunk_size count ws * ts) \<le> length d"
    using mult_le_mono1 [of "(nat ws - 1) * ring_chunk_size count ws" count ts] assms(1,2)
    by (simp add: fits_def mult.assoc)
  show "length d \<le> nat ws * (ring_chunk_size count ws * ts)"
    using mult_le_mono1 [OF chunk_covers [of ws count], of ts] assms(1,3,4)
    by (simp add: mult.assoc)
qed

section \<open>Reduce-scatter\<close>

text \<open>
  \<open>P c j\<close> is chunk \<open>c\<close> combined over the ranks \<open>c, \<dots>, c + j\<close>; \<open>own r c\<close> is rank
  \<open>r\<close>'s contribution to it. After \<open>m\<close> rounds the partial results have moved \<open>m\<close> hops.
\<close>

definition scattered ::
  "int \<Rightarrow> (nat \<Rightarrow> nat \<Rightarrow> bytes) \<Rightarrow> (int \<Rightarrow> nat \<Rightarrow> bytes) \<Rightarrow> int \<Rightarrow> nat \<Rightarrow> bytes" where
  "scattered ws P own r m =
     chunked (nat ws) (\<lambda>c. if dist ws r c \<le> int m then P c (nat (dist ws r c)) else own r c)"

lemma chunks_before:
  "fits ws count \<Longrightarrow> 0 < ws \<Longrightarrow> i < nat (k mod ws) \<Longrightarrow> chunk_count ws count i = ring_chunk_size count ws"
  by (rule chunk_count_full) (use nat_mod_less [of ws k] in linarith)+

lemma at_hops: "0 \<le> r \<Longrightarrow> r < ws \<Longrightarrow> at ws (int (nat ((r - int m - 1) mod ws))) (Suc m) = r"
  by (simp add: at_def mod_add_left_eq)

lemma AllReduceReduceScatter_step_syncs:
  assumes two: "2 \<le> ws" and ws: "ws < 2 ^ 31" and N: "healthy N" and fit: "fits ws count"
    and count: "count < 2 ^ 64" and m: "1 + int m < ws"
    and Plen: "\<And>c j. length (P c j) = chunk_count ws count c * GetDataTypeSize dtype"
    and olen: "\<And>r c. length (own r c) = chunk_count ws count c * GetDataTypeSize dtype"
    and P: "\<And>c j. P c (Suc j) =
      reduce_bytes F (chunk_count ws count c) dtype op ws (P c j) (own (at ws (int c) (Suc j)) c)"
  shows "syncs N
    (world ws (\<lambda>r. bind_io (AllReduceReduceScatter_step F (ring_topo ws r) (ring_links ws r) count dtype op m (scattered ws P own r m)) (k r)))
    (world ws (\<lambda>r. k r (scattered ws P own r (Suc m))))"
proof (rule syncs_full_duplex [OF N two])
  let ?ts = "GetDataTypeSize dtype" and ?cs = "ring_chunk_size count ws"
  let ?S = "\<lambda>r. nat ((r - int m) mod ws)" and ?R = "\<lambda>r. nat ((r - int m - 1) mod ws)"
  define x where "x = (\<lambda>r. P (?S r) m)"
  have xp: "x (prv ws r) = P (?R r) m" for r
    by (simp add: x_def mod_diff_left_eq algebra_simps)
  define K where "K = (\<lambda>r temp. bind_io (io_load (scattered ws P own r m) (?R r * (?cs * ?ts)) (chunk_count ws count (?R r) * ?ts)) (\<lambda>mine.
      bind_io (io_reduce F temp mine (chunk_count ws count (?R r)) dtype op ws) (\<lambda>reduced.
      bind_io (io_store (scattered ws P own r m) (?R r * (?cs * ?ts)) reduced) (k r))))"
  fix r :: int
  assume r: "0 \<le> r" "r < ws"
  note idx = nat_mod_less [of ws]
  have S: "dist ws r (?S r) = int m" and R: "dist ws r (?R r) = 1 + int m"
    using dist_nat [of "int m" ws r] dist_nat [of "1 + int m" ws r] m by (simp_all add: algebra_simps)
  have load: "io_load (scattered ws P own r m) (?S r * (?cs * ?ts)) (chunk_count ws count (?S r) * ?ts) = io_return (x r)"
    unfolding scattered_def x_def
    by (rule io_load_ok, subst mem_load_chunked)
       (use two Plen olen idx S chunks_before [OF fit] in auto)
  have load': "io_load (scattered ws P own r m) (?R r * (?cs * ?ts)) (chunk_count ws count (?R r) * ?ts) = io_return (own r (?R r))"
    unfolding scattered_def
    by (rule io_load_ok, subst mem_load_chunked)
       (use two Plen olen idx R chunks_before [OF fit] in auto)
  have store: "io_store (scattered ws P own r m) (?R r * (?cs * ?ts)) (P (?R r) (Suc m)) = io_return (scattered ws P own r (Suc m))"
    unfolding scattered_def
    by (rule io_store_ok, subst mem_store_chunked)
       (use two Plen olen idx R m chunks_before [OF fit] in \<open>auto intro!: chunked_cong simp: dist_le_Suc nat_add_distrib\<close>)
  have next_part: "P (?R r) (Suc m) = reduce_bytes F (chunk_count ws count (?R r)) dtype op ws (P (?R r) m) (own r (?R r))"
    using P [of "?R r" m] at_hops [OF r, of m] by simp
  show "bind_io (AllReduceReduceScatter_step F (ring_topo ws r) (ring_links ws r) count dtype op m (scattered ws P own r m)) (k r) =
      bind_io (io_exchange (nxt ws r) (x r) (prv ws r) (length (x (prv ws r)))) (K r)"
    using two ws m Plen load
    by (simp add: AllReduceReduceScatter_step_def Let_def smod_rounds [OF r] actual_count_chunk [OF fit two ws count] K_def xp)
  show "k r (scattered ws P own r (Suc m)) = K r (x (prv ws r))"
    using load' store next_part Plen olen by (simp add: K_def xp)
qed

section \<open>All-gather\<close>

text \<open>Rank \<open>r\<close> starts with the finished chunk \<open>r + 1\<close>, as if it were rank \<open>r + 1\<close> of \<open>AllGather\<close>.\<close>

lemma AllReduceAllGather_step_syncs:
  assumes two: "2 \<le> ws" and ws: "ws < 2 ^ 31" and N: "healthy N" and fit: "fits ws count"
    and count: "count < 2 ^ 64" and m: "1 + int m < ws"
    and len: "\<And>c. length (D c) = chunk_count ws count c * GetDataTypeSize dtype"
      "\<And>r c. length (old r c) = chunk_count ws count c * GetDataTypeSize dtype"
  shows "syncs N
    (world ws (\<lambda>r. bind_io (AllReduceAllGather_step (ring_topo ws r) (ring_links ws r) count dtype m (gathered ws D (old r) (r + 1) m)) (k r)))
    (world ws (\<lambda>r. k r (gathered ws D (old r) (r + 1) (Suc m))))"
proof (rule syncs_full_duplex [OF N two])
  let ?ts = "GetDataTypeSize dtype" and ?cs = "ring_chunk_size count ws"
  let ?S = "\<lambda>r. nat ((r - int m + 1) mod ws)" and ?R = "\<lambda>r. nat ((r - int m) mod ws)"
  define x where "x = (\<lambda>r. D (?S r))"
  have "((r - 1) mod ws - int m + 1) mod ws = (r - int m) mod ws" for r
    using mod_diff_left_eq [of "r - 1" ws "int m - 1"] by (simp add: algebra_simps)
  then have xp: "x (prv ws r) = D (?R r)" for r
    by (simp add: x_def)
  define K where "K = (\<lambda>r data. bind_io (io_store (gathered ws D (old r) (r + 1) m) (?R r * (?cs * ?ts)) data) (k r))"
  fix r :: int
  assume r: "0 \<le> r" "r < ws"
  note idx = nat_mod_less [of ws]
  have S: "dist ws (r + 1) (?S r) = int m"
    using dist_nat [of "int m" ws "r + 1"] m by (simp add: algebra_simps)
  have load: "io_load (gathered ws D (old r) (r + 1) m) (?S r * (?cs * ?ts)) (chunk_count ws count (?S r) * ?ts) = io_return (x r)"
    unfolding gathered_def x_def
    by (rule io_load_ok, subst mem_load_chunked)
       (use two len idx S chunks_before [OF fit] in auto)
  have "r + 1 - int m - 1 = r - int m"
    by simp
  then have store: "io_store (gathered ws D (old r) (r + 1) m) (?R r * (?cs * ?ts)) (D (?R r)) = io_return (gathered ws D (old r) (r + 1) (Suc m))"
    unfolding gathered_def
    by (intro io_store_ok, subst mem_store_chunked)
       (use two len idx m chunks_before [OF fit] in \<open>auto intro!: chunked_cong simp: dist_le_Suc [where r = "r + 1"]\<close>)
  show "bind_io (AllReduceAllGather_step (ring_topo ws r) (ring_links ws r) count dtype m (gathered ws D (old r) (r + 1) m)) (k r) =
      bind_io (io_exchange (nxt ws r) (x r) (prv ws r) (length (x (prv ws r)))) (K r)"
    using two ws m len load
    by (simp add: AllReduceAllGather_step_def Let_def smod_rounds [OF r] actual_count_chunk [OF fit two ws count] K_def xp)
  show "k r (gathered ws D (old r) (r + 1) (Suc m)) = K r (x (prv ws r))"
    using store by (simp add: K_def xp)
qed

section \<open>AllReduce\<close>

text \<open>Chunk \<open>c\<close> combined over the ranks \<open>c, c + 1, \<dots>, c + j\<close>, in that order.\<close>

primrec ring_partial :: "fp \<Rightarrow> nat \<Rightarrow> DataType \<Rightarrow> ReduceOp \<Rightarrow> int \<Rightarrow> (int \<Rightarrow> bytes) \<Rightarrow> nat \<Rightarrow> nat \<Rightarrow> bytes" where
  "ring_partial F count dtype op ws d c 0 =
     chunk_of (ring_chunk_size count ws * GetDataTypeSize dtype) (d (at ws (int c) 0)) c"
| "ring_partial F count dtype op ws d c (Suc j) =
     reduce_bytes F (chunk_count ws count c) dtype op ws (ring_partial F count dtype op ws d c j)
       (chunk_of (ring_chunk_size count ws * GetDataTypeSize dtype) (d (at ws (int c) (Suc j))) c)"

definition ring_allreduced :: "fp \<Rightarrow> nat \<Rightarrow> DataType \<Rightarrow> ReduceOp \<Rightarrow> int \<Rightarrow> (int \<Rightarrow> bytes) \<Rightarrow> bytes" where
  "ring_allreduced F count dtype op ws d =
     chunked (nat ws) (\<lambda>c. ring_partial F count dtype op ws d c (nat ws - 1))"

lemma length_ring_partial:
  assumes "\<And>r. length (d r) = count * GetDataTypeSize dtype"
  shows "length (ring_partial F count dtype op ws d c j) = chunk_count ws count c * GetDataTypeSize dtype"
  using length_piece [OF assms, of ws] by (induction j) simp_all

lemma Ring_AllReduce_syncs:
  assumes w: "wired_ring ws comm" and three: "3 \<le> ws" and ws: "ws < 2 ^ 31" and N: "healthy N"
    and fit: "fits ws count" and count: "count < 2 ^ 64"
    and len: "\<And>r. length (d r) = count * GetDataTypeSize dtype"
    and rlen: "\<And>r. length (rbuf r) = count * GetDataTypeSize dtype"
  shows "syncs N (world ws (\<lambda>r. Ring_AllReduce F (ring_topo ws r) (comm r) (d r) (rbuf r) count dtype op))
    (world ws (\<lambda>r. io_return (ring_allreduced F count dtype op ws d)))"
proof -
  let ?ts = "GetDataTypeSize dtype" and ?cs = "ring_chunk_size count ws" and ?n = "nat ws"
  define P where "P = ring_partial F count dtype op ws d"
  define own where "own = (\<lambda>r c. chunk_of (?cs * ?ts) (d r) c)"
  define part where "part = (\<lambda>r c. P c (nat (dist ws r c)))"
  define full where "full = (\<lambda>c. P c (?n - 1))"
  have two: "2 \<le> ws" using three by simp
  have Plen: "length (P c j) = chunk_count ws count c * ?ts" for c j
    by (simp add: P_def length_ring_partial len)
  have olen: "length (own r c) = chunk_count ws count c * ?ts" for r c
    by (simp add: own_def length_piece len)
  have P: "P c (Suc j) = reduce_bytes F (chunk_count ws count c) dtype op ws (P c j) (own (at ws (int c) (Suc j)) c)" for c j
    by (simp add: P_def own_def)
  define RS where "RS = (\<lambda>r m. scattered ws P own r m)"
  define AG where "AG = (\<lambda>r m. gathered ws full (part r) (r + 1) m)"
  define rs where "rs = (\<lambda>r. AllReduceReduceScatter_step F (ring_topo ws r) (ring_links ws r) count dtype op)"
  define ag where "ag = (\<lambda>r. AllReduceAllGather_step (ring_topo ws r) (ring_links ws r) count dtype)"
  define fin where "fin = (\<lambda>r :: int. for_each [0..<nat (ws - 1)] (ag r))"
  have pass1: "syncs N (world ws (\<lambda>r. bind_io (for_each [0..<nat (ws - 1)] (rs r) (RS r 0)) (fin r)))
      (world ws (\<lambda>r. fin r (RS r (nat (ws - 1)))))"
    unfolding RS_def rs_def
    by (rule syncs_rounds, rule AllReduceReduceScatter_step_syncs [OF two ws N fit count _ Plen olen P]) auto
  have pass2: "syncs N (world ws (\<lambda>r. bind_io (for_each [0..<nat (ws - 1)] (ag r) (AG r 0)) io_return))
      (world ws (\<lambda>r. io_return (AG r (nat (ws - 1)))))"
    unfolding AG_def ag_def
    by (rule syncs_rounds, rule AllReduceAllGather_step_syncs [OF two ws N fit count]) (auto simp: full_def part_def Plen)
  have start: "Ring_AllReduce F (ring_topo ws r) (comm r) (d r) (rbuf r) count dtype op =
      bind_io (for_each [0..<nat (ws - 1)] (rs r) (RS r 0)) (fin r)" if r: "0 \<le> r" "r < ws" for r
  proof -
    have "P (nat r) 0 = own r (nat r)"
      using r by (simp add: P_def own_def at_def)
    then have "RS r 0 = chunked ?n (own r)"
      using r by (auto simp: RS_def scattered_def dist_le_0 intro!: chunked_cong)
    also have "\<dots> = d r"
      unfolding own_def by (rule chunked_pieces [OF len fit two ws])
    finally show ?thesis
      using r w three len rlen
      by (simp add: Ring_AllReduce_def AllReduceReduceScatter_def AllReduceAllGather_def rs_def ag_def fin_def mem_simps)
  qed
  have middle: "fin r (RS r (nat (ws - 1))) = bind_io (for_each [0..<nat (ws - 1)] (ag r) (AG r 0)) io_return"
    if r: "0 \<le> r" "r < ws" for r
  proof -
    have "dist ws r c \<le> ws - 1" for c
      using two by simp
    moreover have "part r c = full c" if "dist ws (r + 1) c \<le> 0" "c < ?n" for c
    proof -
      have "dist ws (r + 1) c = 0"
        using that two by (simp add: order.antisym)
      then have "c = nat ((r + 1) mod ws)"
        using dist_iff [of c ws 0 "r + 1"] that two by simp
      moreover have "(r - (ws - 1)) mod ws = (r + 1) mod ws"
        using minus_mod_self2 [of "r + 1" ws] by (simp add: algebra_simps)
      ultimately have "c = nat ((r - (ws - 1)) mod ws)"
        by simp
      then have "dist ws r c = ws - 1"
        using dist_iff [of c ws "ws - 1" r] that two by simp
      then show ?thesis
        using two by (simp add: part_def full_def nat_diff_distrib)
    qed
    ultimately have "RS r (nat (ws - 1)) = AG r 0"
      using two by (auto simp: RS_def AG_def scattered_def gathered_def part_def intro!: chunked_cong)
    then show ?thesis by (simp add: fin_def)
  qed
  have finish: "AG r (nat (ws - 1)) = ring_allreduced F count dtype op ws d" for r
  proof -
    have "dist ws (r + 1) c \<le> ws - 1" for c
      using two by simp
    then show ?thesis
      using two by (simp add: AG_def gathered_def ring_allreduced_def full_def P_def)
  qed
  have eq1: "world ws (\<lambda>r. Ring_AllReduce F (ring_topo ws r) (comm r) (d r) (rbuf r) count dtype op) =
      world ws (\<lambda>r. bind_io (for_each [0..<nat (ws - 1)] (rs r) (RS r 0)) (fin r))"
    by (rule world_cong) (rule start)
  have eq2: "world ws (\<lambda>r. fin r (RS r (nat (ws - 1)))) =
      world ws (\<lambda>r. bind_io (for_each [0..<nat (ws - 1)] (ag r) (AG r 0)) io_return)"
    by (rule world_cong) (rule middle)
  show ?thesis
    using syncs_trans [OF pass1 [unfolded eq2] pass2] unfolding eq1 finish .
qed

section \<open>The result is the reduction over all ranks\<close>

lemma chunk_of_slice:
  "length buf = count * ts \<Longrightarrow> chunk_of (ring_chunk_size count ws * ts) buf c =
     take (chunk_count ws count c * ts) (drop (c * ring_chunk_size count ws * ts) buf)"
proof -
  have cut: "take n xs = take (length (take n xs)) xs" for n and xs :: bytes
    by (simp add: min_def)
  assume "length buf = count * ts"
  then have "length (take (ring_chunk_size count ws * ts) (drop (c * (ring_chunk_size count ws * ts)) buf)) = chunk_count ws count c * ts"
    using length_piece [of buf count ts ws c] by (simp only: chunk_of_def)
  then show ?thesis
    using cut [of "ring_chunk_size count ws * ts" "drop (c * (ring_chunk_size count ws * ts)) buf"]
    by (simp only: chunk_of_def mult.assoc)
qed

lemma ring_partial_fold:
  "ring_partial F count dtype op ws d c j =
     fold (\<lambda>q acc. reduce_bytes F (chunk_count ws count c) dtype op ws acc
        (chunk_of (ring_chunk_size count ws * GetDataTypeSize dtype) (d (at ws (int c) q)) c)) [1..<Suc j]
       (chunk_of (ring_chunk_size count ws * GetDataTypeSize dtype) (d (at ws (int c) 0)) c)"
  by (induction j) simp_all

lemma ranks_from:
  assumes "c < nat ws"
  shows "distinct (map (\<lambda>j. nat (at ws (int c) j)) [0..<nat ws])"
    and "set (map (\<lambda>j. nat (at ws (int c) j)) [0..<nat ws]) = {0..<nat ws}"
proof -
  let ?f = "\<lambda>j. nat (at ws (int c) j)"
  have ws: "0 < ws" using assms by simp
  have inj: "inj_on ?f {0..<nat ws}"
  proof (rule inj_onI)
    fix i j assume "i \<in> {0..<nat ws}" "j \<in> {0..<nat ws}" "?f i = ?f j"
    then show "i = j"
      using ws at_inject [of i ws j "int c"] by (simp add: eq_nat_nat_iff)
  qed
  then show "distinct (map ?f [0..<nat ws])"
    by (simp add: distinct_map)
  have "?f ` {0..<nat ws} \<subseteq> {0..<nat ws}"
    using ws by (auto simp: nat_less_iff)
  then show "set (map ?f [0..<nat ws]) = {0..<nat ws}"
    using endo_inj_surj [OF _ _ inj] by simp
qed

lemma ring_partial_reduced:
  assumes "int_type dtype" "op \<noteq> OpAVG" "c < nat ws"
    and len: "\<And>r. length (d r) = count * GetDataTypeSize dtype"
  shows "ring_partial F count dtype op ws d c (nat ws - 1) =
      reduced dtype op (chunk_count ws count c) (nat ws)
        (\<lambda>q. chunk_of (ring_chunk_size count ws * GetDataTypeSize dtype) (d (int q)) c)"
proof -
  let ?f = "\<lambda>j. nat (at ws (int c) j)"
  let ?D = "\<lambda>q. chunk_of (ring_chunk_size count ws * GetDataTypeSize dtype) (d (int q)) c"
  have ws: "0 < ws" using assms(3) by simp
  then have up: "[0..<nat ws] = 0 # [1..<nat ws]" "Suc (nat ws - 1) = nat ws"
    by (simp_all add: upt_conv_Cons)
  have "ring_partial F count dtype op ws d c (nat ws - 1) =
      fold (\<lambda>q acc. reduce_bytes F (chunk_count ws count c) dtype op ws acc (?D q)) (map ?f [1..<nat ws]) (?D (?f 0))"
    unfolding ring_partial_fold up(2) using ws by (simp add: fold_map comp_def)
  also have "\<dots> = reduced dtype op (chunk_count ws count c) (nat ws) ?D"
  proof (rule fold_reduce_bytes [OF assms(1,2)])
    show "distinct (?f 0 # map ?f [1..<nat ws])" "set (?f 0 # map ?f [1..<nat ws]) = {0..<nat ws}"
      using ranks_from [OF assms(3)] unfolding up(1) by simp_all
    show "length (?D q) = chunk_count ws count c * GetDataTypeSize dtype" for q
      by (rule length_piece) (rule len)
  qed
  finally show ?thesis .
qed

lemma ring_allreduced_reduced:
  assumes "int_type dtype" "op \<noteq> OpAVG" "2 \<le> ws" "ws < 2 ^ 31" "fits ws count"
    and len: "\<And>r. length (d r) = count * GetDataTypeSize dtype"
  shows "ring_allreduced F count dtype op ws d = reduced dtype op count (nat ws) (\<lambda>q. d (int q))"
proof -
  let ?ts = "GetDataTypeSize dtype" and ?cs = "ring_chunk_size count ws"
  let ?all = "reduced dtype op count (nat ws) (\<lambda>q. d (int q))"
  have "ring_partial F count dtype op ws d c (nat ws - 1) = chunk_of (?cs * ?ts) ?all c" if c: "c < nat ws" for c
  proof -
    have "c * ?cs + chunk_count ws count c \<le> count"
      using fits_start [OF assms(5) c] by (simp add: chunk_count_def)
    then show ?thesis
      unfolding ring_partial_reduced [OF assms(1,2) c len]
      using assms(1,3) by (simp add: chunk_of_slice len reduced_slice)
  qed
  then have "ring_allreduced F count dtype op ws d = chunked (nat ws) (chunk_of (?cs * ?ts) ?all)"
    unfolding ring_allreduced_def by (rule chunked_cong)
  also have "\<dots> = ?all"
    by (rule chunked_pieces [OF _ assms(5,3,4)]) (simp add: assms(1))
  finally show ?thesis .
qed

section \<open>Two ranks\<close>

lemma wired_two:
  assumes "wired_ring 2 comm"
  shows "get_transport (comm 0) 1 = io_return 1" "get_transport (comm 1) 0 = io_return 0"
  using assms spec [OF assms [unfolded wired_ring_def], of 0] spec [OF assms [unfolded wired_ring_def], of 1]
  by (simp_all add: GetTransport_def)

lemma Ring_AllReduce_two_syncs:
  assumes w: "wired_ring 2 comm" and N: "healthy N"
    and len: "\<And>r. length (d r) = count * GetDataTypeSize dtype"
    and rlen: "\<And>r. length (rbuf r) = count * GetDataTypeSize dtype"
  shows "syncs N (world 2 (\<lambda>r. Ring_AllReduce F (ring_topo 2 r) (comm r) (d r) (rbuf r) count dtype op))
    (world 2 (\<lambda>r. io_return (reduce_bytes F count dtype op 2 (d (1 - r)) (d r))))"
proof -
  let ?red = "\<lambda>r peer. io_return (reduce_bytes F count dtype op 2 peer (d r))"
  let ?cb = "count * GetDataTypeSize dtype"
  define f where "f = (\<lambda>r :: int. if r = 0
      then bind_io (io_send 1 (d 0)) (\<lambda>_. bind_io (io_recv 1 ?cb) (\<lambda>peer. io_reduce F peer (d 0) count dtype op 2))
      else bind_io (io_recv 0 ?cb) (\<lambda>peer. bind_io (io_send 0 (d 1)) (\<lambda>_. io_reduce F peer (d 1) count dtype op 2)))"
  define f1 where "f1 = (\<lambda>r :: int. if r = 0
      then bind_io (io_recv 1 ?cb) (\<lambda>peer. io_reduce F peer (d 0) count dtype op 2)
      else bind_io (io_send 0 (d 1)) (\<lambda>_. ?red 1 (d 0)))"
  have start: "world 2 (\<lambda>r. Ring_AllReduce F (ring_topo 2 r) (comm r) (d r) (rbuf r) count dtype op) = world 2 f"
  proof (rule world_cong)
    fix r :: int assume "0 \<le> r" "r < 2"
    then consider "r = 0" | "r = 1" by linarith
    then show "Ring_AllReduce F (ring_topo 2 r) (comm r) (d r) (rbuf r) count dtype op = f r"
      using wired_two [OF w] len rlen
      by cases (simp_all add: Ring_AllReduce_def AllReduceTwoRanks_def Let_def f_def mem_simps del: get_transport_simps)
  qed
  have "syncs N (world 2 f) ((world 2 f)(0 := bind_io (io_recv 1 ?cb) (\<lambda>peer. io_reduce F peer (d 0) count dtype op 2),
      1 := bind_io (io_send 0 (d 1)) (\<lambda>_. ?red 1 (d 0))))"
    by (rule syncs_eq_trans, rule syncs_send_recv [of _ 0 1 "d 0" _ "\<lambda>peer. bind_io (io_send 0 (d 1)) (\<lambda>_. io_reduce F peer (d 1) count dtype op 2)"]) (use N len in \<open>simp_all add: f_def\<close>)
  also have "(world 2 f)(0 := bind_io (io_recv 1 ?cb) (\<lambda>peer. io_reduce F peer (d 0) count dtype op 2),
      1 := bind_io (io_send 0 (d 1)) (\<lambda>_. ?red 1 (d 0))) = world 2 f1"
    by (auto simp: f1_def world_def fun_eq_iff)
  also have "syncs N (world 2 f1) ((world 2 f1)(1 := ?red 1 (d 0), 0 := ?red 0 (d 1)))"
    by (rule syncs_eq_trans, rule syncs_send_recv [of _ 1 0 "d 1" _ "\<lambda>peer. io_reduce F peer (d 0) count dtype op 2"]) (use N len in \<open>simp_all add: f1_def\<close>)
  also have "(world 2 f1)(1 := ?red 1 (d 0), 0 := ?red 0 (d 1)) = world 2 (\<lambda>r. ?red r (d (1 - r)))"
    by (auto simp: world_def fun_eq_iff)
  finally show ?thesis
    unfolding start .
qed

section \<open>When the chunks do not fit\<close>

lemma chunk_size_bounds:
  assumes "0 < ws" "ws < 2 ^ 31"
  shows "nat ws * ring_chunk_size count ws < count + nat ws"
proof -
  have tos: "to_size ws = nat ws"
    using assms by (intro to_size_nonneg) auto
  have "nat ws * ring_chunk_size count ws \<le> count + nat ws - 1"
    by (simp add: ring_chunk_size_def tos)
  then show ?thesis
    using assms by linarith
qed

lemma misfit_out_of_bounds:
  assumes w: "wired_ring ws comm" and three: "3 \<le> ws" and ws: "ws < 2 ^ 31" and misfit: "\<not> fits ws count"
    and count: "count < 2 ^ 63"
    and len: "length d = count * GetDataTypeSize dtype" "length rbuf = count * GetDataTypeSize dtype"
  shows "Ring_AllReduce F (ring_topo ws (ws - 1)) (comm (ws - 1)) d rbuf count dtype op = io_fail OutOfBounds"
proof -
  let ?cs = "ring_chunk_size count ws" and ?n = "nat ws" and ?ts = "GetDataTypeSize dtype"
  have over: "count < (?n - 1) * ?cs"
    using misfit by (simp add: fits_def)
  have "?n = Suc (?n - 1)"
    using three by simp
  then have split: "?n * ?cs = (?n - 1) * ?cs + ?cs"
    by (metis add.commute mult_Suc)
  have n: "?n < 2 ^ 31"
    using ws by (simp add: nat_less_iff)
  have upper: "?n * ?cs < count + ?n"
    using chunk_size_bounds [of ws count] three ws by simp
  have powers: "(2 :: nat) ^ 63 + 2 ^ 31 < 2 ^ 64"
    by simp
  have bound: "(?n - 1) * ?cs < 2 ^ 64"
    using upper n count split powers by linarith
  have "?cs \<le> 2 ^ 64 + count - (?n - 1) * ?cs"
    using upper n split powers by linarith
  then have all: "actual_count ?cs count (ws - 1) = ?cs"
    using over bound three ws by (simp add: actual_count_def size_sub_wrap nat_diff_distrib)
  have ts: "0 < ?ts"
    by (cases dtype) simp_all
  have "count * ?ts < ((?n - 1) * ?cs) * ?ts"
    by (rule mult_less_mono1 [OF over ts])
  then have "length d < (?n - 1) * (?cs * ?ts) + ?cs * ?ts"
    unfolding len(1) mult.assoc by (rule trans_less_add1)
  then have load: "io_load d ((?n - 1) * (?cs * ?ts)) (?cs * ?ts) = io_fail OutOfBounds"
    by (intro io_load_out mem_load_out)
  have rounds: "[0..<nat (ws - 1)] = 0 # [1..<nat (ws - 1)]"
    using three by (simp add: upt_conv_Cons)
  have step0: "AllReduceReduceScatter_step F (ring_topo ws (ws - 1)) rt count dtype op 0 d = io_fail OutOfBounds" for rt
  proof -
    have "(ws - 1 - int 0 + ws) smod ws = ws - 1"
      using smod_rounds(1) [of "ws - 1" ws 0] three by (simp add: prv_0)
    moreover have "to_size (ws - 1) = ?n - 1"
      using three ws by (simp add: nat_diff_distrib)
    ultimately show ?thesis
      using load all three by (simp add: AllReduceReduceScatter_step_def Let_def)
  qed
  have "Ring_AllReduce F (ring_topo ws (ws - 1)) (comm (ws - 1)) d rbuf count dtype op =
      bind_io (AllReduceReduceScatter F (ring_topo ws (ws - 1)) d count dtype op (ring_links ws (ws - 1)))
        (\<lambda>buf. AllReduceAllGather (ring_topo ws (ws - 1)) buf count dtype (ring_links ws (ws - 1)))"
    using w three len by (simp add: Ring_AllReduce_def mem_simps)
  also have "\<dots> = io_fail OutOfBounds"
    using step0 by (simp add: AllReduceReduceScatter_def rounds)
  finally show ?thesis .
qed

end
