(* ===== verification/RingBarrier.thy ===== *)
theory RingBarrier
  imports RingRounds
begin

text \<open>
  \<open>Barrier\<close> on the ring: a token goes round twice. It returns on every rank, and on no rank
  before all ranks have entered it.
\<close>

section \<open>The token goes round\<close>

text \<open>Rank \<open>0\<close> sends the token first; the others wait for it and pass it on.\<close>

definition token_stage :: "int \<Rightarrow> bytes \<Rightarrow> (nat \<Rightarrow> 'a io) \<Rightarrow> (nat \<Rightarrow> bytes \<Rightarrow> 'a io) \<Rightarrow> nat \<Rightarrow> nat \<Rightarrow> 'a io" where
  "token_stage ws tok fin L m q =
     (if q = 0 then
        (if m = 0 then bind_io (io_send (at ws 0 1) tok) (\<lambda>_. bind_io (io_recv (at ws 0 (nat ws - 1)) (length tok)) (L 0))
         else if m < nat ws then bind_io (io_recv (at ws 0 (nat ws - 1)) (length tok)) (L 0)
         else fin 0)
      else if m < q then bind_io (io_recv (at ws 0 (q - 1)) (length tok)) (L q)
      else if m = q then bind_io (io_send (at ws 0 (Suc q)) tok) (\<lambda>_. fin q)
      else fin q)"

lemma syncs_token:
  assumes two: "2 \<le> ws" and N: "healthy N"
    and L0: "L 0 tok = fin 0"
    and L: "\<And>q. 0 < q \<Longrightarrow> q < nat ws \<Longrightarrow> L q tok = bind_io (io_send (at ws 0 (Suc q)) tok) (\<lambda>_. fin q)"
  shows "syncs N (by_pos ws 0 (token_stage ws tok fin L 0)) (by_pos ws 0 fin)"
proof -
  let ?S = "token_stage ws tok fin L" and ?n = "nat ws"
  let ?wait0 = "bind_io (io_recv (at ws 0 (?n - 1)) (length tok)) (L 0)"
  have "syncs N (by_pos ws 0 (?S m)) (by_pos ws 0 (?S (Suc m)))" if m: "m < ?n" for m
  proof (cases "Suc m = ?n")
    case True
    have last: "at ws 0 (nat ws) = at ws 0 0" "nat ws - Suc 0 = m"
      using at_wrap [of 0 ws] two True by (simp_all add: at_0)
    have "syncs N (by_pos ws 0 (?S m)) (by_pos ws 0 ((?S m)(m := fin m, 0 := L 0 tok)))"
      by (rule syncs_pos [where kb = "L 0"])
         (use True two N m last in \<open>auto simp: token_stage_def\<close>)
    moreover have "((?S m)(m := fin m, 0 := L 0 tok)) q = ?S (Suc m) q" if "q < ?n" for q
      using True two that L0 by (simp add: token_stage_def)
    then have "by_pos ws 0 ((?S m)(m := fin m, 0 := L 0 tok)) = by_pos ws 0 (?S (Suc m))"
      by (rule by_pos_cong)
    ultimately show ?thesis by simp
  next
    case False
    let ?ka = "if m = 0 then ?wait0 else fin m"
    have "syncs N (by_pos ws 0 (?S m)) (by_pos ws 0 ((?S m)(m := ?ka, Suc m := L (Suc m) tok)))"
      by (rule syncs_pos [where kb = "L (Suc m)"])
         (use False two N m in \<open>auto simp: token_stage_def\<close>)
    moreover have "((?S m)(m := ?ka, Suc m := L (Suc m) tok)) q = ?S (Suc m) q" if "q < ?n" for q
      using False two m L [of "Suc m"] by (auto simp: token_stage_def)
    then have "by_pos ws 0 ((?S m)(m := ?ka, Suc m := L (Suc m) tok)) = by_pos ws 0 (?S (Suc m))"
      by (rule by_pos_cong)
    ultimately show ?thesis by simp
  qed
  then have "syncs N (by_pos ws 0 (?S 0)) (by_pos ws 0 (?S ?n))"
    by (rule syncs_pos_chain)
  moreover have "by_pos ws 0 (?S ?n) = by_pos ws 0 fin"
    by (rule by_pos_cong) (use two in \<open>simp add: token_stage_def\<close>)
  ultimately show ?thesis by simp
qed

lemma Ring_Barrier_round_syncs:
  fixes k :: "int \<Rightarrow> bytes \<Rightarrow> 'a io"
  assumes two: "2 \<le> ws" and N: "healthy N" and tok: "length tok = 4"
  shows "syncs N (world ws (\<lambda>r. bind_io (Ring_Barrier_round (ring_topo ws r) (ring_links ws r) tok) (k r)))
    (world ws (\<lambda>r. k r tok))"
proof -
  let ?at = "at ws 0"
  define fin where "fin = (\<lambda>q. k (?at q) tok)"
  define L where "L = (\<lambda>q data. bind_io (io_store tok 0 data) (\<lambda>dummy.
      if q = 0 then k (?at q) dummy else bind_io (token_send (nxt ws (?at q)) dummy) (k (?at q))))"
  have "syncs N (by_pos ws 0 (token_stage ws tok fin L 0)) (by_pos ws 0 fin)"
    by (rule syncs_token [OF two N]) (use tok in \<open>auto simp: fin_def L_def token_send_def mem_simps at_Suc\<close>)
  moreover have "world ws (\<lambda>r. bind_io (Ring_Barrier_round (ring_topo ws r) (ring_links ws r) tok) (k r)) =
      by_pos ws 0 (token_stage ws tok fin L 0)"
  proof (rule world_by_pos)
    fix q assume q: "q < nat ws"
    show "bind_io (Ring_Barrier_round (ring_topo ws (?at q)) (ring_links ws (?at q)) tok) (k (?at q)) =
        token_stage ws tok fin L 0 q"
    proof (cases q)
      case 0
      have "?at 0 = 0" "nxt ws (?at 0) = ?at 1" "prv ws (?at 0) = ?at (nat ws - 1)"
        using two at_Suc [of ws 0 0] at_pred_0 [of ws 0] by (simp_all add: at_0)
      then show ?thesis
        using 0 tok
        by (simp add: Ring_Barrier_round_def token_send_def token_recv_def token_stage_def L_def mem_simps)
    next
      case (Suc p)
      have "?at q \<noteq> 0" "prv ws (?at q) = ?at p"
        using at_eq_root [of 0 ws q] two q Suc at_pred [of ws 0 p] by simp_all
      then show ?thesis
        using Suc tok
        by (simp add: Ring_Barrier_round_def token_send_def token_recv_def token_stage_def L_def)
    qed
  qed
  moreover have "world ws (\<lambda>r. k r tok) = by_pos ws 0 fin"
    by (rule world_by_pos) (simp add: fin_def)
  ultimately show ?thesis by simp
qed

lemma Ring_Barrier_syncs:
  assumes w: "wired_ring ws comm" and two: "2 \<le> ws" and N: "healthy N"
  shows "syncs N (world ws (\<lambda>r. Ring_Barrier (ring_topo ws r) (comm r))) (world ws (\<lambda>r. io_return ()))"
proof -
  let ?round = "\<lambda>r. Ring_Barrier_round (ring_topo ws r) (ring_links ws r)"
  let ?tok = "replicate 4 0"
  have "world ws (\<lambda>r. Ring_Barrier (ring_topo ws r) (comm r)) =
      world ws (\<lambda>r. bind_io (?round r ?tok) (\<lambda>dummy. bind_io (?round r dummy) (\<lambda>_. io_return ())))"
    by (rule world_cong) (simp add: Ring_Barrier_def w)
  moreover have "syncs N (world ws (\<lambda>r. bind_io (?round r ?tok) (\<lambda>dummy. bind_io (?round r dummy) (\<lambda>_. io_return ()))))
      (world ws (\<lambda>r. bind_io (?round r ?tok) (\<lambda>_. io_return ())))"
    using Ring_Barrier_round_syncs [OF two N, of ?tok "\<lambda>r dummy. bind_io (?round r dummy) (\<lambda>_. io_return ())"]
    by simp
  moreover have "syncs N (world ws (\<lambda>r. bind_io (?round r ?tok) (\<lambda>_. io_return ()))) (world ws (\<lambda>r. io_return ()))"
    using Ring_Barrier_round_syncs [OF two N, of ?tok "\<lambda>r _. io_return ()"] by simp
  ultimately show ?thesis
    by (simp add: syncs_trans)
qed

end
