(* ===== verification/RingResults.thy ===== *)
theory RingResults
  imports RingAllReduce RingBarrier
begin

text \<open>
  What the collectives of \<open>TopologyRing\<close> deliver: for every world size, every capacity of the
  links and every scheduler. Each statement is about all ranks calling the collective together
  on a ring of working links.
\<close>

section \<open>Communicators for concrete runs\<close>

text \<open>A communicator with a transport for every peer.\<close>

definition wired_comm :: Communicator where
  "wired_comm = new_Communicator\<lparr>transports := (\<lambda>p. Some p)\<rparr>"

text \<open>The witnesses use integer buffers; this stands for floating-point arithmetic in them.\<close>

definition some_fp :: fp where
  "some_fp = \<lparr>fp32 = int_arith, fp64 = int_arith\<rparr>"

lemma wired_comm_ring [simp]: "wired_ring ws (\<lambda>_. wired_comm)"
  by (simp add: wired_ring_def wired_comm_def)

section \<open>The reducing chains are reductions over all ranks\<close>

lemma ranks_from_root:
  assumes "0 \<le> root" "root < ws"
  shows "distinct (map (\<lambda>j. nat (at ws root j)) [0..<nat ws])"
    and "set (map (\<lambda>j. nat (at ws root j)) [0..<nat ws]) = {0..<nat ws}"
  using ranks_from [of "nat root" ws] assms by simp_all

lemma reduce_from_reduced:
  assumes "int_type dtype" "op \<noteq> OpAVG" "0 \<le> root" "root < ws"
    and len: "\<And>r. length (d r) = count * GetDataTypeSize dtype"
  shows "reduce_from (reduce_bytes F count dtype op w) (nat ws) (\<lambda>q. d (at ws root q)) 0 =
      reduced dtype op count (nat ws) (\<lambda>q. d (int q))"
proof -
  let ?f = "\<lambda>j. nat (at ws root j)"
  have ws: "0 < ws" using assms by simp
  have up: "[0..<nat ws] = [0..<nat ws - 1] @ [nat ws - 1]"
    using ws by (metis Suc_pred' le0 upt_Suc_append zero_less_nat_eq)
  have "reduce_from (reduce_bytes F count dtype op w) (nat ws) (\<lambda>q. d (at ws root q)) 0 =
      foldr (\<lambda>q acc. reduce_bytes F count dtype op w acc (d (int q))) (map ?f [0..<nat ws - 1]) (d (int (?f (nat ws - 1))))"
    using ws by (simp add: reduce_from_def foldr_map comp_def)
  also have "\<dots> = reduced dtype op count (nat ws) (\<lambda>q. d (int q))"
  proof (rule foldr_reduce_bytes [OF assms(1,2)])
    have "set (map ?f [0..<nat ws]) = set (?f (nat ws - 1) # map ?f [0..<nat ws - 1])"
      unfolding up by simp
    then show "set (?f (nat ws - 1) # map ?f [0..<nat ws - 1]) = {0..<nat ws}"
      using ranks_from_root(2) [OF assms(3,4)] by simp
    have "distinct (map ?f ([0..<nat ws - 1] @ [nat ws - 1]))"
      using ranks_from_root(1) [OF assms(3,4)] unfolding up [symmetric] .
    then show "distinct (?f (nat ws - 1) # map ?f [0..<nat ws - 1])"
      by auto
  qed (use len in simp)
  finally show ?thesis .
qed

lemma fold_add: "fold (\<lambda>s r. r + s) xs a = a + sum_list xs" for a :: "'a::comm_monoid_add"
  by (induction xs arbitrary: a) (simp_all add: ac_simps)

lemma word_of_int_sum_sint: "word_of_int (\<Sum>q\<in>S. sint (f q)) = (\<Sum>q\<in>S. f q)" for f :: "_ \<Rightarrow> 'a::len word"
  by simp

lemma reduced_sum:
  assumes "0 < n"
  shows "reduced INT32 OpSUM count n d =
      le_array 4 (map (\<lambda>i. word_of_int (\<Sum>q<n. sint (view32 count (d q) ! i)) :: 32 word) [0..<count])"
proof -
  have add: "reduce_elem int_arith OpSUM = (\<lambda>s r :: 32 word. r + s)"
    by (intro ext) (simp add: int_arith_def)
  have "fold (reduce_elem int_arith OpSUM) (map v [1..<n]) (v 0) = (\<Sum>q<n. v q)" for v :: "nat \<Rightarrow> 32 word"
  proof -
    have "fold (reduce_elem int_arith OpSUM) (map v [1..<n]) (v 0) = v 0 + sum_list (map v [1..<n])"
      by (simp only: add fold_add)
    also have "\<dots> = sum_list (map v [0..<n])"
      using assms by (simp add: upt_conv_Cons)
    finally show ?thesis
      by (simp add: interv_sum_list_conv_sum_set_nat atLeast0LessThan)
  qed
  from this [where v = "\<lambda>q. of_le_array 4 count (d q) ! _"] show ?thesis
    by (simp add: reduced_def reduced_words_def view32_def word_of_int_sum_sint)
qed

section \<open>Moving data\<close>

text \<open>
  C25: When every rank of a ring calls \<open>Broadcast\<close> with the same root, all calls return true
  and every rank's buffer holds the bytes the root had, whatever the schedule.
\<close>

theorem Ring_Broadcast_delivers:
  assumes "healthy N" "wired_ring ws comm" "0 \<le> root" "root < ws"
    and "\<And>r. length (buf r) = count * GetDataTypeSize dtype"
  shows "delivers N ws (\<lambda>r. Ring_Broadcast (ring_topo ws r) (comm r) (buf r) count dtype root) (\<lambda>r. Inr (buf root))"
  by (rule delivers_by_schedule, rule Ring_Broadcast_syncs) (use assms in auto)

lemma Ring_Broadcast_delivers_witness:
  "delivers tight_net 4 (\<lambda>r. Ring_Broadcast (ring_topo 4 r) wired_comm [word_of_int r, 0, 0, 7] 1 INT32 2)
     (\<lambda>r. Inr [2, 0, 0, 7])"
  using Ring_Broadcast_delivers [of tight_net 4 "\<lambda>_. wired_comm" 2 "\<lambda>r. [word_of_int r, 0, 0, 7]" 1 INT32] by simp

text \<open>
  C24: When every rank of a ring calls \<open>Gather\<close>, all calls return true, the root's receive
  buffer is the concatenation of the ranks' blocks in rank order (whichever rank the root is),
  and the receive buffers of the other ranks are unchanged.
\<close>

theorem Ring_Gather_delivers:
  assumes "healthy N" "wired_ring ws comm" "0 \<le> root" "root < ws" "2 \<le> ws" "ws < 2 ^ 31"
    and "\<And>r. length (d r) = count * GetDataTypeSize dtype"
    and "length (rbuf root) = nat ws * (count * GetDataTypeSize dtype)"
  shows "delivers N ws (\<lambda>r. Ring_Gather (ring_topo ws r) (comm r) (d r) (rbuf r) count dtype root)
     (\<lambda>r. Inr (if r = root then chunked (nat ws) (\<lambda>c. d (int c)) else rbuf r))"
  by (rule delivers_by_schedule, rule Ring_Gather_syncs) (use assms in auto)

lemma Ring_Gather_delivers_witness:
  "delivers tight_net 3 (\<lambda>r. Ring_Gather (ring_topo 3 r) wired_comm (replicate 4 (word_of_int r)) (replicate 12 0) 1 INT32 1)
     (\<lambda>r. Inr (if r = 1 then [0, 0, 0, 0, 1, 1, 1, 1, 2, 2, 2, 2] else replicate 12 0))"
proof -
  have "chunked (nat 3) (\<lambda>c. replicate 4 (word_of_int (int c))) = [0, 0, 0, 0, 1, 1, 1, 1, 2, 2, 2, 2 :: byte]"
    by code_simp
  moreover have "delivers tight_net 3 (\<lambda>r. Ring_Gather (ring_topo 3 r) wired_comm (replicate 4 (word_of_int r)) (replicate 12 0) 1 INT32 1)
     (\<lambda>r. Inr (if r = 1 then chunked (nat 3) (\<lambda>c. replicate 4 (word_of_int (int c))) else replicate 12 0))"
    by (rule Ring_Gather_delivers) simp_all
  ultimately show ?thesis by (simp only:)
qed

text \<open>
  C23: When every rank of a ring calls \<open>Scatter\<close>, all calls return true and rank \<open>r\<close>'s
  receive buffer holds block \<open>r\<close> of the root's send buffer, although the blocks travel in the
  order of the distance from the root.
\<close>

theorem Ring_Scatter_delivers:
  assumes "healthy N" "wired_ring ws comm" "0 \<le> root" "root < ws" "ws < 2 ^ 31"
    and "length (sbuf root) = nat ws * (count * GetDataTypeSize dtype)"
    and "\<And>r. length (rbuf r) = count * GetDataTypeSize dtype"
  shows "delivers N ws (\<lambda>r. Ring_Scatter (ring_topo ws r) (comm r) (sbuf r) (rbuf r) count dtype root)
     (\<lambda>r. Inr (chunk_of (count * GetDataTypeSize dtype) (sbuf root) (nat r)))"
proof -
  let ?cb = "count * GetDataTypeSize dtype"
  define s where "s = (\<lambda>r. if 0 \<le> r \<and> r < ws then chunk_of ?cb (sbuf root) (nat r) else replicate ?cb 0)"
  have "delivers N ws (\<lambda>r. Ring_Scatter (ring_topo ws r) (comm r) (sbuf r) (rbuf r) count dtype root) (\<lambda>r. Inr (s r))"
  proof (rule delivers_by_schedule, rule Ring_Scatter_syncs [OF assms(2-5,1) _ _ assms(7)])
    show "length (s r) = ?cb" for r
      using length_chunk_of [OF assms(6), of "nat r"] by (simp add: s_def)
    have "sbuf root = chunked (nat ws) (chunk_of ?cb (sbuf root))"
      using chunked_chunk_of [OF assms(6)] by simp
    also have "\<dots> = chunked (nat ws) (\<lambda>c. s (int c))"
      by (rule chunked_cong) (auto simp: s_def)
    finally show "sbuf root = chunked (nat ws) (\<lambda>c. s (int c))" .
  qed
  then show ?thesis
    by (subst delivers_cong) (auto simp: s_def)
qed

lemma Ring_Scatter_delivers_witness:
  "delivers tight_net 3 (\<lambda>r. Ring_Scatter (ring_topo 3 r) wired_comm [0, 0, 0, 0, 1, 1, 1, 1, 2, 2, 2, 2] [9, 9, 9, 9] 1 INT32 2)
     (\<lambda>r. Inr (take 4 (drop (nat r * 4) [0, 0, 0, 0, 1, 1, 1, 1, 2, 2, 2, 2])))"
  using Ring_Scatter_delivers [of tight_net 3 "\<lambda>_. wired_comm" 2 "\<lambda>_. [0, 0, 0, 0, 1, 1, 1, 1, 2, 2, 2, 2]" 1 INT32 "\<lambda>_. [9, 9, 9, 9]"]
  by (simp add: chunk_of_def)

text \<open>
  C16: When every rank of a ring (of any size from two) calls \<open>AllGather\<close>, all calls return
  true and every rank has the blocks of all ranks in rank order. Even ranks send first and odd
  ranks receive first; no schedule deadlocks, not even with an odd number of ranks.
\<close>

theorem Ring_AllGather_delivers:
  assumes "healthy N" "wired_ring ws comm" "2 \<le> ws" "ws < 2 ^ 31"
    and "\<And>r. length (d r) = count * GetDataTypeSize dtype"
    and "\<And>r. length (rbuf r) = nat ws * (count * GetDataTypeSize dtype)"
  shows "delivers N ws (\<lambda>r. Ring_AllGather (ring_topo ws r) (comm r) (d r) (rbuf r) count dtype)
     (\<lambda>r. Inr (chunked (nat ws) (\<lambda>c. d (int c))))"
  by (rule delivers_by_schedule, rule Ring_AllGather_syncs) (use assms in auto)

lemma Ring_AllGather_delivers_witness:
  "delivers tight_net 3 (\<lambda>r. Ring_AllGather (ring_topo 3 r) wired_comm (replicate 4 (word_of_int r)) (replicate 12 0) 1 INT32)
     (\<lambda>r. Inr [0, 0, 0, 0, 1, 1, 1, 1, 2, 2, 2, 2])"
proof -
  have "chunked (nat 3) (\<lambda>c. replicate 4 (word_of_int (int c))) = [0, 0, 0, 0, 1, 1, 1, 1, 2, 2, 2, 2 :: byte]"
    by code_simp
  moreover have "delivers tight_net 3 (\<lambda>r. Ring_AllGather (ring_topo 3 r) wired_comm (replicate 4 (word_of_int r)) (replicate 12 0) 1 INT32)
     (\<lambda>r. Inr (chunked (nat 3) (\<lambda>c. replicate 4 (word_of_int (int c)))))"
    by (rule Ring_AllGather_delivers) simp_all
  ultimately show ?thesis by (simp only:)
qed

text \<open>
  C22: When every rank of a ring calls \<open>AllToAll\<close>, all calls return true and block \<open>c\<close> of
  rank \<open>r\<close>'s receive buffer is block \<open>r\<close> of rank \<open>c\<close>'s send buffer.
\<close>

theorem Ring_AllToAll_delivers:
  assumes "healthy N" "wired_ring ws comm" "0 < ws" "ws < 2 ^ 31"
    and "\<And>r. length (d r) = nat ws * (count * GetDataTypeSize dtype)"
    and "\<And>r. length (rbuf r) = nat ws * (count * GetDataTypeSize dtype)"
  shows "delivers N ws (\<lambda>r. Ring_AllToAll (ring_topo ws r) (comm r) (d r) (rbuf r) count dtype)
     (\<lambda>r. Inr (chunked (nat ws) (\<lambda>c. chunk_of (count * GetDataTypeSize dtype) (d (int c)) (nat r))))"
proof -
  let ?cb = "count * GetDataTypeSize dtype"
  define S where "S = (\<lambda>c r. if 0 \<le> r \<and> r < ws then chunk_of ?cb (d (int c)) (nat r) else replicate ?cb 0)"
  define buf where "buf = (\<lambda>r. chunked (nat ws) (\<lambda>j. S (nat r) (int j)))"
  have len: "length (S c r) = ?cb" for c r
    using length_chunk_of [OF assms(5), of "nat r"] by (simp add: S_def)
  have buf: "buf r = d r" if "0 \<le> r" "r < ws" for r
  proof -
    have "buf r = chunked (nat ws) (chunk_of ?cb (d r))"
      unfolding buf_def by (rule chunked_cong) (use that in \<open>auto simp: S_def\<close>)
    then show ?thesis
      using chunked_chunk_of [OF assms(5)] by simp
  qed
  have "delivers N ws (\<lambda>r. Ring_AllToAll (ring_topo ws r) (comm r) (buf r) (rbuf r) count dtype)
      (\<lambda>r. Inr (chunked (nat ws) (\<lambda>c. S c r)))"
    by (rule delivers_by_schedule, rule Ring_AllToAll_syncs [OF assms(2-4,1) len _ assms(6)]) (simp add: buf_def)
  then show ?thesis
    by (subst delivers_cong) (auto simp: buf S_def)
qed

lemma Ring_AllToAll_delivers_witness:
  "delivers tight_net 2 (\<lambda>r. Ring_AllToAll (ring_topo 2 r) wired_comm
        (if r = 0 then [0, 0, 0, 0, 1, 1, 1, 1] else [2, 2, 2, 2, 3, 3, 3, 3]) (replicate 8 0) 1 INT32)
     (\<lambda>r. Inr (chunked (nat 2) (\<lambda>c. chunk_of (1 * GetDataTypeSize INT32)
        (if int c = 0 then [0, 0, 0, 0, 1, 1, 1, 1] else [2, 2, 2, 2, 3, 3, 3, 3]) (nat r)))) \<and>
   chunked (nat 2) (\<lambda>c. chunk_of (1 * GetDataTypeSize INT32)
        (if int c = 0 then [0, 0, 0, 0, 1, 1, 1, 1] else [2, 2, 2, 2, 3, 3, 3, 3]) 1) = [1, 1, 1, 1, 3, 3, 3, 3]"
proof
  show "delivers tight_net 2 (\<lambda>r. Ring_AllToAll (ring_topo 2 r) wired_comm
        (if r = 0 then [0, 0, 0, 0, 1, 1, 1, 1] else [2, 2, 2, 2, 3, 3, 3, 3]) (replicate 8 0) 1 INT32)
     (\<lambda>r. Inr (chunked (nat 2) (\<lambda>c. chunk_of (1 * GetDataTypeSize INT32)
        (if int c = 0 then [0, 0, 0, 0, 1, 1, 1, 1] else [2, 2, 2, 2, 3, 3, 3, 3]) (nat r))))"
    by (rule Ring_AllToAll_delivers) simp_all
qed code_simp

section \<open>Reducing data\<close>

text \<open>
  C21: When every rank of a ring calls \<open>Reduce\<close> with SUM, MAX or MIN on integers, all calls
  return true and each element of the root's receive buffer is the combination of that element
  of all ranks; the receive buffers of the other ranks are unchanged.
\<close>

theorem Ring_Reduce_delivers:
  assumes "healthy N" "wired_ring ws comm" "0 \<le> root" "root < ws" "2 \<le> ws"
    and "int_type dtype" "op \<noteq> OpAVG"
    and "\<And>r. length (d r) = count * GetDataTypeSize dtype" "length (rbuf root) = count * GetDataTypeSize dtype"
  shows "delivers N ws (\<lambda>r. Ring_Reduce F (ring_topo ws r) (comm r) (d r) (rbuf r) count dtype op root)
     (\<lambda>r. Inr (if r = root then reduced dtype op count (nat ws) (\<lambda>q. d (int q)) else rbuf r))"
proof -
  let ?R = "reduce_from (reduce_bytes F count dtype op ws) (nat ws) (\<lambda>q. d (at ws root q)) 0"
  have "?R = reduced dtype op count (nat ws) (\<lambda>q. d (int q))"
    by (rule reduce_from_reduced) (use assms in auto)
  moreover have "delivers N ws (\<lambda>r. Ring_Reduce F (ring_topo ws r) (comm r) (d r) (rbuf r) count dtype op root)
     (\<lambda>r. Inr (if r = root then ?R else rbuf r))"
    by (rule delivers_by_schedule, rule Ring_Reduce_syncs) (use assms in auto)
  ultimately show ?thesis by (simp only:)
qed

lemma Ring_Reduce_delivers_witness:
  "delivers tight_net 3 (\<lambda>r. Ring_Reduce some_fp (ring_topo 3 r) wired_comm [word_of_int r, 1, 0, 0] [9, 9, 9, 9] 1 INT32 OpSUM 2)
     (\<lambda>r. Inr (if r = 2 then reduced INT32 OpSUM 1 (nat 3) (\<lambda>q. [word_of_int (int q), 1, 0, 0]) else [9, 9, 9, 9])) \<and>
   reduced INT32 OpSUM 1 (nat 3) (\<lambda>q. [word_of_int (int q), 1, 0, 0]) = [3, 3, 0, 0]"
proof
  show "delivers tight_net 3 (\<lambda>r. Ring_Reduce some_fp (ring_topo 3 r) wired_comm [word_of_int r, 1, 0, 0] [9, 9, 9, 9] 1 INT32 OpSUM 2)
     (\<lambda>r. Inr (if r = 2 then reduced INT32 OpSUM 1 (nat 3) (\<lambda>q. [word_of_int (int q), 1, 0, 0]) else [9, 9, 9, 9]))"
    by (rule Ring_Reduce_delivers) (simp_all add: int_type_def)
qed code_simp

text \<open>
  C17: When every rank of a ring calls \<open>ReduceScatter\<close> with SUM, MAX or MIN on integers, all
  calls return true and rank \<open>r\<close> gets block \<open>r\<close> of the element-wise combination of all send
  buffers.
\<close>

theorem Ring_ReduceScatter_delivers:
  assumes "healthy N" "wired_ring ws comm" "2 \<le> ws" "ws < 2 ^ 31" "int_type dtype" "op \<noteq> OpAVG"
    and len: "\<And>r. length (d r) = nat ws * (count * GetDataTypeSize dtype)"
    and "\<And>r. length (rbuf r) = count * GetDataTypeSize dtype"
  shows "delivers N ws (\<lambda>r. Ring_ReduceScatter F (ring_topo ws r) (comm r) (d r) (rbuf r) count dtype op)
     (\<lambda>r. Inr (chunk_of (count * GetDataTypeSize dtype) (reduced dtype op (count * nat ws) (nat ws) (\<lambda>q. d (int q))) (nat r)))"
proof -
  let ?R = "reduce_bytes F (count * nat ws) dtype op ws"
  have "reduce_from ?R (nat ws) (\<lambda>q. d (int q)) 0 = reduce_from ?R (nat ws) (\<lambda>q. d (at ws 0 q)) 0"
    using assms(3) by (auto simp: reduce_from_def at_def prv_0 intro!: foldr_cong)
  also have "\<dots> = reduced dtype op (count * nat ws) (nat ws) (\<lambda>q. d (int q))"
    by (rule reduce_from_reduced) (use assms in \<open>auto simp: ac_simps\<close>)
  finally have eq: "reduce_from ?R (nat ws) (\<lambda>q. d (int q)) 0 = reduced dtype op (count * nat ws) (nat ws) (\<lambda>q. d (int q))" .
  have "delivers N ws (\<lambda>r. Ring_ReduceScatter F (ring_topo ws r) (comm r) (d r) (rbuf r) count dtype op)
     (\<lambda>r. Inr (chunk_of (count * GetDataTypeSize dtype) (reduce_from ?R (nat ws) (\<lambda>q. d (int q)) 0) (nat r)))"
    by (rule delivers_by_schedule, rule Ring_ReduceScatter_syncs) (use assms in auto)
  then show ?thesis
    unfolding eq .
qed

lemma Ring_ReduceScatter_delivers_witness:
  "delivers tight_net 2 (\<lambda>r. Ring_ReduceScatter some_fp (ring_topo 2 r) wired_comm [word_of_int r, 1, 0, 0, 5, 0, 0, 0] [9, 9, 9, 9] 1 INT32 OpMAX)
     (\<lambda>r. Inr (chunk_of (1 * GetDataTypeSize INT32) (reduced INT32 OpMAX (1 * nat 2) (nat 2) (\<lambda>q. [word_of_int (int q), 1, 0, 0, 5, 0, 0, 0])) (nat r))) \<and>
   chunk_of 4 (reduced INT32 OpMAX 2 2 (\<lambda>q. [word_of_int (int q), 1, 0, 0, 5, 0, 0, 0])) 0 = [1, 1, 0, 0]"
proof
  show "delivers tight_net 2 (\<lambda>r. Ring_ReduceScatter some_fp (ring_topo 2 r) wired_comm [word_of_int r, 1, 0, 0, 5, 0, 0, 0] [9, 9, 9, 9] 1 INT32 OpMAX)
     (\<lambda>r. Inr (chunk_of (1 * GetDataTypeSize INT32) (reduced INT32 OpMAX (1 * nat 2) (nat 2) (\<lambda>q. [word_of_int (int q), 1, 0, 0, 5, 0, 0, 0])) (nat r)))"
    by (rule Ring_ReduceScatter_delivers) (simp_all add: int_type_def)
qed code_simp

lemma AllReduce_delivers:
  assumes "healthy N" "wired_ring ws comm" "2 \<le> ws" "ws < 2 ^ 31" "int_type dtype" "op \<noteq> OpAVG"
    and "ws = 2 \<or> fits ws count" "count < 2 ^ 64"
    and len: "\<And>r. length (d r) = count * GetDataTypeSize dtype" "\<And>r. length (rbuf r) = count * GetDataTypeSize dtype"
  shows "delivers N ws (\<lambda>r. Ring_AllReduce F (ring_topo ws r) (comm r) (d r) (rbuf r) count dtype op)
     (\<lambda>r. Inr (reduced dtype op count (nat ws) (\<lambda>q. d (int q))))"
proof (cases "ws = 2")
  case True
  let ?two = "\<lambda>r. reduce_bytes F count dtype op 2 (d (1 - r)) (d r)"
  have two: "?two r = reduced dtype op count (nat ws) (\<lambda>q. d (int q))" if "0 \<le> r" "r < ws" for r
  proof -
    have "r = 0 \<or> r = 1"
      using that True by linarith
    then have "distinct (nat (1 - r) # [nat r])" "set (nat (1 - r) # [nat r]) = {0..<nat ws}"
      using True by (auto simp: numeral_2_eq_2)
    then have "fold (\<lambda>q acc. reduce_bytes F count dtype op 2 acc (d (int q))) [nat r] (d (int (nat (1 - r)))) =
        reduced dtype op count (nat ws) (\<lambda>q. d (int q))"
      by (rule fold_reduce_bytes [OF assms(5,6), where d = "\<lambda>q. d (int q)"]) (rule len)
    then show ?thesis
      using that True by simp
  qed
  have "delivers N ws (\<lambda>r. Ring_AllReduce F (ring_topo ws r) (comm r) (d r) (rbuf r) count dtype op) (\<lambda>r. Inr (?two r))"
    unfolding True
    by (rule delivers_by_schedule, rule Ring_AllReduce_two_syncs) (use assms True in auto)
  then show ?thesis
    by (subst delivers_cong) (auto simp: two)
next
  case False
  have "delivers N ws (\<lambda>r. Ring_AllReduce F (ring_topo ws r) (comm r) (d r) (rbuf r) count dtype op)
      (\<lambda>r. Inr (ring_allreduced F count dtype op ws d))"
    by (rule delivers_by_schedule, rule Ring_AllReduce_syncs) (use assms False in auto)
  moreover have "ring_allreduced F count dtype op ws d = reduced dtype op count (nat ws) (\<lambda>q. d (int q))"
    by (rule ring_allreduced_reduced) (use assms False in auto)
  ultimately show ?thesis by simp
qed

text \<open>
  C1: When every rank of a ring calls \<open>AllReduce\<close> with SUM, MAX or MIN on integers and the
  chunks fit (all chunks but the last are full; two ranks do not use chunks), all calls return
  true and every rank has the element-wise combination of all send buffers, although each chunk
  is combined in a different order of the ranks.
\<close>

theorem Ring_AllReduce_delivers:
  assumes "healthy N" "wired_ring ws comm" "2 \<le> ws" "ws < 2 ^ 31" "int_type dtype" "op \<noteq> OpAVG"
    and "ws = 2 \<or> fits ws count" "count < 2 ^ 64"
    and len: "\<And>r. length (d r) = count * GetDataTypeSize dtype" "\<And>r. length (rbuf r) = count * GetDataTypeSize dtype"
  shows "delivers N ws (\<lambda>r. Ring_AllReduce F (ring_topo ws r) (comm r) (d r) (rbuf r) count dtype op)
     (\<lambda>r. Inr (reduced dtype op count (nat ws) (\<lambda>q. d (int q))))"
  by (rule AllReduce_delivers) (use assms in auto)

lemma Ring_AllReduce_delivers_witness:
  "delivers tight_net 3 (\<lambda>r. Ring_AllReduce some_fp (ring_topo 3 r) wired_comm (replicate 16 (word_of_int r)) (replicate 16 0) 4 INT32 OpSUM)
     (\<lambda>r. Inr (reduced INT32 OpSUM 4 (nat 3) (\<lambda>q. replicate 16 (word_of_int (int q))))) \<and>
   reduced INT32 OpSUM 4 (nat 3) (\<lambda>q. replicate 16 (word_of_int (int q))) = replicate 16 3"
proof
  show "delivers tight_net 3 (\<lambda>r. Ring_AllReduce some_fp (ring_topo 3 r) wired_comm (replicate 16 (word_of_int r)) (replicate 16 0) 4 INT32 OpSUM)
     (\<lambda>r. Inr (reduced INT32 OpSUM 4 (nat 3) (\<lambda>q. replicate 16 (word_of_int (int q)))))"
    by (rule Ring_AllReduce_delivers) (simp_all add: int_type_def fits_def ring_chunk_size_def)
qed code_simp

text \<open>
  C15: For 32-bit integers and SUM that is the sum, modulo \<open>2 ^ 32\<close>, of the mathematical
  values: every rank's element \<open>i\<close> is the sum of element \<open>i\<close> of all ranks.
\<close>

theorem Ring_AllReduce_sums:
  assumes "healthy N" "wired_ring ws comm" "2 \<le> ws" "ws < 2 ^ 31"
    and "ws = 2 \<or> fits ws count" "count < 2 ^ 64"
    and "\<And>r. length (d r) = count * 4" "\<And>r. length (rbuf r) = count * 4"
  shows "delivers N ws (\<lambda>r. Ring_AllReduce F (ring_topo ws r) (comm r) (d r) (rbuf r) count INT32 OpSUM)
     (\<lambda>r. Inr (le_array 4 (map (\<lambda>i. word_of_int (\<Sum>q<nat ws. sint (view32 count (d (int q)) ! i)) :: 32 word) [0..<count])))"
proof -
  have "delivers N ws (\<lambda>r. Ring_AllReduce F (ring_topo ws r) (comm r) (d r) (rbuf r) count INT32 OpSUM)
      (\<lambda>r. Inr (reduced INT32 OpSUM count (nat ws) (\<lambda>q. d (int q))))"
    by (rule AllReduce_delivers) (use assms in \<open>auto simp: int_type_def\<close>)
  then show ?thesis
    using assms(3) by (simp add: reduced_sum)
qed

lemma Ring_AllReduce_sums_witness:
  "delivers tight_net 3 (\<lambda>r. Ring_AllReduce some_fp (ring_topo 3 r) wired_comm (le_array 4 [word_of_int r, -1, 7 :: 32 word]) (replicate 12 0) 3 INT32 OpSUM)
     (\<lambda>r. Inr (le_array 4 [3, -3, 21 :: 32 word]))"
proof -
  have "delivers tight_net 3 (\<lambda>r. Ring_AllReduce some_fp (ring_topo 3 r) wired_comm (le_array 4 [word_of_int r, -1, 7 :: 32 word]) (replicate 12 0) 3 INT32 OpSUM)
     (\<lambda>r. Inr (le_array 4 (map (\<lambda>i. word_of_int (\<Sum>q<nat 3. sint (view32 3 (le_array 4 [word_of_int (int q), -1, 7 :: 32 word]) ! i)) :: 32 word) [0..<3])))"
    by (rule Ring_AllReduce_sums) (simp_all add: fits_def ring_chunk_size_def)
  moreover have "map (\<lambda>i. word_of_int (\<Sum>q<nat 3. sint (view32 3 (le_array 4 [word_of_int (int q), -1, 7 :: 32 word]) ! i))) [0..<3] = [3, -3, 21 :: 32 word]"
    by code_simp
  ultimately show ?thesis by (simp only:)
qed

text \<open>
  C32: Where the chunks do not fit, rank \<open>ws - 1\<close> of a ring of at least three ranks reads
  beyond the end of its buffer in the first round of \<open>AllReduce\<close>: the number of elements left
  for the last chunk is negative and wraps around as a \<open>size_t\<close>. Five elements on four ranks
  are enough.
\<close>

theorem Ring_AllReduce_misfit:
  assumes "wired_ring ws comm" "3 \<le> ws" "ws < 2 ^ 31" "\<not> fits ws count" "count < 2 ^ 63"
    and "length d = count * GetDataTypeSize dtype" "length rbuf = count * GetDataTypeSize dtype"
  shows "Ring_AllReduce F (ring_topo ws (ws - 1)) (comm (ws - 1)) d rbuf count dtype op = io_fail OutOfBounds"
  by (rule misfit_out_of_bounds) (use assms in auto)

lemma Ring_AllReduce_misfit_witness:
  "Ring_AllReduce some_fp (ring_topo 4 (4 - 1)) wired_comm (replicate 20 1) (replicate 20 0) 5 INT32 OpSUM = io_fail OutOfBounds"
  by (rule Ring_AllReduce_misfit [where comm = "\<lambda>_. wired_comm"]) (simp_all add: fits_def ring_chunk_size_def)

text \<open>
  AVG on two ranks is the average, rounded towards zero, of the two elements (added at
  their width).
\<close>

theorem Ring_AllReduce_AVG_two:
  assumes "healthy N" "wired_ring 2 comm"
    and "\<And>r. length (d r) = count * 4" "\<And>r. length (rbuf r) = count * 4"
  shows "delivers N 2 (\<lambda>r. Ring_AllReduce F (ring_topo 2 r) (comm r) (d r) (rbuf r) count INT32 OpAVG)
     (\<lambda>r. Inr (le_array 4 (map2 (\<lambda>a b. word_of_int (sint (a + b) sdiv 2) :: 32 word) (view32 count (d 0)) (view32 count (d 1)))))"
proof -
  let ?two = "\<lambda>r. reduce_bytes F count INT32 OpAVG 2 (d (1 - r)) (d r)"
  have "delivers N 2 (\<lambda>r. Ring_AllReduce F (ring_topo 2 r) (comm r) (d r) (rbuf r) count INT32 OpAVG) (\<lambda>r. Inr (?two r))"
    by (rule delivers_by_schedule, rule Ring_AllReduce_two_syncs) (use assms in auto)
  moreover have "?two r = le_array 4 (map2 (\<lambda>a b. word_of_int (sint (a + b) sdiv 2) :: 32 word) (view32 count (d 0)) (view32 count (d 1)))"
    if "0 \<le> r" "r < 2" for r
  proof -
    have pair: "map2 f xs ys = map2 (\<lambda>a b. f b a) ys xs" for f :: "32 word \<Rightarrow> 32 word \<Rightarrow> 32 word" and xs ys
      by (induction xs ys rule: list_induct2') auto
    have "r = 0 \<or> r = 1"
      using that by linarith
    then show ?thesis
    proof
      assume "r = 0"
      then show ?thesis
        using assms(3) by (subst pair) (simp add: reduce_bytes_as reduce_as_map2 combine_def int_arith_def view32_def cong: map_cong)
    next
      assume "r = 1"
      then show ?thesis
        using assms(3) by (simp add: reduce_bytes_as reduce_as_map2 combine_def int_arith_def view32_def add.commute cong: map_cong)
    qed
  qed
  ultimately show ?thesis
    by (subst (asm) delivers_cong) auto
qed

lemma Ring_AllReduce_AVG_two_witness:
  "delivers tight_net 2 (\<lambda>r. Ring_AllReduce some_fp (ring_topo 2 r) wired_comm (le_array 4 [word_of_int (10 * r), -7 :: 32 word]) (replicate 8 0) 2 INT32 OpAVG)
     (\<lambda>r. Inr (le_array 4 [5, -7 :: 32 word]))"
proof -
  let ?v = "map2 (\<lambda>a b. word_of_int (sint (a + b) sdiv 2) :: 32 word) (view32 2 (le_array 4 [word_of_int (10 * 0), -7 :: 32 word]))
      (view32 2 (le_array 4 [word_of_int (10 * 1), -7 :: 32 word]))"
  have "delivers tight_net 2 (\<lambda>r. Ring_AllReduce some_fp (ring_topo 2 r) wired_comm (le_array 4 [word_of_int (10 * r), -7 :: 32 word]) (replicate 8 0) 2 INT32 OpAVG)
     (\<lambda>r. Inr (le_array 4 ?v))"
    by (rule Ring_AllReduce_AVG_two) simp_all
  moreover have "?v = [5, -7 :: 32 word]"
    by code_simp
  ultimately show ?thesis by (simp only:)
qed

text \<open>
  C33: AVG on three ranks is not the average: \<open>PerformReduce\<close> divides by the number of ranks
  each time it combines two buffers. Three ranks that all contribute \<open>6\<close> get \<open>3\<close>.
\<close>

theorem Ring_AllReduce_AVG_three:
  "delivers tight_net 3 (\<lambda>r. Ring_AllReduce F (ring_topo 3 r) wired_comm (le_array 4 [6, 6, 6 :: 32 word]) (replicate 12 0) 3 INT32 OpAVG)
     (\<lambda>r. Inr (le_array 4 [3, 3, 3 :: 32 word]))"
proof -
  have "delivers tight_net 3 (\<lambda>r. Ring_AllReduce F (ring_topo 3 r) wired_comm (le_array 4 [6, 6, 6 :: 32 word]) (replicate 12 0) 3 INT32 OpAVG)
     (\<lambda>r. Inr (ring_allreduced F 3 INT32 OpAVG 3 (\<lambda>_. le_array 4 [6, 6, 6 :: 32 word])))"
    by (rule delivers_by_schedule, rule Ring_AllReduce_syncs) (simp_all add: fits_def ring_chunk_size_def)
  moreover have "ring_allreduced F 3 INT32 OpAVG 3 (\<lambda>_. le_array 4 [6, 6, 6 :: 32 word]) = le_array 4 [3, 3, 3 :: 32 word]"
    by code_simp
  ultimately show ?thesis by (simp only:)
qed

section \<open>Synchronising\<close>

text \<open>
  C30: When every rank of a ring calls \<open>Barrier\<close>, every call returns true, whatever the
  schedule.
\<close>

theorem Ring_Barrier_delivers:
  assumes "healthy N" "wired_ring ws comm" "2 \<le> ws"
  shows "delivers N ws (\<lambda>r. Ring_Barrier (ring_topo ws r) (comm r)) (\<lambda>r. Inr ())"
  by (rule delivers_by_schedule, rule Ring_Barrier_syncs) (use assms in auto)

lemma Ring_Barrier_delivers_witness:
  "delivers tight_net 5 (\<lambda>r. Ring_Barrier (ring_topo 5 r) wired_comm) (\<lambda>r. Inr ())"
  by (rule Ring_Barrier_delivers [where comm = "\<lambda>_. wired_comm"]) simp_all

end
