(* ===== verification/FullMesh.thy ===== *)
theory FullMesh
  imports Topology
begin

text \<open>
  \<open>TopologyFullMesh\<close> (\<open>src/topology_fullmesh.cpp\<close>): every rank has a transport to every
  other. As in the ring, a program returns the buffer its collective writes, or the error that
  made it return false.
\<close>

section \<open>Neighbours\<close>

definition FullMesh_GetNeighbors :: "topology \<Rightarrow> int \<Rightarrow> int list" where
  "FullMesh_GetNeighbors t r = filter (\<lambda>i. i \<noteq> r) (map int [0..<nat (world_size t)])"

definition FullMesh_ShouldConnect :: "int \<Rightarrow> int \<Rightarrow> bool" where
  "FullMesh_ShouldConnect my_rank peer_rank \<longleftrightarrow> my_rank < peer_rank"

section \<open>One-to-all and all-to-one\<close>

text \<open>
  The root of \<open>Broadcast\<close> sends to all peers at once, from one thread each, joins the threads
  and then looks at their results. A thread without a transport fails on its own.
\<close>

definition FullMesh_Broadcast :: "topology \<Rightarrow> Communicator \<Rightarrow> bytes \<Rightarrow> nat \<Rightarrow> DataType \<Rightarrow> int \<Rightarrow> bytes io" where
  "FullMesh_Broadcast t comm buffer count dtype root =
     (let chunk_bytes = GetDataTypeSize dtype * count in
      if rank t = root then
        let peers = filter (\<lambda>peer. peer \<noteq> root) (map int [0..<nat (world_size t)]) in
        bind_io (if peers = [] then io_return [] else io_load buffer 0 chunk_bytes) (\<lambda>data.
        Ops (map (\<lambda>peer. case GetTransport comm peer of None \<Rightarrow> OFail | Some tr \<Rightarrow> OSend tr data) peers)
          (\<lambda>results. if \<forall>res\<in>set results. res = Sent then io_return buffer else io_fail SendFailed))
      else
        bind_io (get_transport comm root) (\<lambda>transport.
        bind_io (io_recv transport chunk_bytes) (\<lambda>data.
        io_store buffer 0 data)))"

definition FullMesh_Gather ::
  "topology \<Rightarrow> Communicator \<Rightarrow> bytes \<Rightarrow> bytes \<Rightarrow> nat \<Rightarrow> DataType \<Rightarrow> int \<Rightarrow> bytes io" where
  "FullMesh_Gather t comm send_buf recv_buf count dtype root =
     (let chunk_bytes = GetDataTypeSize dtype * count in
      if rank t = root then
        bind_io (io_load send_buf 0 chunk_bytes) (\<lambda>own.
        bind_io (io_store recv_buf (to_size root * chunk_bytes) own) (\<lambda>recv_buf.
        for_each [0..<nat (world_size t)] (\<lambda>peer recv_buf.
          if int peer = root then io_return recv_buf
          else
            bind_io (get_transport comm (int peer)) (\<lambda>transport.
            bind_io (io_recv transport chunk_bytes) (\<lambda>data.
            io_store recv_buf (peer * chunk_bytes) data))) recv_buf))
      else
        bind_io (get_transport comm root) (\<lambda>transport.
        bind_io (io_load send_buf 0 chunk_bytes) (\<lambda>data.
        bind_io (io_send transport data) (\<lambda>_. io_return recv_buf))))"

definition FullMesh_Scatter ::
  "topology \<Rightarrow> Communicator \<Rightarrow> bytes \<Rightarrow> bytes \<Rightarrow> nat \<Rightarrow> DataType \<Rightarrow> int \<Rightarrow> bytes io" where
  "FullMesh_Scatter t comm send_buf recv_buf count dtype root =
     (let chunk_bytes = GetDataTypeSize dtype * count in
      if rank t = root then
        bind_io (io_load send_buf (to_size root * chunk_bytes) chunk_bytes) (\<lambda>own.
        bind_io (io_store recv_buf 0 own) (\<lambda>recv_buf.
        for_each [0..<nat (world_size t)] (\<lambda>peer recv_buf.
          if int peer = root then io_return recv_buf
          else
            bind_io (get_transport comm (int peer)) (\<lambda>transport.
            bind_io (io_load send_buf (peer * chunk_bytes) chunk_bytes) (\<lambda>data.
            bind_io (io_send transport data) (\<lambda>_. io_return recv_buf)))) recv_buf))
      else
        bind_io (get_transport comm root) (\<lambda>transport.
        bind_io (io_recv transport chunk_bytes) (\<lambda>data.
        io_store recv_buf 0 data)))"

definition FullMesh_Reduce ::
  "fp \<Rightarrow> topology \<Rightarrow> Communicator \<Rightarrow> bytes \<Rightarrow> bytes \<Rightarrow> nat \<Rightarrow> DataType \<Rightarrow> ReduceOp \<Rightarrow> int \<Rightarrow> bytes io" where
  "FullMesh_Reduce F t comm send_buf recv_buf count dtype op root =
     (let chunk_bytes = GetDataTypeSize dtype * count in
      if rank t = root then
        bind_io (io_load send_buf 0 chunk_bytes) (\<lambda>own.
        bind_io (io_store recv_buf 0 own) (\<lambda>recv_buf.
        for_each [0..<nat (world_size t)] (\<lambda>peer recv_buf.
          if int peer = root then io_return recv_buf
          else
            bind_io (get_transport comm (int peer)) (\<lambda>transport.
            bind_io (io_recv transport chunk_bytes) (\<lambda>temp_buffer.
            io_reduce F temp_buffer recv_buf count dtype op (world_size t)))) recv_buf))
      else
        bind_io (get_transport comm root) (\<lambda>transport.
        bind_io (io_load send_buf 0 chunk_bytes) (\<lambda>data.
        bind_io (io_send transport data) (\<lambda>_. io_return recv_buf))))"

section \<open>All-to-all, peer by peer\<close>

text \<open>With a larger peer a rank sends first, with a smaller one it receives first.\<close>

definition FullMesh_AllGather_step ::
  "topology \<Rightarrow> Communicator \<Rightarrow> bytes \<Rightarrow> nat \<Rightarrow> nat \<Rightarrow> bytes \<Rightarrow> bytes io" where
  "FullMesh_AllGather_step t comm send_buf chunk_bytes peer recv_buf =
     (if int peer = rank t then io_return recv_buf
      else
        bind_io (get_transport comm (int peer)) (\<lambda>transport.
        if rank t < int peer then
          bind_io (io_load send_buf 0 chunk_bytes) (\<lambda>data.
          bind_io (io_send transport data) (\<lambda>_.
          bind_io (io_recv transport chunk_bytes) (\<lambda>data.
          io_store recv_buf (peer * chunk_bytes) data)))
        else
          bind_io (io_recv transport chunk_bytes) (\<lambda>data.
          bind_io (io_store recv_buf (peer * chunk_bytes) data) (\<lambda>recv_buf.
          bind_io (io_load send_buf 0 chunk_bytes) (\<lambda>data.
          bind_io (io_send transport data) (\<lambda>_. io_return recv_buf))))))"

definition FullMesh_AllGather ::
  "topology \<Rightarrow> Communicator \<Rightarrow> bytes \<Rightarrow> bytes \<Rightarrow> nat \<Rightarrow> DataType \<Rightarrow> bytes io" where
  "FullMesh_AllGather t comm send_buf recv_buf count dtype =
     (let chunk_bytes = GetDataTypeSize dtype * count in
      bind_io (io_load send_buf 0 chunk_bytes) (\<lambda>own.
      bind_io (io_store recv_buf (to_size (rank t) * chunk_bytes) own) (\<lambda>recv_buf.
      for_each [0..<nat (world_size t)] (FullMesh_AllGather_step t comm send_buf chunk_bytes) recv_buf)))"

definition FullMesh_AllToAll_step ::
  "topology \<Rightarrow> Communicator \<Rightarrow> bytes \<Rightarrow> nat \<Rightarrow> nat \<Rightarrow> bytes \<Rightarrow> bytes io" where
  "FullMesh_AllToAll_step t comm send_buf chunk_bytes peer recv_buf =
     (if int peer = rank t then io_return recv_buf
      else
        bind_io (get_transport comm (int peer)) (\<lambda>transport.
        if rank t < int peer then
          bind_io (io_load send_buf (peer * chunk_bytes) chunk_bytes) (\<lambda>data.
          bind_io (io_send transport data) (\<lambda>_.
          bind_io (io_recv transport chunk_bytes) (\<lambda>data.
          io_store recv_buf (peer * chunk_bytes) data)))
        else
          bind_io (io_recv transport chunk_bytes) (\<lambda>data.
          bind_io (io_store recv_buf (peer * chunk_bytes) data) (\<lambda>recv_buf.
          bind_io (io_load send_buf (peer * chunk_bytes) chunk_bytes) (\<lambda>data.
          bind_io (io_send transport data) (\<lambda>_. io_return recv_buf))))))"

definition FullMesh_AllToAll ::
  "topology \<Rightarrow> Communicator \<Rightarrow> bytes \<Rightarrow> bytes \<Rightarrow> nat \<Rightarrow> DataType \<Rightarrow> bytes io" where
  "FullMesh_AllToAll t comm send_buf recv_buf count dtype =
     (let chunk_bytes = GetDataTypeSize dtype * count in
      bind_io (io_load send_buf (to_size (rank t) * chunk_bytes) chunk_bytes) (\<lambda>own.
      bind_io (io_store recv_buf (to_size (rank t) * chunk_bytes) own) (\<lambda>recv_buf.
      for_each [0..<nat (world_size t)] (FullMesh_AllToAll_step t comm send_buf chunk_bytes) recv_buf)))"

section \<open>Recursive doubling\<close>

text \<open>The values of \<open>mask\<close> in \<open>while (mask < world_size)\<close>, which doubles it.\<close>

function masks :: "int \<Rightarrow> int \<Rightarrow> int list" where
  "masks msk ws = (if 0 < msk \<and> msk < ws then msk # masks (msk * 2) ws else [])"
  by pat_completeness auto
termination
  by (relation "measure (\<lambda>(msk, ws). nat (ws - msk))") auto

declare masks.simps [simp del]

text \<open>The exchange of \<open>n\<close> bytes with a peer: what the peer sent.\<close>

definition FullMesh_swap :: "topology \<Rightarrow> int \<Rightarrow> int \<Rightarrow> bytes \<Rightarrow> nat \<Rightarrow> bytes io" where
  "FullMesh_swap t peer transport buf n =
     (if rank t < peer then
        bind_io (io_load buf 0 n) (\<lambda>data.
        bind_io (io_send transport data) (\<lambda>_.
        io_recv transport n))
      else
        bind_io (io_recv transport n) (\<lambda>temp_buffer.
        bind_io (io_load buf 0 n) (\<lambda>data.
        bind_io (io_send transport data) (\<lambda>_. io_return temp_buffer))))"

definition FullMesh_AllReduce_step ::
  "fp \<Rightarrow> topology \<Rightarrow> Communicator \<Rightarrow> nat \<Rightarrow> DataType \<Rightarrow> ReduceOp \<Rightarrow> int \<Rightarrow> bytes \<Rightarrow> bytes io" where
  "FullMesh_AllReduce_step F t comm count dtype op msk recv_buf =
     (let peer = xor (rank t) msk in
      if peer < world_size t then
        bind_io (get_transport comm peer) (\<lambda>transport.
        bind_io (FullMesh_swap t peer transport recv_buf (GetDataTypeSize dtype * count)) (\<lambda>temp_buffer.
        io_reduce F temp_buffer recv_buf count dtype op (world_size t)))
      else io_return recv_buf)"

definition FullMesh_AllReduce ::
  "fp \<Rightarrow> topology \<Rightarrow> Communicator \<Rightarrow> bytes \<Rightarrow> bytes \<Rightarrow> nat \<Rightarrow> DataType \<Rightarrow> ReduceOp \<Rightarrow> bytes io" where
  "FullMesh_AllReduce F t comm send_buf recv_buf count dtype op =
     (let chunk_bytes = GetDataTypeSize dtype * count in
      bind_io (io_load send_buf 0 chunk_bytes) (\<lambda>own.
      bind_io (io_store recv_buf 0 own) (\<lambda>recv_buf.
      for_each (masks 1 (world_size t)) (FullMesh_AllReduce_step F t comm count dtype op) recv_buf)))"

text \<open>\<open>ReduceScatter\<close> does the same on the whole buffer, and reduces it block by block.\<close>

definition FullMesh_reduce_blocks ::
  "fp \<Rightarrow> int \<Rightarrow> nat \<Rightarrow> DataType \<Rightarrow> ReduceOp \<Rightarrow> bytes \<Rightarrow> bytes \<Rightarrow> bytes io" where
  "FullMesh_reduce_blocks F ws count dtype op temp_buf temp_recvbuf =
     (let chunk_bytes = GetDataTypeSize dtype * count in
      for_each [0..<nat ws] (\<lambda>i temp_recvbuf.
        bind_io (io_load temp_buf (i * chunk_bytes) chunk_bytes) (\<lambda>theirs.
        bind_io (io_load temp_recvbuf (i * chunk_bytes) chunk_bytes) (\<lambda>mine.
        bind_io (io_reduce F theirs mine count dtype op ws) (\<lambda>reduced.
        io_store temp_recvbuf (i * chunk_bytes) reduced)))) temp_recvbuf)"

definition FullMesh_ReduceScatter_step ::
  "fp \<Rightarrow> topology \<Rightarrow> Communicator \<Rightarrow> nat \<Rightarrow> DataType \<Rightarrow> ReduceOp \<Rightarrow> int \<Rightarrow> bytes \<Rightarrow> bytes io" where
  "FullMesh_ReduceScatter_step F t comm count dtype op msk temp_recvbuf =
     (let total_bytes = GetDataTypeSize dtype * count * to_size (world_size t);
          peer = xor (rank t) msk in
      if peer < world_size t then
        bind_io (get_transport comm peer) (\<lambda>transport.
        bind_io (FullMesh_swap t peer transport temp_recvbuf total_bytes) (\<lambda>temp_buf.
        FullMesh_reduce_blocks F (world_size t) count dtype op temp_buf temp_recvbuf))
      else io_return temp_recvbuf)"

definition FullMesh_ReduceScatter ::
  "fp \<Rightarrow> topology \<Rightarrow> Communicator \<Rightarrow> bytes \<Rightarrow> bytes \<Rightarrow> nat \<Rightarrow> DataType \<Rightarrow> ReduceOp \<Rightarrow> bytes io" where
  "FullMesh_ReduceScatter F t comm send_buf recv_buf count dtype op =
     (let chunk_bytes = GetDataTypeSize dtype * count;
          total_bytes = chunk_bytes * to_size (world_size t) in
      bind_io (io_load send_buf 0 total_bytes) (\<lambda>all.
      bind_io (io_store (replicate total_bytes 0) 0 all) (\<lambda>temp_recvbuf.
      bind_io (for_each (masks 1 (world_size t)) (FullMesh_ReduceScatter_step F t comm count dtype op) temp_recvbuf)
        (\<lambda>temp_recvbuf.
      bind_io (io_load temp_recvbuf (to_size (rank t) * chunk_bytes) chunk_bytes) (\<lambda>mine.
      io_store recv_buf 0 mine)))))"

section \<open>Barrier\<close>

definition FullMesh_Barrier :: "topology \<Rightarrow> Communicator \<Rightarrow> unit io" where
  "FullMesh_Barrier t comm =
     (let root = 0; dummy = replicate 4 0 in
      if rank t = root then
        bind_io (for_each [1..<nat (world_size t)] (\<lambda>peer dummy.
          bind_io (get_transport comm (int peer)) (\<lambda>transport.
          bind_io (io_recv transport 4) (\<lambda>data. io_store dummy 0 data))) dummy) (\<lambda>dummy.
        bind_io (for_each [1..<nat (world_size t)] (\<lambda>peer dummy.
          bind_io (get_transport comm (int peer)) (\<lambda>transport.
          bind_io (io_load dummy 0 4) (\<lambda>data.
          bind_io (io_send transport data) (\<lambda>_. io_return dummy)))) dummy) (\<lambda>_. io_return ()))
      else
        bind_io (get_transport comm root) (\<lambda>transport.
        bind_io (io_load dummy 0 4) (\<lambda>data.
        bind_io (io_send transport data) (\<lambda>_.
        bind_io (io_recv transport 4) (\<lambda>data.
        bind_io (io_store dummy 0 data) (\<lambda>_. io_return ()))))))"

end
