(* ===== verification/FullMeshRuns.thy ===== *)
theory FullMeshRuns
  imports FullMesh Schedules Reduced
begin

text \<open>
  Schedules for the collectives of the full mesh: a root that talks to one peer after the
  other, a root that talks to all at once, all pairs of ranks in lexicographic order, and the
  rounds of recursive doubling.
\<close>

section \<open>The mesh's transports\<close>

definition mesh_topo :: "int \<Rightarrow> int \<Rightarrow> topology" where
  "mesh_topo ws r = Topology_Init (new_topology ''FullMesh'') r ws"

definition wired_mesh :: "int \<Rightarrow> (int \<Rightarrow> Communicator) \<Rightarrow> bool" where
  "wired_mesh ws comm \<longleftrightarrow> (\<forall>r p. 0 \<le> r \<and> r < ws \<and> 0 \<le> p \<and> p < ws \<and> p \<noteq> r \<longrightarrow>
     transports (comm r) p = Some p)"

lemma mesh_topo_simps [simp]:
  "rank (mesh_topo ws r) = r" "world_size (mesh_topo ws r) = ws"
  by (simp_all add: mesh_topo_def Topology_Init_def new_topology_def)

lemma wired_mesh_transport:
  "wired_mesh ws comm \<Longrightarrow> 0 \<le> r \<Longrightarrow> r < ws \<Longrightarrow> 0 \<le> p \<Longrightarrow> p < ws \<Longrightarrow> p \<noteq> r \<Longrightarrow>
   GetTransport (comm r) p = Some p"
  by (simp add: wired_mesh_def GetTransport_def)

section \<open>A root and its peers, one after the other\<close>

text \<open>
  \<open>lo\<close> is where the loop over the peers starts: at \<open>0\<close>, skipping the root, or at \<open>1\<close>
  for the root \<open>0\<close>.
\<close>

definition star :: "int \<Rightarrow> (nat \<Rightarrow> 'a io) \<Rightarrow> (int \<Rightarrow> 'a io) \<Rightarrow> (int \<Rightarrow> 'a io) \<Rightarrow> nat \<Rightarrow> int \<Rightarrow> 'a io" where
  "star root prog leaf fin m r = (if r = root then prog m else if r < int m then fin r else leaf r)"

lemma syncs_star:
  assumes lo: "lo = 0 \<or> lo = 1 \<and> root = 0" and root: "0 \<le> root" "root < ws"
    and skip: "\<And>m. m < nat ws \<Longrightarrow> int m = root \<Longrightarrow> lo \<le> m \<Longrightarrow> prog m = prog (Suc m)"
    and talk: "\<And>m g. lo \<le> m \<Longrightarrow> m < nat ws \<Longrightarrow> int m \<noteq> root \<Longrightarrow> g root = prog m \<Longrightarrow> g (int m) = leaf (int m) \<Longrightarrow>
      syncs N g (g(root := prog (Suc m), int m := fin (int m)))"
  shows "syncs N (world ws (\<lambda>r. if r = root then prog lo else leaf r))
    (world ws (\<lambda>r. if r = root then prog (nat ws) else fin r))"
proof -
  let ?S = "star root prog leaf fin"
  have step: "syncs N (world ws (?S m)) (world ws (?S (Suc m)))" if m: "lo \<le> m" "m < nat ws" for m
  proof (cases "int m = root")
    case True
    then have "world ws (?S m) = world ws (?S (Suc m))"
      using skip [OF m(2) True m(1)] by (intro world_cong) (auto simp: star_def)
    then show ?thesis by simp
  next
    case False
    have "syncs N (world ws (?S m)) ((world ws (?S m))(root := prog (Suc m), int m := fin (int m)))"
      by (rule talk) (use m False root in \<open>auto simp: star_def\<close>)
    also have "(world ws (?S m))(root := prog (Suc m), int m := fin (int m)) = world ws (?S (Suc m))"
      using m False root by (auto simp: star_def world_def fun_eq_iff)
    finally show ?thesis .
  qed
  have le: "lo \<le> nat ws"
    using lo root by auto
  have "syncs N (world ws (?S (lo + 0))) (world ws (?S (lo + (nat ws - lo))))"
    by (rule syncs_chain [where S = "\<lambda>m. world ws (?S (lo + m))"]) (use step in auto)
  moreover have "world ws (?S lo) = world ws (\<lambda>r. if r = root then prog lo else leaf r)"
    by (rule world_cong) (use lo in \<open>auto simp: star_def\<close>)
  moreover have "world ws (?S (nat ws)) = world ws (\<lambda>r. if r = root then prog (nat ws) else fin r)"
    by (rule world_cong) (auto simp: star_def)
  ultimately show ?thesis
    using le by simp
qed

text \<open>The root receives from its peers.\<close>

lemma syncs_star_recv:
  assumes lo: "lo = 0 \<or> lo = 1 \<and> root = 0" and root: "0 \<le> root" "root < ws" and N: "healthy N"
    and skip: "\<And>m. m < nat ws \<Longrightarrow> int m = root \<Longrightarrow> lo \<le> m \<Longrightarrow> body m (S m) = io_return (S (Suc m))"
    and recv: "\<And>m. lo \<le> m \<Longrightarrow> m < nat ws \<Longrightarrow> int m \<noteq> root \<Longrightarrow>
      body m (S m) = bind_io (io_recv (int m) (length (x m))) (B m) \<and> B m (x m) = io_return (S (Suc m))"
    and leaf: "\<And>m. lo \<le> m \<Longrightarrow> m < nat ws \<Longrightarrow> int m \<noteq> root \<Longrightarrow>
      leaf (int m) = bind_io (io_send root (x m)) (\<lambda>_. fin (int m))"
  shows "syncs N (world ws (\<lambda>r. if r = root then bind_io (for_each [lo..<nat ws] body (S lo)) k else leaf r))
    (world ws (\<lambda>r. if r = root then k (S (nat ws)) else fin r))"
proof -
  define prog where "prog = (\<lambda>m. bind_io (for_each [m..<nat ws] body (S m)) k)"
  have unroll: "prog m = bind_io (body m (S m)) (\<lambda>s. bind_io (for_each [Suc m..<nat ws] body s) k)" if "m < nat ws" for m
    using that by (simp add: prog_def upt_conv_Cons)
  have "syncs N (world ws (\<lambda>r. if r = root then prog lo else leaf r))
      (world ws (\<lambda>r. if r = root then prog (nat ws) else fin r))"
  proof (rule syncs_star [OF lo root])
    show "prog m = prog (Suc m)" if "m < nat ws" "int m = root" "lo \<le> m" for m
      using skip [OF that] unroll [OF that(1)] by (simp add: prog_def)
    fix m g
    assume m: "lo \<le> m" "m < nat ws" "int m \<noteq> root" and g: "g root = prog m" "g (int m) = leaf (int m)"
    have "syncs N g (g(int m := fin (int m), root := bind_io (B m (x m)) (\<lambda>s. bind_io (for_each [Suc m..<nat ws] body s) k)))"
      by (rule syncs_send_recv [where bs = "x m" and kb = "\<lambda>d. bind_io (B m d) (\<lambda>s. bind_io (for_each [Suc m..<nat ws] body s) k)"])
         (use m g N leaf recv unroll in auto)
    moreover have "bind_io (B m (x m)) (\<lambda>s. bind_io (for_each [Suc m..<nat ws] body s) k) = prog (Suc m)"
      using recv [OF m] by (simp add: prog_def)
    ultimately show "syncs N g (g(root := prog (Suc m), int m := fin (int m)))"
      using m(3) by (simp add: fun_upd_twist)
  qed
  then show ?thesis
    by (simp add: prog_def cong: if_cong)
qed

text \<open>The root sends to its peers.\<close>

lemma syncs_star_send:
  assumes lo: "lo = 0 \<or> lo = 1 \<and> root = 0" and root: "0 \<le> root" "root < ws" and N: "healthy N"
    and skip: "\<And>m. m < nat ws \<Longrightarrow> int m = root \<Longrightarrow> lo \<le> m \<Longrightarrow> body m (S m) = io_return (S (Suc m))"
    and send: "\<And>m. lo \<le> m \<Longrightarrow> m < nat ws \<Longrightarrow> int m \<noteq> root \<Longrightarrow>
      body m (S m) = bind_io (io_send (int m) (x m)) (\<lambda>_. io_return (S (Suc m)))"
    and leaf: "\<And>m. lo \<le> m \<Longrightarrow> m < nat ws \<Longrightarrow> int m \<noteq> root \<Longrightarrow>
      leaf (int m) = bind_io (io_recv root (length (x m))) (L m) \<and> L m (x m) = fin (int m)"
  shows "syncs N (world ws (\<lambda>r. if r = root then bind_io (for_each [lo..<nat ws] body (S lo)) k else leaf r))
    (world ws (\<lambda>r. if r = root then k (S (nat ws)) else fin r))"
proof -
  define prog where "prog = (\<lambda>m. bind_io (for_each [m..<nat ws] body (S m)) k)"
  have unroll: "prog m = bind_io (body m (S m)) (\<lambda>s. bind_io (for_each [Suc m..<nat ws] body s) k)" if "m < nat ws" for m
    using that by (simp add: prog_def upt_conv_Cons)
  have "syncs N (world ws (\<lambda>r. if r = root then prog lo else leaf r))
      (world ws (\<lambda>r. if r = root then prog (nat ws) else fin r))"
  proof (rule syncs_star [OF lo root])
    show "prog m = prog (Suc m)" if "m < nat ws" "int m = root" "lo \<le> m" for m
      using skip [OF that] unroll [OF that(1)] by (simp add: prog_def)
    fix m g
    assume m: "lo \<le> m" "m < nat ws" "int m \<noteq> root" and g: "g root = prog m" "g (int m) = leaf (int m)"
    have "syncs N g (g(root := prog (Suc m), int m := L m (x m)))"
      by (rule syncs_send_recv [where bs = "x m" and ka = "\<lambda>_. prog (Suc m)"])
         (use m g N leaf send unroll in \<open>auto simp: prog_def\<close>)
    then show "syncs N g (g(root := prog (Suc m), int m := fin (int m)))"
      using leaf [OF m] by simp
  qed
  then show ?thesis
    by (simp add: prog_def cong: if_cong)
qed

section \<open>A root that sends to all peers at once\<close>

text \<open>In the middle of it the sends to the peers \<open>ds\<close> are done.\<close>

definition fanning :: "bytes \<Rightarrow> (op_result list \<Rightarrow> 'a io) \<Rightarrow> (int \<Rightarrow> bytes \<Rightarrow> 'a io) \<Rightarrow> int \<Rightarrow> int list \<Rightarrow> int list \<Rightarrow> (int \<Rightarrow> 'a io) \<Rightarrow> int \<Rightarrow> 'a io" where
  "fanning data k kb root ds ps f r =
     (if r = root then Ops (map (\<lambda>p. OSend p []) ds @ map (\<lambda>p. OSend p data) ps) k
      else if r \<in> set ds then kb r data else f r)"

lemma syncs_fanout_sends:
  assumes "healthy N" "distinct (ds @ ps)" "root \<notin> set (ds @ ps)"
    and "\<And>p. p \<in> set ps \<Longrightarrow> f p = bind_io (io_recv root (length data)) (kb p)"
  shows "syncs N (fanning data k kb root ds ps f) (fanning data k kb root (ds @ ps) [] f)"
  using assms
proof (induction ps arbitrary: ds)
  case (Cons p ps)
  let ?f0 = "fanning data k kb root ds (p # ps) f" and ?f1 = "fanning data k kb root (ds @ [p]) ps f"
  let ?rb = "\<lambda>rs. bind_io (case rs of [Got bs] \<Rightarrow> io_return bs | _ \<Rightarrow> io_fail RecvFailed) (kb p)"
  let ?s = "Ops (map (\<lambda>p. OSend p []) ds @ OSend p [] # map (\<lambda>p. OSend p data) ps) k"
  have p: "p \<noteq> root" "p \<notin> set ds"
    using Cons.prems by auto
  have "syncs N ?f0 (?f0(root := ?s, p := Ops ([] @ ORecv root 0 ([] @ data) # []) ?rb))"
    by (rule syncs_transfer) (use Cons.prems p in \<open>auto simp: fanning_def io_recv_def\<close>)
  also have "syncs N \<dots> (?f0(root := ?s, p := kb p data))"
    using syncs_join [of "?f0(root := ?s, p := Ops ([] @ ORecv root 0 ([] @ data) # []) ?rb)" p "[ORecv root 0 data]" ?rb N]
    by simp
  also have "?f0(root := ?s, p := kb p data) = ?f1"
    using p by (auto simp: fanning_def fun_eq_iff)
  also have "syncs N ?f1 (fanning data k kb root ((ds @ [p]) @ ps) [] f)"
    by (rule Cons.IH) (use Cons.prems in auto)
  finally show ?case by simp
qed simp

lemma syncs_fanout:
  assumes "healthy N" "distinct ps" "root \<notin> set ps"
    and "f root = Ops (map (\<lambda>p. OSend p data) ps) k"
    and "\<And>p. p \<in> set ps \<Longrightarrow> f p = bind_io (io_recv root (length data)) (kb p)"
    and g: "\<And>r. g r = (if r = root then k (replicate (length ps) Sent) else if r \<in> set ps then kb r data else f r)"
  shows "syncs N f g"
proof -
  let ?h = "fanning data k kb root ps [] f"
  have "fanning data k kb root [] ps f = f"
    using assms(4) by (auto simp: fanning_def fun_eq_iff)
  then have "syncs N f ?h"
    using syncs_fanout_sends [of N "[]" ps root f data kb k] assms by simp
  also have "syncs N ?h (?h(root := k (map op_value (map (\<lambda>p. OSend p []) ps))))"
    by (rule syncs_join) (auto simp: fanning_def)
  also have "?h(root := k (map op_value (map (\<lambda>p. OSend p []) ps))) = g"
    using assms(3) by (auto simp: fanning_def fun_eq_iff g comp_def map_replicate_const)
  finally show ?thesis .
qed

section \<open>All pairs of ranks\<close>

text \<open>
  A pair of ranks that exchange data, the smaller rank sending first.
\<close>

lemma syncs_swap:
  assumes "a \<noteq> b" "healthy N"
    and "f a = bind_io (io_send b xa) (\<lambda>_. bind_io (io_recv b (length xb)) Ka)"
    and "f b = bind_io (io_recv a (length xa)) Lb" "Lb xa = bind_io (io_send a xb) (\<lambda>_. gb)"
  shows "syncs N f (f(a := Ka xb, b := gb))"
proof -
  let ?f1 = "f(a := bind_io (io_recv b (length xb)) Ka, b := Lb xa)"
  have "syncs N f ?f1"
    by (rule syncs_send_recv [where ka = "\<lambda>_. bind_io (io_recv b (length xb)) Ka"]) (use assms in auto)
  also have "syncs N ?f1 (?f1(b := gb, a := Ka xb))"
    by (rule syncs_send_recv [where ka = "\<lambda>_. gb"]) (use assms in auto)
  also have "?f1(b := gb, a := Ka xb) = f(a := Ka xb, b := gb)"
    using assms(1) by (auto simp: fun_eq_iff)
  finally show ?thesis .
qed

text \<open>
  Every rank goes through the peers in order. When the pairs before \<open>(a, b)\<close> are done, rank
  \<open>r\<close> is at peer \<open>pair_pos a b r\<close>.
\<close>

definition pair_pos :: "nat \<Rightarrow> nat \<Rightarrow> nat \<Rightarrow> nat \<Rightarrow> nat" where
  "pair_pos n a b r = (if r < a then n else if r = a then b else if r < b then Suc a else a)"

lemma syncs_all_pairs:
  fixes body :: "int \<Rightarrow> nat \<Rightarrow> 's \<Rightarrow> 's io" and k :: "int \<Rightarrow> 's \<Rightarrow> 'b io"
  assumes N: "healthy N"
    and self: "\<And>r. r < nat ws \<Longrightarrow> body (int r) r (S (int r) r) = io_return (S (int r) (Suc r))"
    and lower: "\<And>r p. r < p \<Longrightarrow> p < nat ws \<Longrightarrow> body (int r) p (S (int r) p) =
        bind_io (io_send (int p) (x r p)) (\<lambda>_. bind_io (io_recv (int p) (length (x p r))) (K r p)) \<and>
        K r p (x p r) = io_return (S (int r) (Suc p))"
    and upper: "\<And>r p. p < r \<Longrightarrow> r < nat ws \<Longrightarrow> body (int r) p (S (int r) p) =
        bind_io (io_recv (int p) (length (x p r))) (L r p) \<and>
        L r p (x p r) = bind_io (io_send (int p) (x r p)) (\<lambda>_. io_return (S (int r) (Suc p)))"
  shows "syncs N (world ws (\<lambda>r. bind_io (for_each [0..<nat ws] (body r) (S r 0)) (k r)))
    (world ws (\<lambda>r. k r (S r (nat ws))))"
proof -
  let ?n = "nat ws"
  define prog where "prog = (\<lambda>r m. bind_io (for_each [m..<?n] (body r) (S r m)) (k r))"
  have unroll: "prog r m = bind_io (body r m (S r m)) (\<lambda>s. bind_io (for_each [Suc m..<?n] (body r) s) (k r))" if "m < ?n" for r m
    using that by (simp add: prog_def upt_conv_Cons)
  have skip: "prog (int r) r = prog (int r) (Suc r)" if "r < ?n" for r
    using unroll [OF that] self [OF that] by (simp add: prog_def)
  define W where "W = (\<lambda>a b. world ws (\<lambda>r. prog r (pair_pos ?n a b (nat r))))"
  have pair: "syncs N (W a b) (W a (Suc b))" if ab: "a < b" "b < ?n" for a b
  proof -
    let ?rest = "\<lambda>r m s. bind_io (for_each [Suc m..<?n] (body r) s) (k r)"
    have at: "W a b (int a) = prog (int a) b" "W a b (int b) = prog (int b) a"
      using ab by (simp_all add: W_def pair_pos_def)
    have "syncs N (W a b) ((W a b)(int a := bind_io (K a b (x b a)) (?rest (int a) b), int b := prog (int b) (Suc a)))"
      by (rule syncs_swap [where Ka = "\<lambda>d. bind_io (K a b d) (?rest (int a) b)" and Lb = "\<lambda>d. bind_io (L b a d) (?rest (int b) a)"])
         (use ab N at unroll lower [OF ab] upper [OF ab] in \<open>auto simp: prog_def\<close>)
    also have "(W a b)(int a := bind_io (K a b (x b a)) (?rest (int a) b), int b := prog (int b) (Suc a)) = W a (Suc b)"
      using ab lower [OF ab] by (auto simp: W_def world_def fun_eq_iff pair_pos_def prog_def)
    finally show ?thesis .
  qed
  have row: "syncs N (W a (Suc a)) (W (Suc a) (Suc (Suc a)))" if a: "a < ?n" for a
  proof -
    have "syncs N (W a (Suc a + 0)) (W a (Suc a + (?n - Suc a)))"
      by (rule syncs_chain [where S = "\<lambda>m. W a (Suc a + m)"]) (use pair [of a] in auto)
    moreover have "W a ?n = W (Suc a) (Suc (Suc a))"
      unfolding W_def
    proof (rule world_cong)
      fix r assume r: "0 \<le> r" "r < ws"
      have "prog (int (nat r)) (nat r) = prog (int (nat r)) (Suc (nat r))"
        using r by (intro skip) simp
      then show "prog r (pair_pos ?n a ?n (nat r)) = prog r (pair_pos ?n (Suc a) (Suc (Suc a)) (nat r))"
        using r by (auto simp: pair_pos_def not_less less_Suc_eq)
    qed
    ultimately show ?thesis using a by simp
  qed
  have "syncs N (W 0 (Suc 0)) (W ?n (Suc ?n))"
    by (rule syncs_chain [where S = "\<lambda>a. W a (Suc a)"]) (rule row)
  moreover have "W 0 (Suc 0) = world ws (\<lambda>r. prog r 0)"
    unfolding W_def
  proof (rule world_cong)
    fix r assume r: "0 \<le> r" "r < ws"
    then show "prog r (pair_pos ?n 0 (Suc 0) (nat r)) = prog r 0"
      using skip [of 0] by (cases "r = 0") (auto simp: pair_pos_def)
  qed
  moreover have "W ?n (Suc ?n) = world ws (\<lambda>r. k r (S r ?n))"
    unfolding W_def by (rule world_cong) (auto simp: pair_pos_def prog_def)
  ultimately show ?thesis
    by (simp add: prog_def)
qed

end
