(* ===== verification/Doubling.thy ===== *)
theory Doubling
  imports FullMeshRuns
begin

text \<open>
  Recursive doubling, the scheme of \<open>AllReduce\<close> and \<open>ReduceScatter\<close> on the full mesh: in
  round \<open>i\<close> rank \<open>r\<close> exchanges its partial result with rank \<open>r XOR 2 ^ i\<close>, if there is one.
  With a power of two of ranks everyone has everything in the end; otherwise some ranks miss
  contributions.
\<close>

section \<open>Partners\<close>

abbreviation partner :: "nat \<Rightarrow> int \<Rightarrow> int" where
  "partner i r \<equiv> xor r (2 ^ i)"

lemma partner_partner [simp]: "partner i (partner i r) = r"
  by (simp add: xor.assoc)

lemma partner_neq [simp]: "partner i r \<noteq> r"
proof
  assume "partner i r = r"
  then have "xor r (partner i r) = xor r r"
    by simp
  then show False
    by (simp flip: xor.assoc)
qed

lemma partner_nonneg [simp]: "0 \<le> r \<Longrightarrow> 0 \<le> partner i r"
  by simp

lemma masks_powers: "masks (2 ^ i) ws = map (\<lambda>j. 2 ^ j) [i..<i + length (masks (2 ^ i) ws)]"
proof (induction "nat (ws - 2 ^ i)" arbitrary: i rule: less_induct)
  case less
  show ?case
  proof (cases "2 ^ i < ws")
    case True
    then have eq: "masks (2 ^ i) ws = 2 ^ i # masks (2 ^ Suc i) ws"
      by (subst masks.simps) (simp add: mult.commute)
    have "nat (ws - 2 ^ Suc i) < nat (ws - 2 ^ i)"
      using True by simp
    from less [OF this] have "masks (2 ^ Suc i) ws = map (\<lambda>j. 2 ^ j) [Suc i..<Suc i + length (masks (2 ^ Suc i) ws)]" .
    moreover have "[i..<i + Suc m] = i # [Suc i..<Suc i + m]" for m
      by (simp add: upt_conv_Cons del: upt_Suc)
    ultimately show ?thesis
      unfolding eq by (simp only: list.size list.map add_Suc_right add_0_right)
  next
    case False
    then show ?thesis
      by (simp add: masks.simps)
  qed
qed

definition rounds :: "int \<Rightarrow> nat" where
  "rounds ws = length (masks 1 ws)"

lemma for_each_map: "for_each (map g is) body s = for_each is (\<lambda>i. body (g i)) s"
proof (induction "is" arbitrary: s)
  case (Cons i "is")
  then have "for_each (map g is) body = for_each is (\<lambda>i. body (g i))"
    by blast
  then show ?case by simp
qed simp

lemma for_each_masks: "for_each (masks 1 ws) body s = for_each [0..<rounds ws] (\<lambda>i. body (2 ^ i)) s"
proof -
  have "masks 1 ws = map (\<lambda>j. 2 ^ j) [0..<rounds ws]"
    using masks_powers [of 0 ws] by (simp add: rounds_def)
  then show ?thesis
    by (simp only: for_each_map)
qed

lemma rounds_power: "rounds (2 ^ m) = m"
proof -
  have "length (masks (2 ^ i) (2 ^ m)) = m - i" for i
  proof (induction "m - i" arbitrary: i)
    case 0
    then have "(2 :: int) ^ m \<le> 2 ^ i"
      by (intro power_increasing) auto
    with 0 show ?case by (simp add: masks.simps)
  next
    case (Suc n)
    then have "(2 :: int) ^ i < 2 ^ m"
      by (intro power_strict_increasing) auto
    then have "masks (2 ^ i) (2 ^ m) = 2 ^ i # masks (2 ^ Suc i) (2 ^ m)"
      by (subst masks.simps) (simp add: mult.commute)
    moreover have "length (masks (2 ^ Suc i) (2 ^ m)) = m - Suc i"
      using Suc by (intro Suc.hyps(1)) simp
    ultimately show ?case using Suc.hyps(2) by simp
  qed
  from this [of 0] show ?thesis
    by (simp add: rounds_def)
qed

section \<open>One round\<close>

lemma syncs_doubling_round:
  fixes f g :: "int \<Rightarrow> 'a io"
  assumes N: "healthy N"
    and lower: "\<And>r. 0 \<le> r \<Longrightarrow> r < partner i r \<Longrightarrow> partner i r < ws \<Longrightarrow>
      f r = bind_io (io_send (partner i r) (x r)) (\<lambda>_. bind_io (io_recv (partner i r) (length (x (partner i r)))) (K r))"
    and upper: "\<And>r. 0 \<le> r \<Longrightarrow> r < ws \<Longrightarrow> partner i r < r \<Longrightarrow>
      f r = bind_io (io_recv (partner i r) (length (x (partner i r)))) (L r) \<and>
      L r (x (partner i r)) = bind_io (io_send (partner i r) (x r)) (\<lambda>_. K r (x (partner i r)))"
    and g: "\<And>r. 0 \<le> r \<Longrightarrow> r < ws \<Longrightarrow> g r = (if partner i r < ws then K r (x (partner i r)) else f r)"
  shows "syncs N (world ws f) (world ws g)"
proof -
  define A where "A = {r. 0 \<le> r \<and> r < partner i r \<and> partner i r < ws}"
  define B where "B = {r. 0 \<le> r \<and> r < ws \<and> partner i r < r}"
  define h where "h = (\<lambda>r. if r \<in> A then bind_io (io_recv (partner i r) (length (x (partner i r)))) (K r)
      else if r \<in> B then bind_io (io_send (partner i r) (x r)) (\<lambda>_. K r (x (partner i r))) else f r)"
  have fin: "finite A" "finite B"
    by (rule finite_subset [of _ "{0..<ws}"]; auto simp: A_def B_def)+
  have AB: "partner i ` A = B" "partner i ` B = A" "A \<inter> B = {}"
  proof -
    show 1: "partner i ` A = B"
    proof
      show "B \<subseteq> partner i ` A"
        using image_eqI [where f = "partner i" and x = "partner i _"] by (force simp: A_def B_def)
    qed (auto simp: A_def B_def)
    then show "partner i ` B = A"
      by (auto simp: image_image simp flip: 1)
    show "A \<inter> B = {}"
      by (auto simp: A_def B_def)
  qed
  have inj: "inj_on (partner i) S" for S
    by (rule inj_on_inverseI [of _ "partner i"]) simp
  have one: "syncs N (world ws f) (world ws h)"
  proof (rule syncs_matching [of A "partner i" N _ x "\<lambda>r _. bind_io (io_recv (partner i r) (length (x (partner i r)))) (K r)" "\<lambda>s. L (partner i s)"])
    show "partner i ` A \<inter> A = {}"
      using AB by auto
    fix r
    assume r: "r \<in> A"
    then have p: "partner i r \<in> B"
      using AB by auto
    show "world ws f r = bind_io (io_send (partner i r) (x r)) (\<lambda>_. bind_io (io_recv (partner i r) (length (x (partner i r)))) (K r))"
      using r lower [of r] by (auto simp: A_def)
    show "world ws f (partner i r) = bind_io (io_recv r (length (x r))) (L (partner i r))"
      using p upper [of "partner i r"] by (auto simp: B_def)
    show "world ws h r = bind_io (io_recv (partner i r) (length (x (partner i r)))) (K r)"
      using r by (auto simp: h_def A_def)
    have "partner i r \<notin> A"
      using p AB by auto
    then show "world ws h (partner i r) = L (partner i r) (x r)"
      using p upper [of "partner i r"] by (auto simp: h_def B_def)
  next
    show "world ws h r = world ws f r" if "r \<notin> A" "r \<notin> partner i ` A" for r
      using that AB by (auto simp: h_def world_def)
  qed (use N fin inj in auto)
  have two: "syncs N (world ws h) (world ws g)"
  proof (rule syncs_matching [of B "partner i" N _ x "\<lambda>r _. K r (x (partner i r))" "\<lambda>s. K (partner i s)"])
    show "partner i ` B \<inter> B = {}"
      using AB by auto
    fix r
    assume r: "r \<in> B"
    then have p: "partner i r \<in> A" "r \<notin> A"
      using AB by auto
    show "world ws h r = bind_io (io_send (partner i r) (x r)) (\<lambda>_. K r (x (partner i r)))"
      using r p by (auto simp: h_def B_def)
    show "world ws h (partner i r) = bind_io (io_recv r (length (x r))) (K (partner i r))"
      using p by (auto simp: h_def A_def)
    show "world ws g r = K r (x (partner i r))"
      using r g [of r] by (auto simp: B_def)
    show "world ws g (partner i r) = K (partner i r) (x r)"
      using p r g [of "partner i r"] by (auto simp: A_def B_def)
  next
    show "world ws g r = world ws h r" if "r \<notin> B" "r \<notin> partner i ` B" for r
    proof (cases "0 \<le> r \<and> r < ws")
      case True
      have "\<not> partner i r < ws"
      proof
        assume "partner i r < ws"
        moreover have "r \<notin> A" "r \<notin> B"
          using that AB by auto
        ultimately have "partner i r = r"
          using True by (auto simp: A_def B_def)
        then show False by simp
      qed
      then show ?thesis
        using True that AB g [of r] by (auto simp: h_def)
    qed (auto simp: world_def)
  qed (use N fin inj in auto)
  show ?thesis
    using one two by (rule syncs_trans)
qed

section \<open>All rounds\<close>

text \<open>What rank \<open>r\<close> has after \<open>i\<close> rounds, when it starts with \<open>d r\<close>.\<close>

primrec doubling :: "(bytes \<Rightarrow> bytes \<Rightarrow> bytes) \<Rightarrow> int \<Rightarrow> (int \<Rightarrow> bytes) \<Rightarrow> nat \<Rightarrow> int \<Rightarrow> bytes" where
  "doubling red ws d 0 r = d r"
| "doubling red ws d (Suc i) r =
     (if partner i r < ws then red (doubling red ws d i (partner i r)) (doubling red ws d i r)
      else doubling red ws d i r)"

lemma length_doubling:
  "(\<And>s r. length s = n \<Longrightarrow> length r = n \<Longrightarrow> length (red s r) = n) \<Longrightarrow> (\<And>r. length (d r) = n) \<Longrightarrow>
   length (doubling red ws d i r) = n"
  by (induction i arbitrary: r) simp_all

text \<open>A loop whose body swaps buffers with the partner and then does something local with both.\<close>

lemma syncs_doubling:
  fixes k :: "int \<Rightarrow> bytes \<Rightarrow> 'b io"
  assumes N: "healthy N" and w: "wired_mesh ws comm"
    and step: "\<And>r i. 0 \<le> r \<Longrightarrow> r < ws \<Longrightarrow> body r i (doubling red ws d i r) =
      (if partner i r < ws then
         bind_io (get_transport (comm r) (partner i r)) (\<lambda>transport.
         bind_io (FullMesh_swap (mesh_topo ws r) (partner i r) transport (doubling red ws d i r) n) (merge (doubling red ws d i r)))
       else io_return (doubling red ws d i r))"
    and merge: "\<And>s r. length s = n \<Longrightarrow> length r = n \<Longrightarrow> merge r s = io_return (red s r)"
    and red: "\<And>s r. length s = n \<Longrightarrow> length r = n \<Longrightarrow> length (red s r) = n"
    and len: "\<And>r. length (d r) = n"
  shows "syncs N (world ws (\<lambda>r. bind_io (for_each [0..<m] (body r) (d r)) (k r)))
    (world ws (\<lambda>r. k r (doubling red ws d m r)))"
proof -
  let ?V = "doubling red ws d"
  have Vlen: "length (?V i r) = n" for i r
    by (rule length_doubling) (use red len in auto)
  have "syncs N (world ws (\<lambda>r. bind_io (body r i (?V i r)) (k' r))) (world ws (\<lambda>r. k' r (?V (Suc i) r)))"
    for i and k' :: "int \<Rightarrow> bytes \<Rightarrow> 'b io"
  proof (rule syncs_doubling_round [OF N, where i = i and x = "?V i" and K = "\<lambda>r s. bind_io (merge (?V i r) s) (k' r)"
        and L = "\<lambda>r s. bind_io (io_send (partner i r) (?V i r)) (\<lambda>_. bind_io (merge (?V i r) s) (k' r))"])
    fix r :: int
    assume r: "0 \<le> r"
    note unfold = step [OF r] FullMesh_swap_def wired_mesh_transport [OF w r] mem_simps Vlen
    show "bind_io (body r i (?V i r)) (k' r) =
        bind_io (io_send (partner i r) (?V i r)) (\<lambda>_. bind_io (io_recv (partner i r) (length (?V i (partner i r)))) (\<lambda>s. bind_io (merge (?V i r) s) (k' r)))"
      if "r < partner i r" "partner i r < ws"
      using that r by (simp add: unfold)
    show "bind_io (body r i (?V i r)) (k' r) =
        bind_io (io_recv (partner i r) (length (?V i (partner i r)))) (\<lambda>s. bind_io (io_send (partner i r) (?V i r)) (\<lambda>_. bind_io (merge (?V i r) s) (k' r))) \<and>
        bind_io (io_send (partner i r) (?V i r)) (\<lambda>_. bind_io (merge (?V i r) (?V i (partner i r))) (k' r)) =
        bind_io (io_send (partner i r) (?V i r)) (\<lambda>_. bind_io (merge (?V i r) (?V i (partner i r))) (k' r))"
      if "r < ws" "partner i r < r"
      using that r by (simp add: unfold)
    show "k' r (?V (Suc i) r) =
        (if partner i r < ws then bind_io (merge (?V i r) (?V i (partner i r))) (k' r) else bind_io (body r i (?V i r)) (k' r))"
      if "r < ws"
      using that r by (simp add: unfold merge)
  qed
  then have "syncs N (world ws (\<lambda>r. bind_io (for_each [0..<m] (body r) (?V 0 r)) (k r))) (world ws (\<lambda>r. k r (?V m r)))"
    by (intro syncs_rounds [where S = "\<lambda>r i. ?V i r"])
  then show ?thesis by simp
qed

section \<open>AllReduce and ReduceScatter\<close>

lemma FullMesh_AllReduce_syncs:
  assumes w: "wired_mesh ws comm" and N: "healthy N"
    and len: "\<And>r. length (d r) = count * GetDataTypeSize dtype"
    and rlen: "\<And>r. length (rbuf r) = count * GetDataTypeSize dtype"
  shows "syncs N (world ws (\<lambda>r. FullMesh_AllReduce F (mesh_topo ws r) (comm r) (d r) (rbuf r) count dtype op))
    (world ws (\<lambda>r. io_return (doubling (reduce_bytes F count dtype op ws) ws d (rounds ws) r)))"
proof -
  let ?red = "reduce_bytes F count dtype op ws" and ?n = "count * GetDataTypeSize dtype"
  define body where "body = (\<lambda>r i. FullMesh_AllReduce_step F (mesh_topo ws r) (comm r) count dtype op (2 ^ i))"
  have "syncs N (world ws (\<lambda>r. bind_io (for_each [0..<rounds ws] (body r) (d r)) io_return))
      (world ws (\<lambda>r. io_return (doubling ?red ws d (rounds ws) r)))"
    by (rule syncs_doubling [OF N w, where n = ?n and merge = "\<lambda>r s. io_reduce F s r count dtype op ws"])
       (use len in \<open>simp_all add: body_def FullMesh_AllReduce_step_def Let_def mult.commute io_reduce_def PerformReduce_ok\<close>)
  moreover have "world ws (\<lambda>r. FullMesh_AllReduce F (mesh_topo ws r) (comm r) (d r) (rbuf r) count dtype op) =
      world ws (\<lambda>r. bind_io (for_each [0..<rounds ws] (body r) (d r)) io_return)"
    by (rule world_cong) (use len rlen in \<open>simp add: FullMesh_AllReduce_def Let_def mem_simps mult.commute for_each_masks body_def\<close>)
  ultimately show ?thesis by simp
qed

definition reduce_blocks :: "(bytes \<Rightarrow> bytes \<Rightarrow> bytes) \<Rightarrow> nat \<Rightarrow> nat \<Rightarrow> bytes \<Rightarrow> bytes \<Rightarrow> bytes" where
  "reduce_blocks red n cb s r = chunked n (\<lambda>c. red (chunk_of cb s c) (chunk_of cb r c))"

lemma FullMesh_reduce_blocks_ok:
  assumes "length s = nat ws * (count * GetDataTypeSize dtype)" "length r = nat ws * (count * GetDataTypeSize dtype)"
  shows "FullMesh_reduce_blocks F ws count dtype op s r =
      io_return (reduce_blocks (reduce_bytes F count dtype op ws) (nat ws) (count * GetDataTypeSize dtype) s r)"
proof -
  let ?cb = "count * GetDataTypeSize dtype" and ?n = "nat ws"
  define B where "B = (\<lambda>i c. if c < i then reduce_bytes F count dtype op ws (chunk_of ?cb s c) (chunk_of ?cb r c) else chunk_of ?cb r c)"
  have clen: "c < ?n \<Longrightarrow> length (chunk_of ?cb s c) = ?cb" "c < ?n \<Longrightarrow> length (chunk_of ?cb r c) = ?cb" for c
    using length_chunk_of [OF assms(1)] length_chunk_of [OF assms(2)] by auto
  then have Blen: "c < ?n \<Longrightarrow> length (B i c) = ?cb" for i c
    by (simp add: B_def)
  have s: "s = chunked ?n (chunk_of ?cb s)" and r: "r = chunked ?n (B 0)"
    using chunked_chunk_of [OF assms(1)] chunked_chunk_of [OF assms(2)] by (simp_all add: B_def)
  let ?body = "\<lambda>i temp_recvbuf. bind_io (io_load s (i * ?cb) ?cb) (\<lambda>theirs.
        bind_io (io_load temp_recvbuf (i * ?cb) ?cb) (\<lambda>mine.
        bind_io (io_reduce F theirs mine count dtype op ws) (\<lambda>reduced.
        io_store temp_recvbuf (i * ?cb) reduced)))"
  have "?body i (chunked ?n (B i)) = io_return (chunked ?n (B (Suc i)))" if i: "i < ?n" for i
  proof -
    have "mem_load s (i * ?cb) ?cb = Some (chunk_of ?cb s i)"
      by (subst s, subst mem_load_chunked) (use i clen in auto)
    moreover have "mem_load (chunked ?n (B i)) (i * ?cb) ?cb = Some (chunk_of ?cb r i)"
      by (subst mem_load_chunked) (use i clen Blen in \<open>auto simp: B_def\<close>)
    moreover have "mem_store (chunked ?n (B i)) (i * ?cb) (reduce_bytes F count dtype op ws (chunk_of ?cb s i) (chunk_of ?cb r i)) =
        Some (chunked ?n (B (Suc i)))"
      by (subst mem_store_chunked) (use i clen Blen in \<open>auto simp: B_def less_Suc_eq intro!: chunked_cong\<close>)
    ultimately show ?thesis
      using clen [OF i] by (simp add: io_reduce_def PerformReduce_ok)
  qed
  then have "for_each [0..<?n] ?body (chunked ?n (B 0)) = io_return (chunked ?n (B ?n))"
    by (rule for_each_pure)
  moreover have "chunked ?n (B ?n) = reduce_blocks (reduce_bytes F count dtype op ws) ?n ?cb s r"
    unfolding reduce_blocks_def by (rule chunked_cong) (simp add: B_def)
  ultimately show ?thesis
    by (simp add: FullMesh_reduce_blocks_def Let_def mult.commute flip: r)
qed

lemma chunk_of_chunked:
  "c < n \<Longrightarrow> (\<And>i. i < n \<Longrightarrow> length (B i) = cb) \<Longrightarrow> chunk_of cb (chunked n B) c = B c"
proof -
  assume c: "c < n" and len: "\<And>i. i < n \<Longrightarrow> length (B i) = cb"
  then have "mem_load (chunked n B) (c * cb) cb = Some (B c)"
    by (intro mem_load_chunked) auto
  then show ?thesis
    by (auto simp: mem_load_def chunk_of_def split: if_splits)
qed

lemma length_reduce_blocks:
  assumes "\<And>s r. length s = cb \<Longrightarrow> length r = cb \<Longrightarrow> length (red s r) = cb" "length s = n * cb" "length r = n * cb"
  shows "length (reduce_blocks red n cb s r) = n * cb"
  unfolding reduce_blocks_def
  by (rule length_chunked) (use assms(1) length_chunk_of [OF assms(2)] length_chunk_of [OF assms(3)] in auto)

text \<open>Block \<open>c\<close> of the buffers goes through recursive doubling on its own.\<close>

lemma chunk_of_doubling:
  assumes red: "\<And>s r. length s = cb \<Longrightarrow> length r = cb \<Longrightarrow> length (red s r) = cb"
    and len: "\<And>r. length (d r) = n * cb" and c: "c < n"
  shows "chunk_of cb (doubling (reduce_blocks red n cb) ws d i r) c = doubling red ws (\<lambda>r. chunk_of cb (d r) c) i r"
proof (induction i arbitrary: r)
  case (Suc i)
  let ?V = "doubling (reduce_blocks red n cb) ws d i"
  have Vlen: "length (?V r) = n * cb" for r
    by (rule length_doubling) (use red len length_reduce_blocks in blast)+
  have "chunk_of cb (reduce_blocks red n cb s r) c = red (chunk_of cb s c) (chunk_of cb r c)"
    if "length s = n * cb" "length r = n * cb" for s r
    unfolding reduce_blocks_def
    by (rule chunk_of_chunked [OF c]) (use red length_chunk_of [OF that(1)] length_chunk_of [OF that(2)] in auto)
  then show ?case
    using Suc Vlen by simp
qed simp

lemma FullMesh_ReduceScatter_syncs:
  assumes w: "wired_mesh ws comm" and N: "healthy N" and "0 < ws" and ws: "ws < 2 ^ 31"
    and len: "\<And>r. length (d r) = nat ws * (count * GetDataTypeSize dtype)"
    and rlen: "\<And>r. length (rbuf r) = count * GetDataTypeSize dtype"
  shows "syncs N (world ws (\<lambda>r. FullMesh_ReduceScatter F (mesh_topo ws r) (comm r) (d r) (rbuf r) count dtype op))
    (world ws (\<lambda>r. io_return (doubling (reduce_bytes F count dtype op ws) ws
        (\<lambda>q. chunk_of (count * GetDataTypeSize dtype) (d q) (nat r)) (rounds ws) r)))"
proof -
  let ?cb = "count * GetDataTypeSize dtype" and ?n = "nat ws" and ?rb = "reduce_bytes F count dtype op ws"
  let ?red = "reduce_blocks ?rb ?n ?cb"
  let ?V = "doubling ?red ws d (rounds ws)"
  have tos: "to_size ws = ?n" "\<And>r. 0 \<le> r \<Longrightarrow> r < ws \<Longrightarrow> to_size r = nat r"
    using assms(3) ws by (auto intro!: to_size_nonneg)
  have rb: "length s = ?cb \<Longrightarrow> length r = ?cb \<Longrightarrow> length (?rb s r) = ?cb" for s r
    by simp
  have Vlen: "length (?V r) = ?n * ?cb" for r
    by (rule length_doubling) (use len length_reduce_blocks rb in blast)+
  define body where "body = (\<lambda>r i. FullMesh_ReduceScatter_step F (mesh_topo ws r) (comm r) count dtype op (2 ^ i))"
  define fin where "fin = (\<lambda>r temp. bind_io (io_load temp (nat r * ?cb) ?cb) (io_store (rbuf r) 0))"
  have "syncs N (world ws (\<lambda>r. bind_io (for_each [0..<rounds ws] (body r) (d r)) (fin r))) (world ws (\<lambda>r. fin r (?V r)))"
    by (rule syncs_doubling [OF N w, where n = "?n * ?cb" and merge = "\<lambda>r s. FullMesh_reduce_blocks F ws count dtype op s r"])
       (use len length_reduce_blocks rb tos in \<open>simp_all add: body_def FullMesh_ReduceScatter_step_def Let_def FullMesh_reduce_blocks_ok ac_simps\<close>)
  moreover have "world ws (\<lambda>r. FullMesh_ReduceScatter F (mesh_topo ws r) (comm r) (d r) (rbuf r) count dtype op) =
      world ws (\<lambda>r. bind_io (for_each [0..<rounds ws] (body r) (d r)) (fin r))"
    by (rule world_cong)
       (use len rlen tos in \<open>simp add: FullMesh_ReduceScatter_def Let_def mem_simps mem_store_def ac_simps for_each_masks body_def fin_def\<close>)
  moreover have "world ws (\<lambda>r. fin r (?V r)) = world ws (\<lambda>r. io_return (doubling ?rb ws (\<lambda>q. chunk_of ?cb (d q) (nat r)) (rounds ws) r))"
  proof (rule world_cong)
    fix r assume r: "0 \<le> r" "r < ws"
    have eq: "?V r = chunked ?n (chunk_of ?cb (?V r))"
      using chunked_chunk_of [OF Vlen] by simp
    have piece: "length (chunk_of ?cb (?V r) (nat r)) = ?cb"
      using length_chunk_of [OF Vlen] r by simp
    have "mem_load (?V r) (nat r * ?cb) ?cb = Some (chunk_of ?cb (?V r) (nat r))"
      by (subst eq, subst mem_load_chunked) (use r length_chunk_of [OF Vlen] in auto)
    moreover have "chunk_of ?cb (?V r) (nat r) = doubling ?rb ws (\<lambda>q. chunk_of ?cb (d q) (nat r)) (rounds ws) r"
      by (rule chunk_of_doubling) (use len r in auto)
    ultimately show "fin r (?V r) = io_return (doubling ?rb ws (\<lambda>q. chunk_of ?cb (d q) (nat r)) (rounds ws) r)"
      using piece rlen by (simp add: fin_def mem_simps)
  qed
  ultimately show ?thesis by simp
qed

section \<open>A power of two of ranks\<close>

text \<open>
  After \<open>i\<close> rounds a rank has the contributions of the block of \<open>2 ^ i\<close> ranks that it is in,
  which starts at \<open>2 ^ i * (r div 2 ^ i)\<close>.
\<close>

lemma partner_div: "partner i r div 2 ^ i = xor (r div 2 ^ i) 1"
proof -
  have "drop_bit i (partner i r) = xor (drop_bit i r) (drop_bit i (2 ^ i))"
    by (rule drop_bit_xor)
  then show ?thesis
    by (simp add: drop_bit_eq_div)
qed

lemma xor_1: "xor k 1 = (if even k then k + 1 else k - 1)" for k :: int
  by (simp add: xor_one_eq)

lemma doubling_block:
  assumes op: "int_type dtype" "op \<noteq> OpAVG" and len: "\<And>r. length (d r) = count * GetDataTypeSize dtype"
    and "i \<le> m" "0 \<le> r" "r < 2 ^ m"
  shows "doubling (reduce_bytes F count dtype op w) (2 ^ m) d i r =
      reduced dtype op count (2 ^ i) (\<lambda>q. d (2 ^ i * (r div 2 ^ i) + int q))"
  using assms(4-)
proof (induction i arbitrary: r)
  case 0
  have "reduced dtype op count 1 (\<lambda>q. d (r + int q)) = d (r + int 0)"
    using fold_reduce_bytes [OF op, where p = 0 and ps = "[]" and n = 1 and d = "\<lambda>q. d (r + int q)" and count = count] len by auto
  then show ?case by simp
next
  case (Suc i)
  let ?rb = "reduce_bytes F count dtype op w" and ?b = "(2 :: int) ^ i"
  let ?k = "r div ?b" and ?red = "\<lambda>k. reduced dtype op count (2 ^ i) (\<lambda>q. d (?b * k + int q))"
  have "?b < 2 ^ m"
    using Suc.prems by (intro power_strict_increasing) auto
  then have p: "0 \<le> partner i r" "partner i r < 2 ^ m"
    using Suc.prems XOR_upper [of r m ?b] by auto
  have V: "doubling ?rb (2 ^ m) d i r = ?red ?k" "doubling ?rb (2 ^ m) d i (partner i r) = ?red (xor ?k 1)"
    using Suc.IH [of r] Suc.IH [of "partner i r"] Suc.prems p by (simp_all add: partner_div)
  have half: "r div 2 ^ Suc i = ?k div 2"
    by (simp only: power_Suc2 zdiv_zmult2_eq [of 2])
  have join: "?rb (?red k) (?red (k + 1)) = reduced dtype op count (2 ^ Suc i) (\<lambda>q. d (2 ^ Suc i * (k div 2) + int q))"
    if "even k" for k
  proof -
    have base: "2 ^ Suc i * (k div 2) = ?b * k" and two: "(2 :: nat) ^ Suc i = 2 ^ i + 2 ^ i"
      using that by simp_all
    have shift: "(\<lambda>q. d (?b * (k + 1) + int q)) = (\<lambda>q. d (?b * k + int (2 ^ i + q)))"
      by (simp add: algebra_simps)
    show ?thesis
      unfolding base two shift by (rule reduce_bytes_reduced [OF op]) simp_all
  qed
  have comm: "?rb (?red j) (?red k) = ?rb (?red k) (?red j)" for j k
    using op(1) by (intro reduce_bytes_comm [OF op]) simp_all
  show ?case
  proof (cases "even ?k")
    case True
    then show ?thesis
      using p V half join [OF True] comm [of "?k + 1" ?k] by (simp add: xor_1)
  next
    case False
    then have "even (?k - 1)" "(?k - 1) div 2 = ?k div 2"
      by (auto elim: oddE)
    then show ?thesis
      using p V half join [of "?k - 1"] False by (simp add: xor_1)
  qed
qed

lemma doubling_all:
  assumes "int_type dtype" "op \<noteq> OpAVG" and "\<And>r. length (d r) = count * GetDataTypeSize dtype"
    and "0 \<le> r" "r < 2 ^ m"
  shows "doubling (reduce_bytes F count dtype op w) (2 ^ m) d (rounds (2 ^ m)) r =
      reduced dtype op count (2 ^ m) (\<lambda>q. d (int q))"
  using doubling_block [OF assms(1-3) order_refl assms(4,5)] assms(4,5) by (simp add: rounds_power)

end
