(* ===== verification/FullMeshResults.thy ===== *)
theory FullMeshResults
  imports Doubling RingResults
begin

text \<open>
  What the collectives of \<open>TopologyFullMesh\<close> deliver, for every world size, every capacity of
  the links and every scheduler.
\<close>

lemma wired_comm_mesh [simp]: "wired_mesh ws (\<lambda>_. wired_comm)"
  by (simp add: wired_mesh_def wired_comm_def)

lemma peers_list: "set (filter (\<lambda>p. p \<noteq> root) (map int [0..<nat ws])) = {p. 0 \<le> p \<and> p < ws \<and> p \<noteq> root}"
  using zero_le_imp_eq_int by (force simp: zless_nat_eq_int_zless)

section \<open>Moving data\<close>

lemma FullMesh_Broadcast_syncs:
  assumes w: "wired_mesh ws comm" and root: "0 \<le> root" "root < ws" and N: "healthy N"
    and len: "\<And>r. length (buf r) = count * GetDataTypeSize dtype"
  shows "syncs N (world ws (\<lambda>r. FullMesh_Broadcast (mesh_topo ws r) (comm r) (buf r) count dtype root))
    (world ws (\<lambda>r. io_return (buf root)))"
proof (rule syncs_fanout [OF N, where root = root and data = "buf root" and kb = "\<lambda>r. io_store (buf r) 0"
      and ps = "filter (\<lambda>p. p \<noteq> root) (map int [0..<nat ws])"
      and k = "\<lambda>rs. if \<forall>res\<in>set rs. res = Sent then io_return (buf root) else io_fail SendFailed"])
  let ?ps = "filter (\<lambda>p. p \<noteq> root) (map int [0..<nat ws])"
  show "distinct ?ps"
    by (simp add: distinct_map)
  show "root \<notin> set ?ps"
    by simp
  have sends: "map (\<lambda>peer. case GetTransport (comm root) peer of None \<Rightarrow> OFail | Some tr \<Rightarrow> OSend tr data) ?ps = map (\<lambda>p. OSend p data) ?ps" for data
    by (rule map_cong) (use root in \<open>auto simp: wired_mesh_transport [OF w]\<close>)
  show "world ws (\<lambda>r. FullMesh_Broadcast (mesh_topo ws r) (comm r) (buf r) count dtype root) root =
      Ops (map (\<lambda>p. OSend p (buf root)) ?ps) (\<lambda>rs. if \<forall>res\<in>set rs. res = Sent then io_return (buf root) else io_fail SendFailed)"
    using root len by (simp add: FullMesh_Broadcast_def Let_def sends mem_simps mult.commute)
  fix r
  show "world ws (\<lambda>r. FullMesh_Broadcast (mesh_topo ws r) (comm r) (buf r) count dtype root) r =
      bind_io (io_recv root (length (buf root))) (io_store (buf r) 0)" if "r \<in> set ?ps"
    using that root len unfolding peers_list
    by (simp add: FullMesh_Broadcast_def Let_def wired_mesh_transport [OF w] mult.commute)
  show "world ws (\<lambda>r. io_return (buf root)) r =
      (if r = root then (if \<forall>res\<in>set (replicate (length ?ps) Sent). res = Sent then io_return (buf root) else io_fail SendFailed)
       else if r \<in> set ?ps then io_store (buf r) 0 (buf root)
       else world ws (\<lambda>r. FullMesh_Broadcast (mesh_topo ws r) (comm r) (buf r) count dtype root) r)"
    using root len unfolding peers_list by (auto simp: mem_simps world_def)
qed

text \<open>
  C26: When every rank of a full mesh calls \<open>Broadcast\<close> with the same root, all calls return
  true and every rank's buffer holds the bytes the root had, whatever order the root's threads
  run in.
\<close>

theorem FullMesh_Broadcast_delivers:
  assumes "healthy N" "wired_mesh ws comm" "0 \<le> root" "root < ws"
    and "\<And>r. length (buf r) = count * GetDataTypeSize dtype"
  shows "delivers N ws (\<lambda>r. FullMesh_Broadcast (mesh_topo ws r) (comm r) (buf r) count dtype root) (\<lambda>r. Inr (buf root))"
  by (rule delivers_by_schedule, rule FullMesh_Broadcast_syncs) (use assms in auto)

lemma FullMesh_Broadcast_delivers_witness:
  "delivers tight_net 4 (\<lambda>r. FullMesh_Broadcast (mesh_topo 4 r) wired_comm [word_of_int r, 0, 0, 7] 1 INT32 2)
     (\<lambda>r. Inr [2, 0, 0, 7])"
  using FullMesh_Broadcast_delivers [of tight_net 4 "\<lambda>_. wired_comm" 2 "\<lambda>r. [word_of_int r, 0, 0, 7]" 1 INT32] by simp

text \<open>The receive buffer of a root that has the blocks of the peers before \<open>m\<close> and its own.\<close>

definition collected :: "int \<Rightarrow> int \<Rightarrow> (nat \<Rightarrow> bytes) \<Rightarrow> (nat \<Rightarrow> bytes) \<Rightarrow> nat \<Rightarrow> bytes" where
  "collected ws me D old m = chunked (nat ws) (\<lambda>c. if c < m \<or> int c = me then D c else old c)"

lemma collected_start:
  assumes "length buf = nat ws * cb" "length (D (nat me)) = cb" "0 \<le> me" "me < ws"
  shows "mem_store buf (nat me * cb) (D (nat me)) = Some (collected ws me D (chunk_of cb buf) 0)"
proof -
  have buf: "buf = chunked (nat ws) (chunk_of cb buf)"
    using chunked_chunk_of [OF assms(1)] by simp
  have "mem_store (chunked (nat ws) (chunk_of cb buf)) (nat me * cb) (D (nat me)) =
      Some (chunked (nat ws) ((chunk_of cb buf)(nat me := D (nat me))))"
    by (rule mem_store_chunked) (use assms length_chunk_of [OF assms(1)] in auto)
  also have "chunked (nat ws) ((chunk_of cb buf)(nat me := D (nat me))) = collected ws me D (chunk_of cb buf) 0"
    unfolding collected_def by (rule chunked_cong) (use assms in auto)
  finally show ?thesis
    using buf by simp
qed

lemma collected_step:
  assumes "m < nat ws" "int m \<noteq> me" "\<And>c. length (D c) = cb" "\<And>c. c < nat ws \<Longrightarrow> length (old c) = cb"
  shows "mem_store (collected ws me D old m) (m * cb) (D m) = Some (collected ws me D old (Suc m))"
  unfolding collected_def
  by (subst mem_store_chunked) (use assms in \<open>auto intro!: chunked_cong simp: less_Suc_eq\<close>)

lemma collected_self: "int m = me \<Longrightarrow> collected ws me D old (Suc m) = collected ws me D old m"
  unfolding collected_def by (rule chunked_cong) (auto simp: less_Suc_eq)

lemma collected_all: "collected ws me D old (nat ws) = chunked (nat ws) D"
  unfolding collected_def by (rule chunked_cong) simp

lemma FullMesh_Gather_syncs:
  assumes w: "wired_mesh ws comm" and root: "0 \<le> root" "root < ws" and ws: "ws < 2 ^ 31" and N: "healthy N"
    and len: "\<And>r. length (d r) = count * GetDataTypeSize dtype"
    and rlen: "length (rbuf root) = nat ws * (count * GetDataTypeSize dtype)"
  shows "syncs N (world ws (\<lambda>r. FullMesh_Gather (mesh_topo ws r) (comm r) (d r) (rbuf r) count dtype root))
    (world ws (\<lambda>r. io_return (if r = root then chunked (nat ws) (\<lambda>c. d (int c)) else rbuf r)))"
proof -
  let ?cb = "count * GetDataTypeSize dtype"
  define S where "S = collected ws root (\<lambda>c. d (int c)) (chunk_of ?cb (rbuf root))"
  define body where "body = (\<lambda>peer recv_buf. if int peer = root then io_return recv_buf
      else bind_io (get_transport (comm root) (int peer)) (\<lambda>transport.
        bind_io (io_recv transport ?cb) (io_store recv_buf (peer * ?cb))))"
  define leaf where "leaf = (\<lambda>r. bind_io (io_send root (d r)) (\<lambda>_. io_return (rbuf r)))"
  have "to_size root = nat root"
    using root ws by simp
  then have "FullMesh_Gather (mesh_topo ws root) (comm root) (d root) (rbuf root) count dtype root = for_each [0..<nat ws] body (S 0)"
    using root len collected_start [OF rlen, of "\<lambda>c. d (int c)" root]
    by (simp add: FullMesh_Gather_def Let_def mem_simps mult.commute S_def body_def)
  then have "world ws (\<lambda>r. FullMesh_Gather (mesh_topo ws r) (comm r) (d r) (rbuf r) count dtype root) =
      world ws (\<lambda>r. if r = root then bind_io (for_each [0..<nat ws] body (S 0)) io_return else leaf r)"
    using root len
    by (intro world_cong) (auto simp: FullMesh_Gather_def Let_def leaf_def mem_simps mult.commute wired_mesh_transport [OF w])
  moreover have "syncs N \<dots> (world ws (\<lambda>r. if r = root then io_return (S (nat ws)) else io_return (rbuf r)))"
  proof (rule syncs_star_recv [OF _ root N])
    show "body m (S m) = io_return (S (Suc m))" if "int m = root" for m
      using that by (simp add: body_def S_def collected_self)
    show "body m (S m) = bind_io (io_recv (int m) (length (d (int m)))) (io_store (S m) (m * ?cb)) \<and>
        io_store (S m) (m * ?cb) (d (int m)) = io_return (S (Suc m))"
      if "m < nat ws" "int m \<noteq> root" for m
      using that root len collected_step [OF that, of "\<lambda>c. d (int c)" ?cb "chunk_of ?cb (rbuf root)"] length_chunk_of [OF rlen]
      by (auto simp: body_def S_def wired_mesh_transport [OF w])
  qed (auto simp: leaf_def)
  moreover have "world ws (\<lambda>r. if r = root then io_return (S (nat ws)) else io_return (rbuf r)) =
      world ws (\<lambda>r. io_return (if r = root then chunked (nat ws) (\<lambda>c. d (int c)) else rbuf r))"
    by (rule world_cong) (simp add: S_def collected_all)
  ultimately show ?thesis by simp
qed

text \<open>
  C27: When every rank of a full mesh calls \<open>Gather\<close>, all calls return true, the root has the
  blocks of all ranks in rank order, and the receive buffers of the others are unchanged.
\<close>

theorem FullMesh_Gather_delivers:
  assumes "healthy N" "wired_mesh ws comm" "0 \<le> root" "root < ws" "ws < 2 ^ 31"
    and "\<And>r. length (d r) = count * GetDataTypeSize dtype"
    and "length (rbuf root) = nat ws * (count * GetDataTypeSize dtype)"
  shows "delivers N ws (\<lambda>r. FullMesh_Gather (mesh_topo ws r) (comm r) (d r) (rbuf r) count dtype root)
     (\<lambda>r. Inr (if r = root then chunked (nat ws) (\<lambda>c. d (int c)) else rbuf r))"
  by (rule delivers_by_schedule, rule FullMesh_Gather_syncs) (use assms in auto)

lemma FullMesh_Gather_delivers_witness:
  "delivers tight_net 3 (\<lambda>r. FullMesh_Gather (mesh_topo 3 r) wired_comm (replicate 4 (word_of_int r)) (replicate 12 0) 1 INT32 1)
     (\<lambda>r. Inr (if r = 1 then [0, 0, 0, 0, 1, 1, 1, 1, 2, 2, 2, 2] else replicate 12 0))"
proof -
  have "chunked (nat 3) (\<lambda>c. replicate 4 (word_of_int (int c))) = [0, 0, 0, 0, 1, 1, 1, 1, 2, 2, 2, 2 :: byte]"
    by code_simp
  moreover have "delivers tight_net 3 (\<lambda>r. FullMesh_Gather (mesh_topo 3 r) wired_comm (replicate 4 (word_of_int r)) (replicate 12 0) 1 INT32 1)
     (\<lambda>r. Inr (if r = 1 then chunked (nat 3) (\<lambda>c. replicate 4 (word_of_int (int c))) else replicate 12 0))"
    by (rule FullMesh_Gather_delivers) simp_all
  ultimately show ?thesis by (simp only:)
qed

lemma FullMesh_Scatter_syncs:
  assumes w: "wired_mesh ws comm" and root: "0 \<le> root" "root < ws" and ws: "ws < 2 ^ 31" and N: "healthy N"
    and slen: "length (sbuf root) = nat ws * (count * GetDataTypeSize dtype)"
    and rlen: "\<And>r. length (rbuf r) = count * GetDataTypeSize dtype"
  shows "syncs N (world ws (\<lambda>r. FullMesh_Scatter (mesh_topo ws r) (comm r) (sbuf r) (rbuf r) count dtype root))
    (world ws (\<lambda>r. io_return (chunk_of (count * GetDataTypeSize dtype) (sbuf root) (nat r))))"
proof -
  let ?cb = "count * GetDataTypeSize dtype"
  let ?D = "chunk_of ?cb (sbuf root)"
  define body where "body = (\<lambda>peer (recv_buf :: bytes). if int peer = root then io_return recv_buf
      else bind_io (get_transport (comm root) (int peer)) (\<lambda>transport.
        bind_io (io_load (sbuf root) (peer * ?cb) ?cb) (\<lambda>data.
        bind_io (io_send transport data) (\<lambda>_. io_return recv_buf))))"
  define leaf where "leaf = (\<lambda>r. bind_io (io_recv root ?cb) (io_store (rbuf r) 0))"
  have Dlen: "c < nat ws \<Longrightarrow> length (?D c) = ?cb" for c
    by (rule length_chunk_of [OF slen])
  have load: "mem_load (sbuf root) (c * ?cb) ?cb = Some (?D c)" if "c < nat ws" for c
  proof -
    have "mem_load (chunked (nat ws) ?D) (c * ?cb) ?cb = Some (?D c)"
      by (rule mem_load_chunked) (use that Dlen in auto)
    then show ?thesis
      using chunked_chunk_of [OF slen] by simp
  qed
  have "to_size root = nat root"
    using root ws by simp
  then have "FullMesh_Scatter (mesh_topo ws root) (comm root) (sbuf root) (rbuf root) count dtype root =
      for_each [0..<nat ws] body (?D (nat root))"
    using root load [of "nat root"] Dlen [of "nat root"] rlen
    by (simp add: FullMesh_Scatter_def Let_def mem_simps mult.commute body_def)
  then have "world ws (\<lambda>r. FullMesh_Scatter (mesh_topo ws r) (comm r) (sbuf r) (rbuf r) count dtype root) =
      world ws (\<lambda>r. if r = root then bind_io (for_each [0..<nat ws] body (?D (nat root))) io_return else leaf r)"
    using root
    by (intro world_cong) (auto simp: FullMesh_Scatter_def Let_def leaf_def mult.commute wired_mesh_transport [OF w])
  moreover have "syncs N \<dots> (world ws (\<lambda>r. if r = root then io_return (?D (nat root)) else io_return (?D (nat r))))"
  proof (rule syncs_star_send [OF _ root N, where S = "\<lambda>_. ?D (nat root)" and x = ?D and L = "\<lambda>m. io_store (rbuf (int m)) 0"])
    show "body m (?D (nat root)) = bind_io (io_send (int m) (?D m)) (\<lambda>_. io_return (?D (nat root)))"
      if "m < nat ws" "int m \<noteq> root" for m
      using that root load [OF that(1)] by (simp add: body_def wired_mesh_transport [OF w])
    show "leaf (int m) = bind_io (io_recv root (length (?D m))) (io_store (rbuf (int m)) 0) \<and>
        io_store (rbuf (int m)) 0 (?D m) = io_return (?D (nat (int m)))" if "m < nat ws" for m
      using Dlen [OF that] rlen by (simp add: leaf_def mem_simps)
  qed (auto simp: body_def)
  moreover have "world ws (\<lambda>r. if r = root then io_return (?D (nat root)) else io_return (?D (nat r))) = world ws (\<lambda>r. io_return (?D (nat r)))"
    by (rule world_cong) simp
  ultimately show ?thesis by simp
qed

text \<open>
  C28: When every rank of a full mesh calls \<open>Scatter\<close>, all calls return true and rank \<open>r\<close> has
  block \<open>r\<close> of the root's send buffer.
\<close>

theorem FullMesh_Scatter_delivers:
  assumes "healthy N" "wired_mesh ws comm" "0 \<le> root" "root < ws" "ws < 2 ^ 31"
    and "length (sbuf root) = nat ws * (count * GetDataTypeSize dtype)"
    and "\<And>r. length (rbuf r) = count * GetDataTypeSize dtype"
  shows "delivers N ws (\<lambda>r. FullMesh_Scatter (mesh_topo ws r) (comm r) (sbuf r) (rbuf r) count dtype root)
     (\<lambda>r. Inr (chunk_of (count * GetDataTypeSize dtype) (sbuf root) (nat r)))"
  by (rule delivers_by_schedule, rule FullMesh_Scatter_syncs) (use assms in auto)

lemma FullMesh_Scatter_delivers_witness:
  "delivers tight_net 3 (\<lambda>r. FullMesh_Scatter (mesh_topo 3 r) wired_comm [0, 0, 0, 0, 1, 1, 1, 1, 2, 2, 2, 2] [9, 9, 9, 9] 1 INT32 2)
     (\<lambda>r. Inr (take 4 (drop (nat r * 4) [0, 0, 0, 0, 1, 1, 1, 1, 2, 2, 2, 2])))"
  using FullMesh_Scatter_delivers [of tight_net 3 "\<lambda>_. wired_comm" 2 "\<lambda>_. [0, 0, 0, 0, 1, 1, 1, 1, 2, 2, 2, 2]" 1 INT32 "\<lambda>_. [9, 9, 9, 9]"]
  by (simp add: chunk_of_def)

lemma FullMesh_AllGather_syncs:
  assumes w: "wired_mesh ws comm" and ws: "ws < 2 ^ 31" and N: "healthy N"
    and len: "\<And>r. length (d r) = count * GetDataTypeSize dtype"
    and rlen: "\<And>r. length (rbuf r) = nat ws * (count * GetDataTypeSize dtype)"
  shows "syncs N (world ws (\<lambda>r. FullMesh_AllGather (mesh_topo ws r) (comm r) (d r) (rbuf r) count dtype))
    (world ws (\<lambda>r. io_return (chunked (nat ws) (\<lambda>c. d (int c)))))"
proof -
  let ?cb = "count * GetDataTypeSize dtype"
  define S where "S = (\<lambda>r. collected ws r (\<lambda>c. d (int c)) (chunk_of ?cb (rbuf r)))"
  define body where "body = (\<lambda>r. FullMesh_AllGather_step (mesh_topo ws r) (comm r) (d r) ?cb)"
  have store: "io_store (S (int r) p) (p * ?cb) (d (int p)) = io_return (S (int r) (Suc p))" if "p < nat ws" "p \<noteq> r" for r p
    using that len collected_step [OF that(1), of "int r" "\<lambda>c. d (int c)" ?cb "chunk_of ?cb (rbuf (int r))"] length_chunk_of [OF rlen]
    by (auto simp: S_def)
  have "syncs N (world ws (\<lambda>r. bind_io (for_each [0..<nat ws] (body r) (S r 0)) io_return)) (world ws (\<lambda>r. io_return (S r (nat ws))))"
  proof (rule syncs_all_pairs [OF N, where x = "\<lambda>r p. d (int r)" and K = "\<lambda>r p. io_store (S (int r) p) (p * ?cb)"
        and L = "\<lambda>r p data. bind_io (io_store (S (int r) p) (p * ?cb) data) (\<lambda>recv_buf. bind_io (io_send (int p) (d (int r))) (\<lambda>_. io_return recv_buf))"])
    show "body (int r) r (S (int r) r) = io_return (S (int r) (Suc r))" for r
      by (simp add: body_def S_def FullMesh_AllGather_step_def collected_self)
  qed (auto simp: body_def FullMesh_AllGather_step_def wired_mesh_transport [OF w] mem_simps len store)
  moreover have "world ws (\<lambda>r. FullMesh_AllGather (mesh_topo ws r) (comm r) (d r) (rbuf r) count dtype) =
      world ws (\<lambda>r. bind_io (for_each [0..<nat ws] (body r) (S r 0)) io_return)"
  proof (rule world_cong)
    fix r assume r: "0 \<le> r" "r < ws"
    then have "to_size r = nat r" "mem_store (rbuf r) (nat r * ?cb) (d r) = Some (S r 0)"
      using ws len collected_start [OF rlen, of "\<lambda>c. d (int c)" r r] by (simp_all add: S_def)
    then show "FullMesh_AllGather (mesh_topo ws r) (comm r) (d r) (rbuf r) count dtype = bind_io (for_each [0..<nat ws] (body r) (S r 0)) io_return"
      using len by (simp add: FullMesh_AllGather_def Let_def mem_simps mult.commute body_def)
  qed
  ultimately show ?thesis
    by (simp add: S_def collected_all)
qed

text \<open>
  C19: When every rank of a full mesh calls \<open>AllGather\<close>, all calls return true and every rank
  has the blocks of all ranks in rank order. Each pair of ranks exchanges its blocks, the
  smaller rank sending first, and no schedule deadlocks.
\<close>

theorem FullMesh_AllGather_delivers:
  assumes "healthy N" "wired_mesh ws comm" "ws < 2 ^ 31"
    and "\<And>r. length (d r) = count * GetDataTypeSize dtype"
    and "\<And>r. length (rbuf r) = nat ws * (count * GetDataTypeSize dtype)"
  shows "delivers N ws (\<lambda>r. FullMesh_AllGather (mesh_topo ws r) (comm r) (d r) (rbuf r) count dtype)
     (\<lambda>r. Inr (chunked (nat ws) (\<lambda>c. d (int c))))"
  by (rule delivers_by_schedule, rule FullMesh_AllGather_syncs) (use assms in auto)

lemma FullMesh_AllGather_delivers_witness:
  "delivers tight_net 3 (\<lambda>r. FullMesh_AllGather (mesh_topo 3 r) wired_comm (replicate 4 (word_of_int r)) (replicate 12 0) 1 INT32)
     (\<lambda>r. Inr [0, 0, 0, 0, 1, 1, 1, 1, 2, 2, 2, 2])"
proof -
  have "chunked (nat 3) (\<lambda>c. replicate 4 (word_of_int (int c))) = [0, 0, 0, 0, 1, 1, 1, 1, 2, 2, 2, 2 :: byte]"
    by code_simp
  moreover have "delivers tight_net 3 (\<lambda>r. FullMesh_AllGather (mesh_topo 3 r) wired_comm (replicate 4 (word_of_int r)) (replicate 12 0) 1 INT32)
     (\<lambda>r. Inr (chunked (nat 3) (\<lambda>c. replicate 4 (word_of_int (int c)))))"
    by (rule FullMesh_AllGather_delivers) simp_all
  ultimately show ?thesis by (simp only:)
qed

lemma FullMesh_AllToAll_syncs:
  assumes w: "wired_mesh ws comm" and ws: "ws < 2 ^ 31" and N: "healthy N"
    and dlen: "\<And>r. length (d r) = nat ws * (count * GetDataTypeSize dtype)"
    and rlen: "\<And>r. length (rbuf r) = nat ws * (count * GetDataTypeSize dtype)"
  shows "syncs N (world ws (\<lambda>r. FullMesh_AllToAll (mesh_topo ws r) (comm r) (d r) (rbuf r) count dtype))
    (world ws (\<lambda>r. io_return (chunked (nat ws) (\<lambda>c. chunk_of (count * GetDataTypeSize dtype) (d (int c)) (nat r)))))"
proof -
  let ?cb = "count * GetDataTypeSize dtype"
  define x where "x = (\<lambda>r p. if r < nat ws \<and> p < nat ws then chunk_of ?cb (d (int r)) p else replicate ?cb 0)"
  have xlen: "length (x r p) = ?cb" for r p
    using length_chunk_of [OF dlen] by (simp add: x_def)
  have load: "mem_load (d (int r)) (p * ?cb) ?cb = Some (x r p)" if "p < nat ws" "r < nat ws" for r p
  proof -
    have "d (int r) = chunked (nat ws) (x r)"
      using chunked_chunk_of [OF dlen] chunked_cong [of "nat ws" "x r" "chunk_of ?cb (d (int r))"] that by (simp add: x_def)
    then show ?thesis
      using that xlen by (simp add: mem_load_chunked)
  qed
  define S where "S = (\<lambda>r. collected ws r (\<lambda>c. x c (nat r)) (chunk_of ?cb (rbuf r)))"
  define body where "body = (\<lambda>r. FullMesh_AllToAll_step (mesh_topo ws r) (comm r) (d r) ?cb)"
  have store: "io_store (S (int r) p) (p * ?cb) (x p r) = io_return (S (int r) (Suc p))" if "p < nat ws" "p \<noteq> r" for r p
    using that xlen collected_step [OF that(1), of "int r" "\<lambda>c. x c r" ?cb "chunk_of ?cb (rbuf (int r))"] length_chunk_of [OF rlen]
    by (auto simp: S_def)
  have "syncs N (world ws (\<lambda>r. bind_io (for_each [0..<nat ws] (body r) (S r 0)) io_return)) (world ws (\<lambda>r. io_return (S r (nat ws))))"
  proof (rule syncs_all_pairs [OF N, where x = x and K = "\<lambda>r p. io_store (S (int r) p) (p * ?cb)"
        and L = "\<lambda>r p data. bind_io (io_store (S (int r) p) (p * ?cb) data) (\<lambda>recv_buf.
          bind_io (io_load (d (int r)) (p * ?cb) ?cb) (\<lambda>data. bind_io (io_send (int p) data) (\<lambda>_. io_return recv_buf)))"])
    show "body (int r) r (S (int r) r) = io_return (S (int r) (Suc r))" for r
      by (simp add: body_def S_def FullMesh_AllToAll_step_def collected_self)
  qed (auto simp: body_def FullMesh_AllToAll_step_def wired_mesh_transport [OF w] load xlen store)
  moreover have "world ws (\<lambda>r. FullMesh_AllToAll (mesh_topo ws r) (comm r) (d r) (rbuf r) count dtype) =
      world ws (\<lambda>r. bind_io (for_each [0..<nat ws] (body r) (S r 0)) io_return)"
  proof (rule world_cong)
    fix r assume r: "0 \<le> r" "r < ws"
    then have "to_size r = nat r" "mem_store (rbuf r) (nat r * ?cb) (x (nat r) (nat r)) = Some (S r 0)"
      using ws xlen collected_start [OF rlen, of "\<lambda>c. x c (nat r)" r r] by (simp_all add: S_def)
    moreover have "mem_load (d r) (nat r * ?cb) ?cb = Some (x (nat r) (nat r))"
      using load [of "nat r" "nat r"] r by simp
    ultimately show "FullMesh_AllToAll (mesh_topo ws r) (comm r) (d r) (rbuf r) count dtype = bind_io (for_each [0..<nat ws] (body r) (S r 0)) io_return"
      by (simp add: FullMesh_AllToAll_def Let_def mult.commute body_def)
  qed
  moreover have "world ws (\<lambda>r. io_return (S r (nat ws))) = world ws (\<lambda>r. io_return (chunked (nat ws) (\<lambda>c. chunk_of ?cb (d (int c)) (nat r))))"
    by (rule world_cong) (auto simp: S_def collected_all x_def intro!: chunked_cong)
  ultimately show ?thesis by simp
qed

text \<open>
  C20: When every rank of a full mesh calls \<open>AllToAll\<close>, all calls return true and block \<open>c\<close> of
  rank \<open>r\<close>'s receive buffer is block \<open>r\<close> of rank \<open>c\<close>'s send buffer.
\<close>

theorem FullMesh_AllToAll_delivers:
  assumes "healthy N" "wired_mesh ws comm" "ws < 2 ^ 31"
    and "\<And>r. length (d r) = nat ws * (count * GetDataTypeSize dtype)"
    and "\<And>r. length (rbuf r) = nat ws * (count * GetDataTypeSize dtype)"
  shows "delivers N ws (\<lambda>r. FullMesh_AllToAll (mesh_topo ws r) (comm r) (d r) (rbuf r) count dtype)
     (\<lambda>r. Inr (chunked (nat ws) (\<lambda>c. chunk_of (count * GetDataTypeSize dtype) (d (int c)) (nat r))))"
  by (rule delivers_by_schedule, rule FullMesh_AllToAll_syncs) (use assms in auto)

lemma FullMesh_AllToAll_delivers_witness:
  "delivers tight_net 2 (\<lambda>r. FullMesh_AllToAll (mesh_topo 2 r) wired_comm
        (if r = 0 then [0, 0, 0, 0, 1, 1, 1, 1] else [2, 2, 2, 2, 3, 3, 3, 3]) (replicate 8 0) 1 INT32)
     (\<lambda>r. Inr (chunked (nat 2) (\<lambda>c. chunk_of (1 * GetDataTypeSize INT32)
        (if int c = 0 then [0, 0, 0, 0, 1, 1, 1, 1] else [2, 2, 2, 2, 3, 3, 3, 3]) (nat r))))"
  by (rule FullMesh_AllToAll_delivers) simp_all

section \<open>Reducing data\<close>

lemma FullMesh_Reduce_syncs:
  assumes w: "wired_mesh ws comm" and root: "0 \<le> root" "root < ws" and N: "healthy N"
    and len: "\<And>r. length (d r) = count * GetDataTypeSize dtype"
    and rlen: "length (rbuf root) = count * GetDataTypeSize dtype"
  shows "syncs N (world ws (\<lambda>r. FullMesh_Reduce F (mesh_topo ws r) (comm r) (d r) (rbuf r) count dtype op root))
    (world ws (\<lambda>r. io_return (if r = root
       then fold (\<lambda>p acc. reduce_bytes F count dtype op ws (d (int p)) acc) (filter (\<lambda>p. int p \<noteq> root) [0..<nat ws]) (d root)
       else rbuf r)))"
proof -
  let ?cb = "count * GetDataTypeSize dtype" and ?rb = "reduce_bytes F count dtype op ws"
  define S where "S = (\<lambda>m. fold (\<lambda>p acc. ?rb (d (int p)) acc) (filter (\<lambda>p. int p \<noteq> root) [0..<m]) (d root))"
  have "length z = ?cb \<Longrightarrow> length (fold (\<lambda>p acc. ?rb (d (int p)) acc) ps z) = ?cb" for ps z
    by (induction ps arbitrary: z) (simp_all add: len)
  then have Slen: "length (S m) = ?cb" for m
    by (simp add: S_def len)
  define body where "body = (\<lambda>peer recv_buf. if int peer = root then io_return recv_buf
      else bind_io (get_transport (comm root) (int peer)) (\<lambda>transport.
        bind_io (io_recv transport ?cb) (\<lambda>temp_buffer. io_reduce F temp_buffer recv_buf count dtype op ws)))"
  define leaf where "leaf = (\<lambda>r. bind_io (io_send root (d r)) (\<lambda>_. io_return (rbuf r)))"
  have "FullMesh_Reduce F (mesh_topo ws root) (comm root) (d root) (rbuf root) count dtype op root = for_each [0..<nat ws] body (S 0)"
    using len rlen by (simp add: FullMesh_Reduce_def Let_def mem_simps mult.commute S_def body_def cong: if_cong)
  then have "world ws (\<lambda>r. FullMesh_Reduce F (mesh_topo ws r) (comm r) (d r) (rbuf r) count dtype op root) =
      world ws (\<lambda>r. if r = root then bind_io (for_each [0..<nat ws] body (S 0)) io_return else leaf r)"
    using root len
    by (intro world_cong) (auto simp: FullMesh_Reduce_def Let_def leaf_def mem_simps mult.commute wired_mesh_transport [OF w])
  moreover have "syncs N \<dots> (world ws (\<lambda>r. if r = root then io_return (S (nat ws)) else io_return (rbuf r)))"
  proof (rule syncs_star_recv [OF _ root N])
    show "body m (S m) = io_return (S (Suc m))" if "int m = root" for m
      using that by (simp add: body_def S_def)
    show "body m (S m) = bind_io (io_recv (int m) (length (d (int m)))) (\<lambda>temp_buffer. io_reduce F temp_buffer (S m) count dtype op ws) \<and>
        io_reduce F (d (int m)) (S m) count dtype op ws = io_return (S (Suc m))"
      if "m < nat ws" "int m \<noteq> root" for m
    proof
      show "body m (S m) = bind_io (io_recv (int m) (length (d (int m)))) (\<lambda>temp_buffer. io_reduce F temp_buffer (S m) count dtype op ws)"
        using that root by (simp add: body_def wired_mesh_transport [OF w] len)
      have "S (Suc m) = ?rb (d (int m)) (S m)"
        using that by (simp add: S_def)
      then show "io_reduce F (d (int m)) (S m) count dtype op ws = io_return (S (Suc m))"
        using len Slen by (simp add: io_reduce_def PerformReduce_ok)
    qed
  qed (auto simp: leaf_def)
  moreover have "world ws (\<lambda>r. if r = root then io_return (S (nat ws)) else io_return (rbuf r)) =
      world ws (\<lambda>r. io_return (if r = root then S (nat ws) else rbuf r))"
    by (rule world_cong) simp
  ultimately show ?thesis
    unfolding S_def by simp
qed

lemma mesh_reduced:
  assumes op: "int_type dtype" "op \<noteq> OpAVG" and root: "0 \<le> root" "root < ws"
    and len: "\<And>r. length (d r) = count * GetDataTypeSize dtype"
  shows "fold (\<lambda>p acc. reduce_bytes F count dtype op w (d (int p)) acc) (filter (\<lambda>p. int p \<noteq> root) [0..<nat ws]) (d root) =
      reduced dtype op count (nat ws) (\<lambda>q. d (int q))"
proof -
  let ?rb = "reduce_bytes F count dtype op w" and ?ps = "filter (\<lambda>p. int p \<noteq> root) [0..<nat ws]"
  have "fold (\<lambda>p acc. ?rb (d (int p)) acc) ?ps (d root) = fold (\<lambda>p acc. ?rb acc (d (int p))) ?ps (d root)"
    by (rule fold_reduce_bytes_as [where R = "\<lambda>s r. ?rb r s" and m = "count * GetDataTypeSize dtype"])
       (use len reduce_bytes_comm [OF op] in auto)
  also have "\<dots> = reduced dtype op count (nat ws) (\<lambda>q. d (int q))"
  proof -
    have "distinct (nat root # ?ps)" "set (nat root # ?ps) = {0..<nat ws}"
      using root by auto
    then show ?thesis
      using fold_reduce_bytes [OF op, of "nat root" ?ps "nat ws" "\<lambda>q. d (int q)" count F w] root len by simp
  qed
  finally show ?thesis .
qed

text \<open>
  C29: When every rank of a full mesh calls \<open>Reduce\<close> with SUM, MAX or MIN on integers, all calls
  return true, the root has the element-wise combination of all send buffers, and the receive
  buffers of the others are unchanged.
\<close>

theorem FullMesh_Reduce_delivers:
  assumes "healthy N" "wired_mesh ws comm" "0 \<le> root" "root < ws" "int_type dtype" "op \<noteq> OpAVG"
    and "\<And>r. length (d r) = count * GetDataTypeSize dtype" "length (rbuf root) = count * GetDataTypeSize dtype"
  shows "delivers N ws (\<lambda>r. FullMesh_Reduce F (mesh_topo ws r) (comm r) (d r) (rbuf r) count dtype op root)
     (\<lambda>r. Inr (if r = root then reduced dtype op count (nat ws) (\<lambda>q. d (int q)) else rbuf r))"
proof -
  have "delivers N ws (\<lambda>r. FullMesh_Reduce F (mesh_topo ws r) (comm r) (d r) (rbuf r) count dtype op root)
     (\<lambda>r. Inr (if r = root
       then fold (\<lambda>p acc. reduce_bytes F count dtype op ws (d (int p)) acc) (filter (\<lambda>p. int p \<noteq> root) [0..<nat ws]) (d root)
       else rbuf r))"
    by (rule delivers_by_schedule, rule FullMesh_Reduce_syncs) (use assms in auto)
  moreover have "fold (\<lambda>p acc. reduce_bytes F count dtype op ws (d (int p)) acc) (filter (\<lambda>p. int p \<noteq> root) [0..<nat ws]) (d root) =
      reduced dtype op count (nat ws) (\<lambda>q. d (int q))"
    by (rule mesh_reduced) (use assms in auto)
  ultimately show ?thesis
    by (simp only:)
qed

lemma FullMesh_Reduce_delivers_witness:
  "delivers tight_net 3 (\<lambda>r. FullMesh_Reduce some_fp (mesh_topo 3 r) wired_comm [word_of_int r, 1, 0, 0] [9, 9, 9, 9] 1 INT32 OpMIN 2)
     (\<lambda>r. Inr (if r = 2 then reduced INT32 OpMIN 1 (nat 3) (\<lambda>q. [word_of_int (int q), 1, 0, 0]) else [9, 9, 9, 9])) \<and>
   reduced INT32 OpMIN 1 (nat 3) (\<lambda>q. [word_of_int (int q), 1, 0, 0]) = [0, 1, 0, 0]"
proof
  show "delivers tight_net 3 (\<lambda>r. FullMesh_Reduce some_fp (mesh_topo 3 r) wired_comm [word_of_int r, 1, 0, 0] [9, 9, 9, 9] 1 INT32 OpMIN 2)
     (\<lambda>r. Inr (if r = 2 then reduced INT32 OpMIN 1 (nat 3) (\<lambda>q. [word_of_int (int q), 1, 0, 0]) else [9, 9, 9, 9]))"
    by (rule FullMesh_Reduce_delivers) (simp_all add: int_type_def)
qed code_simp

text \<open>
  C2: When every rank of a full mesh with a power of two of ranks calls \<open>AllReduce\<close> with SUM,
  MAX or MIN on integers, all calls return true and every rank has the element-wise combination
  of all send buffers. (Up to \<open>2 ^ 30\<close> ranks the mask stays within an \<open>int\<close>.)
\<close>

theorem FullMesh_AllReduce_delivers:
  assumes "healthy N" "wired_mesh (2 ^ m) comm" "m \<le> 30" "int_type dtype" "op \<noteq> OpAVG"
    and "\<And>r. length (d r) = count * GetDataTypeSize dtype" "\<And>r. length (rbuf r) = count * GetDataTypeSize dtype"
  shows "delivers N (2 ^ m) (\<lambda>r. FullMesh_AllReduce F (mesh_topo (2 ^ m) r) (comm r) (d r) (rbuf r) count dtype op)
     (\<lambda>r. Inr (reduced dtype op count (2 ^ m) (\<lambda>q. d (int q))))"
proof -
  have "delivers N (2 ^ m) (\<lambda>r. FullMesh_AllReduce F (mesh_topo (2 ^ m) r) (comm r) (d r) (rbuf r) count dtype op)
      (\<lambda>r. Inr (doubling (reduce_bytes F count dtype op (2 ^ m)) (2 ^ m) d (rounds (2 ^ m)) r))"
    by (rule delivers_by_schedule, rule FullMesh_AllReduce_syncs) (use assms in auto)
  then show ?thesis
    by (subst (asm) delivers_cong [OF refl]) (use assms in \<open>auto simp: doubling_all\<close>)
qed

lemma FullMesh_AllReduce_delivers_witness:
  "delivers tight_net (2 ^ 2) (\<lambda>r. FullMesh_AllReduce some_fp (mesh_topo (2 ^ 2) r) wired_comm (replicate 4 (word_of_int r)) (replicate 4 0) 1 INT32 OpSUM)
     (\<lambda>r. Inr (reduced INT32 OpSUM 1 (2 ^ 2) (\<lambda>q. replicate 4 (word_of_int (int q))))) \<and>
   reduced INT32 OpSUM 1 (2 ^ 2) (\<lambda>q. replicate 4 (word_of_int (int q))) = [6, 6, 6, 6]"
proof
  show "delivers tight_net (2 ^ 2) (\<lambda>r. FullMesh_AllReduce some_fp (mesh_topo (2 ^ 2) r) wired_comm (replicate 4 (word_of_int r)) (replicate 4 0) 1 INT32 OpSUM)
     (\<lambda>r. Inr (reduced INT32 OpSUM 1 (2 ^ 2) (\<lambda>q. replicate 4 (word_of_int (int q)))))"
    by (rule FullMesh_AllReduce_delivers) (simp_all add: int_type_def)
qed code_simp

text \<open>
  With three ranks it goes wrong: three ranks with \<open>1\<close>, \<open>2\<close> and \<open>4\<close> call
  \<open>AllReduce\<close> with SUM, all calls return true, and rank \<open>1\<close> is left with
  \<open>3\<close> instead of \<open>7\<close>, since its partner of the second round does not exist.
\<close>

theorem FullMesh_AllReduce_three:
  "delivers tight_net 3 (\<lambda>r. FullMesh_AllReduce F (mesh_topo 3 r) wired_comm (le_array 4 [2 ^ nat r :: 32 word]) (replicate 4 0) 1 INT32 OpSUM)
     (\<lambda>r. Inr (le_array 4 [if r = 1 then 3 else 7 :: 32 word]))"
proof -
  let ?d = "\<lambda>r. le_array 4 [2 ^ nat r :: 32 word]"
  have "delivers tight_net 3 (\<lambda>r. FullMesh_AllReduce F (mesh_topo 3 r) wired_comm (?d r) (replicate 4 0) 1 INT32 OpSUM)
      (\<lambda>r. Inr (doubling (reduce_bytes F 1 INT32 OpSUM 3) 3 ?d (rounds 3) r))"
    by (rule delivers_by_schedule, rule FullMesh_AllReduce_syncs) simp_all
  moreover have "doubling (reduce_bytes F 1 INT32 OpSUM 3) 3 ?d (rounds 3) r = le_array 4 [if r = 1 then 3 else 7 :: 32 word]"
    if "0 \<le> r" "r < 3" for r
  proof -
    have "doubling (reduce_bytes F 1 INT32 OpSUM 3) 3 ?d (rounds 3) 0 = le_array 4 [7 :: 32 word]"
      "doubling (reduce_bytes F 1 INT32 OpSUM 3) 3 ?d (rounds 3) 1 = le_array 4 [3 :: 32 word]"
      "doubling (reduce_bytes F 1 INT32 OpSUM 3) 3 ?d (rounds 3) 2 = le_array 4 [7 :: 32 word]"
      by code_simp+
    moreover have "r = 0 \<or> r = 1 \<or> r = 2"
      using that by linarith
    ultimately show ?thesis by auto
  qed
  ultimately show ?thesis
    by (subst (asm) delivers_cong [OF refl]) auto
qed

text \<open>
  C18: When every rank of a full mesh with a power of two of ranks calls \<open>ReduceScatter\<close> with
  SUM, MAX or MIN on integers, all calls return true and rank \<open>r\<close> has the element-wise
  combination of block \<open>r\<close> of all send buffers.
\<close>

theorem FullMesh_ReduceScatter_delivers:
  assumes "healthy N" "wired_mesh (2 ^ m) comm" "m \<le> 30" "int_type dtype" "op \<noteq> OpAVG"
    and "\<And>r. length (d r) = 2 ^ m * (count * GetDataTypeSize dtype)" "\<And>r. length (rbuf r) = count * GetDataTypeSize dtype"
  shows "delivers N (2 ^ m) (\<lambda>r. FullMesh_ReduceScatter F (mesh_topo (2 ^ m) r) (comm r) (d r) (rbuf r) count dtype op)
     (\<lambda>r. Inr (reduced dtype op count (2 ^ m) (\<lambda>q. chunk_of (count * GetDataTypeSize dtype) (d (int q)) (nat r))))"
proof -
  let ?cb = "count * GetDataTypeSize dtype"
  have "(2 :: int) ^ m \<le> 2 ^ 30"
    using assms(3) by (intro power_increasing) auto
  then have ws: "(2 :: int) ^ m < 2 ^ 31"
    by simp
  have "delivers N (2 ^ m) (\<lambda>r. FullMesh_ReduceScatter F (mesh_topo (2 ^ m) r) (comm r) (d r) (rbuf r) count dtype op)
      (\<lambda>r. Inr (doubling (reduce_bytes F count dtype op (2 ^ m)) (2 ^ m) (\<lambda>q. chunk_of ?cb (d q) (nat r)) (rounds (2 ^ m)) r))"
    by (rule delivers_by_schedule, rule FullMesh_ReduceScatter_syncs) (use assms ws in \<open>auto simp: nat_power_eq\<close>)
  moreover have "doubling (reduce_bytes F count dtype op (2 ^ m)) (2 ^ m) (\<lambda>q. chunk_of ?cb (d q) (nat r)) (rounds (2 ^ m)) r =
      reduced dtype op count (2 ^ m) (\<lambda>q. chunk_of ?cb (d (int q)) (nat r))" if "0 \<le> r" "r < 2 ^ m" for r
  proof (rule doubling_all [OF assms(4,5) _ that])
    have "nat r < 2 ^ m"
      using that by (simp add: nat_less_iff)
    then show "length (chunk_of ?cb (d q) (nat r)) = ?cb" for q
      by (rule length_chunk_of [OF assms(6)])
  qed
  ultimately show ?thesis
    by (subst (asm) delivers_cong [OF refl]) auto
qed

lemma FullMesh_ReduceScatter_delivers_witness:
  "delivers tight_net (2 ^ 1) (\<lambda>r. FullMesh_ReduceScatter some_fp (mesh_topo (2 ^ 1) r) wired_comm [word_of_int r, 1, 0, 0, 5, 0, 0, 0] [9, 9, 9, 9] 1 INT32 OpMAX)
     (\<lambda>r. Inr (reduced INT32 OpMAX 1 (2 ^ 1) (\<lambda>q. chunk_of (1 * GetDataTypeSize INT32) [word_of_int (int q), 1, 0, 0, 5, 0, 0, 0] (nat r))))"
  by (rule FullMesh_ReduceScatter_delivers) (simp_all add: int_type_def)

section \<open>Synchronising\<close>

lemma FullMesh_Barrier_syncs:
  assumes w: "wired_mesh ws comm" and "0 < ws" and N: "healthy N"
  shows "syncs N (world ws (\<lambda>r. FullMesh_Barrier (mesh_topo ws r) (comm r))) (world ws (\<lambda>r. io_return ()))"
proof -
  let ?tok = "replicate 4 0 :: bytes"
  have root: "(0 :: int) \<le> 0" "0 < ws" using assms by auto
  define wait where "wait = (\<lambda>peer dummy. bind_io (get_transport (comm 0) (int peer)) (\<lambda>transport.
      bind_io (io_recv transport 4) (io_store dummy 0)))"
  define ack where "ack = (\<lambda>peer (dummy :: bytes). bind_io (get_transport (comm 0) (int peer)) (\<lambda>transport.
      bind_io (io_load dummy 0 4) (\<lambda>data. bind_io (io_send transport data) (\<lambda>_. io_return dummy))))"
  define rest where "rest = bind_io (io_recv 0 4) (\<lambda>data. bind_io (io_store ?tok 0 data) (\<lambda>_. io_return ()))"
  define leaf where "leaf = (\<lambda>r :: int. bind_io (io_send 0 ?tok) (\<lambda>_. rest))"
  have start: "world ws (\<lambda>r. FullMesh_Barrier (mesh_topo ws r) (comm r)) =
      world ws (\<lambda>r. if r = 0 then bind_io (for_each [1..<nat ws] wait ?tok)
        (\<lambda>dummy. bind_io (for_each [1..<nat ws] ack dummy) (\<lambda>_. io_return ())) else leaf r)"
    by (rule world_cong)
       (auto simp: FullMesh_Barrier_def Let_def wait_def ack_def leaf_def rest_def mem_simps wired_mesh_transport [OF w])
  have "syncs N (world ws (\<lambda>r. if r = 0 then bind_io (for_each [1..<nat ws] wait ?tok)
        (\<lambda>dummy. bind_io (for_each [1..<nat ws] ack dummy) (\<lambda>_. io_return ())) else leaf r))
      (world ws (\<lambda>r. if r = 0 then bind_io (for_each [1..<nat ws] ack ?tok) (\<lambda>_. io_return ()) else rest))"
    by (rule syncs_star_recv [OF _ root N, where S = "\<lambda>_. ?tok" and x = "\<lambda>_. ?tok" and B = "\<lambda>_. io_store ?tok 0"])
       (auto simp: wait_def leaf_def mem_simps wired_mesh_transport [OF w])
  also have "syncs N \<dots> (world ws (\<lambda>r. if r = 0 then io_return () else io_return ()))"
    by (rule syncs_star_send [OF _ root N, where S = "\<lambda>_. ?tok" and x = "\<lambda>_. ?tok"
          and L = "\<lambda>_ data. bind_io (io_store ?tok 0 data) (\<lambda>_. io_return ())"])
       (auto simp: ack_def rest_def mem_simps wired_mesh_transport [OF w])
  finally show ?thesis
    unfolding start by simp
qed

text \<open>
  C31: When every rank of a full mesh calls \<open>Barrier\<close>, every call returns true.
\<close>

theorem FullMesh_Barrier_delivers:
  assumes "healthy N" "wired_mesh ws comm" "0 < ws"
  shows "delivers N ws (\<lambda>r. FullMesh_Barrier (mesh_topo ws r) (comm r)) (\<lambda>r. Inr ())"
  by (rule delivers_by_schedule, rule FullMesh_Barrier_syncs) (use assms in auto)

lemma FullMesh_Barrier_delivers_witness:
  "delivers tight_net 5 (\<lambda>r. FullMesh_Barrier (mesh_topo 5 r) wired_comm) (\<lambda>r. Inr ())"
  by (rule FullMesh_Barrier_delivers [where comm = "\<lambda>_. wired_comm"]) simp_all

end
