(* ===== verification/BarrierSafety.thy ===== *)
theory BarrierSafety
  imports RingResults FullMeshResults
begin

text \<open>
  What a barrier is for: no rank gets past it before every rank has reached it. A rank that has
  not reached it takes no step and sends nothing, and then the others are held up: each of them
  waits for bytes that a rank held up itself would have to send.
\<close>

section \<open>Programs that are held up\<close>

text \<open>The rank that takes a step.\<close>

fun actor :: "label \<Rightarrow> int" where
  "actor (LSend s d) = s"
| "actor (LRecv s d) = d"
| "actor (LJoin r) = r"

text \<open>
  \<open>held p g s P\<close>: as long as \<open>P\<close> gets at most \<open>g\<close> bytes from rank \<open>p\<close>, it does
  not return, and it sends at most \<open>s\<close> bytes.
\<close>

inductive held :: "int \<Rightarrow> nat \<Rightarrow> nat \<Rightarrow> 'a prog \<Rightarrow> bool" for p where
  wait: "g < n \<Longrightarrow> held p g s (Ops [ORecv p n acc] k)"
| take: "n \<le> g \<Longrightarrow> (\<And>bs. length bs = length acc + n \<Longrightarrow> held p (g - n) s (k [Got bs])) \<Longrightarrow>
    held p g s (Ops [ORecv p n acc] k)"
| other: "p' \<noteq> p \<Longrightarrow> (\<And>bs. length bs = length acc + n \<Longrightarrow> held p g s (k [Got bs])) \<Longrightarrow>
    held p g s (Ops [ORecv p' n acc] k)"
| send: "length bs \<le> s \<Longrightarrow> held p g (s - length bs) (k [Sent]) \<Longrightarrow> held p g s (Ops [OSend d bs] k)"

inductive_simps held_Ret [simp]: "held p g s (Ret v)"
inductive_cases held_Ops: "held p g s (Ops os k)"

lemma held_joined:
  assumes "held p g s (Ops os k)" "\<forall>q\<in>set os. op_done q"
  shows "held p g s (k (map op_value os))"
  using assms by (elim held_Ops) auto

lemma held_sent:
  assumes "held p g s (Ops os k)" "List.find (sending d) os = Some q"
  shows "0 < s \<and> held p g (s - 1) (Ops (upd_first (sending d) op_sent os) k)"
  using assms(1)
proof (cases rule: held.cases)
  case (send bs d')
  then show ?thesis
    using assms(2) by (cases bs) (auto split: if_splits intro: held.send)
qed (use assms(2) in auto)

lemma held_got_other:
  assumes "held p g s (Ops os k)" "List.find (receiving a) os = Some q" "a \<noteq> p"
  shows "held p g s (Ops (upd_first (receiving a) (op_got x) os) k)"
  using assms(1)
proof (cases rule: held.cases)
  case (other p' acc n)
  then show ?thesis
    using assms(2,3) by (auto split: if_splits intro!: held.other)
qed (use assms(2,3) in \<open>auto split: if_splits\<close>)

lemma held_got:
  assumes "held p g s (Ops os k)" "List.find (receiving p) os = Some q" "0 < g"
  shows "held p (g - 1) s (Ops (upd_first (receiving p) (op_got x) os) k)"
  using assms(1)
proof (cases rule: held.cases)
  case (take n acc)
  then show ?thesis
    using assms(2,3) by (auto split: if_splits intro!: held.take)
qed (use assms(2,3) in \<open>auto split: if_splits intro!: held.wait\<close>)

lemma length_op_head: "List.find (sending d) os = Some q \<Longrightarrow> length (op_head q) = 1"
proof -
  assume "List.find (sending d) os = Some q"
  then have "sending d q"
    by (auto simp: find_Some_iff)
  then show ?thesis
    by (cases q) (auto simp: Suc_le_eq min_def le_Suc_eq)
qed

text \<open>The rules for the transport calls of a program.\<close>

lemma held_recv_wait: "g < n \<Longrightarrow> held p g s (bind_io (io_recv p n) k)"
  by (simp add: io_recv_def held.wait)

lemma held_recv_take:
  "n \<le> g \<Longrightarrow> (\<And>bs. length bs = n \<Longrightarrow> held p (g - n) s (k bs)) \<Longrightarrow> held p g s (bind_io (io_recv p n) k)"
  by (simp add: io_recv_def held.take)

lemma held_recv_other:
  "p' \<noteq> p \<Longrightarrow> (\<And>bs. length bs = n \<Longrightarrow> held p g s (k bs)) \<Longrightarrow> held p g s (bind_io (io_recv p' n) k)"
  by (simp add: io_recv_def held.other)

lemma held_send:
  "length bs \<le> s \<Longrightarrow> held p g (s - length bs) (k ()) \<Longrightarrow> held p g s (bind_io (io_send d bs) k)"
  by (simp add: io_send_def held.send)

section \<open>A world that is held up\<close>

text \<open>
  Every rank but \<open>b\<close> is held up by a rank \<open>pr r\<close> that cannot send it enough, and \<open>b\<close>
  has not moved.
\<close>

definition standstill ::
  "int \<Rightarrow> (int \<Rightarrow> int) \<Rightarrow> int \<Rightarrow> 'a io \<Rightarrow> (int \<Rightarrow> nat) \<Rightarrow> (int \<Rightarrow> nat) \<Rightarrow> 'a result conf \<Rightarrow> bool" where
  "standstill ws pr b P g s c \<longleftrightarrow>
     progs c b = P \<and> s b = 0 \<and>
     (\<forall>r. 0 \<le> r \<and> r < ws \<and> r \<noteq> b \<longrightarrow>
        held (pr r) (g r) (s r) (progs c r) \<and> length (chan c (pr r, r)) + s (pr r) \<le> g r) \<and>
     (\<forall>r. \<not> (0 \<le> r \<and> r < ws) \<longrightarrow> (\<exists>v. progs c r = Ret v))"

lemma standstill_step:
  assumes inv: "standstill ws pr b P g s c" and st: "step N l c = Some c'" and N: "healthy N" and l: "actor l \<noteq> b"
  shows "\<exists>g s. standstill ws pr b P g s c'"
proof -
  have up: "up N i j" for i j
    using N by (simp add: healthy_def)
  have held: "held (pr r) (g r) (s r) (progs c r)" "length (chan c (pr r, r)) + s (pr r) \<le> g r" "0 \<le> r \<and> r < ws"
    if "progs c r = Ops os k" "r \<noteq> b" for r os k
    using inv that unfolding standstill_def by (metis prog.distinct(1))+
  show ?thesis
    using st
  proof (cases rule: step_cases)
    case (send a d os k q)
    then have a: "a \<noteq> b" using l by simp
    have "0 < s a \<and> held (pr a) (g a) (s a - 1) (Ops (upd_first (sending d) op_sent os) k)"
      using held_sent [OF _ send(3)] held(1) [OF send(2) a] send(2) by metis
    then have "standstill ws pr b P g (s(a := s a - 1)) c'"
      using inv a send(6) held(3) [OF send(2) a] length_op_head [OF send(3)] by (auto simp: standstill_def)
    then show ?thesis by blast
  next
    case (recv a d os k q x xs)
    then have d: "d \<noteq> b" using l by simp
    note h = held [OF recv(2) d, unfolded recv(2)]
    show ?thesis
    proof (cases "a = pr d")
      case True
      then have g: "0 < g d"
        using h(2) recv(5) by auto
      then have "held (pr d) (g d - 1) (s d) (Ops (upd_first (receiving a) (op_got x) os) k)"
        using held_got [of "pr d"] h(1) recv(3) True by blast
      then have "standstill ws pr b P (g(d := g d - 1)) s c'"
        using inv d recv(5,6) True g h(2,3) by (auto simp: standstill_def)
      then show ?thesis by blast
    next
      case False
      have "held (pr d) (g d) (s d) (Ops (upd_first (receiving a) (op_got x) os) k)"
        by (rule held_got_other [OF h(1) recv(3) False])
      then have "standstill ws pr b P g s c'"
        using inv d recv(5,6) False h(3) by (auto simp: standstill_def)
      then show ?thesis by blast
    qed
  next
    case (join r os k)
    then have r: "r \<noteq> b" using l by simp
    have "held (pr r) (g r) (s r) (k (map op_value os))"
      using held_joined held(1) [OF join(2) r] join(2,3) by metis
    then have "standstill ws pr b P g s c'"
      using inv r join(2,4) held(3) [OF join(2) r] by (auto simp: standstill_def)
    then show ?thesis by blast
  qed (simp_all add: up)
qed

lemma standstill_run:
  assumes "standstill ws pr b P g s c" "run (step N) ls c = Some c'" "healthy N" "b \<notin> actor ` set ls"
  shows "\<exists>g s. standstill ws pr b P g s c'"
  using assms
proof (induction ls arbitrary: c g s)
  case (Cons l ls)
  then obtain c1 where "step N l c = Some c1" "run (step N) ls c1 = Some c'"
    by (auto split: option.splits)
  with Cons show ?case
    using standstill_step [of ws pr b P g s c N l c1] by force
qed auto

text \<open>If a rank returns, every rank has moved.\<close>

lemma standstill_safe:
  assumes "standstill ws pr b P g s (launch f)" "run (step N) ls (launch f) = Some c" "healthy N" "\<And>v. P \<noteq> Ret v"
    and "0 \<le> r" "r < ws" "progs c r = Ret v"
  shows "b \<in> actor ` set ls"
proof (rule ccontr)
  assume "b \<notin> actor ` set ls"
  then obtain g' s' where "standstill ws pr b P g' s' c"
    using standstill_run [OF assms(1-3)] by blast
  then show False
    using assms(4-7) by (cases "r = b") (auto simp: standstill_def)
qed

section \<open>The ring's barrier\<close>

lemma held_round_first:
  "length tok = 4 \<Longrightarrow> 4 \<le> s \<Longrightarrow> g < 4 \<Longrightarrow> held (prv ws 0) g s (bind_io (Ring_Barrier_round (ring_topo ws 0) (ring_links ws 0) tok) k)"
  by (auto simp: Ring_Barrier_round_def token_send_def token_recv_def mem_simps intro!: held_send held_recv_wait)

lemma held_round_wait:
  "r \<noteq> 0 \<Longrightarrow> g < 4 \<Longrightarrow> held (prv ws r) g s (bind_io (Ring_Barrier_round (ring_topo ws r) (ring_links ws r) tok) k)"
  by (simp add: Ring_Barrier_round_def token_recv_def held_recv_wait)

lemma held_round_pass:
  assumes "r \<noteq> 0" "length tok = 4" "4 \<le> g" "4 \<le> s" "\<And>tok. length tok = 4 \<Longrightarrow> held (prv ws r) (g - 4) (s - 4) (k tok)"
  shows "held (prv ws r) g s (bind_io (Ring_Barrier_round (ring_topo ws r) (ring_links ws r) tok) k)"
  using assms by (auto simp: Ring_Barrier_round_def token_send_def token_recv_def mem_simps intro!: held_send held_recv_take)

text \<open>
  With rank \<open>b\<close> missing, the token of the first round gets as far as \<open>b\<close>, and that of the
  second round does not leave rank \<open>0\<close>.
\<close>

lemma Ring_Barrier_standstill:
  assumes w: "wired_ring ws comm" and two: "2 \<le> ws" and b: "0 \<le> b" "b < ws"
  defines "f \<equiv> world ws (\<lambda>r. Ring_Barrier (ring_topo ws r) (comm r))"
  shows "standstill ws (prv ws) b (f b) (\<lambda>r. if 0 < r \<and> r < b then 4 else 0) (\<lambda>r. if r < b then 4 else 0) (launch f)"
proof -
  have f: "f r = bind_io (Ring_Barrier_round (ring_topo ws r) (ring_links ws r) (replicate 4 0))
      (\<lambda>dummy. bind_io (Ring_Barrier_round (ring_topo ws r) (ring_links ws r) dummy) (\<lambda>_. io_return ()))"
    if "0 \<le> r" "r < ws" for r
    using that by (simp add: f_def Ring_Barrier_def w)
  have "held (prv ws r) (if 0 < r \<and> r < b then 4 else 0) (if r < b then 4 else 0) (f r)"
    if r: "0 \<le> r" "r < ws" "r \<noteq> b" for r
  proof -
    consider "r = 0" | "0 < r" "r < b" | "b < r"
      using r by linarith
    then show ?thesis
    proof cases
      case 1
      have "held (prv ws 0) 0 4 (f 0)"
        using f [of 0] two by (simp only: ) (rule held_round_first; simp)
      then show ?thesis
        using 1 b r by simp
    next
      case 2
      have "held (prv ws r) 4 4 (f r)"
        unfolding f [OF r(1,2)]
        by (rule held_round_pass; (rule held_round_wait)?) (use 2 in simp_all)
      then show ?thesis
        using 2 by simp
    next
      case 3
      have "held (prv ws r) 0 0 (f r)"
        unfolding f [OF r(1,2)] by (rule held_round_wait) (use 3 b in simp_all)
      then show ?thesis
        using 3 b by simp
    qed
  qed
  moreover have "prv ws r = (if r = 0 then ws - 1 else r - 1)" if "0 \<le> r" "r < ws" for r
    using that two by (auto simp: zmod_minus1)
  ultimately show ?thesis
    using b by (auto simp: standstill_def launch_def f_def world_def)
qed

text \<open>
  C5: \<open>Barrier\<close> on a ring of two or more ranks is a barrier: in every run, a rank that has
  returned from it has done so after every other rank has entered it.
\<close>

theorem Ring_Barrier_safe:
  assumes "healthy N" "wired_ring ws comm" "2 \<le> ws"
    and "run (step N) ls (launch (world ws (\<lambda>r. Ring_Barrier (ring_topo ws r) (comm r)))) = Some c"
    and "0 \<le> r" "r < ws" "progs c r = Ret v" "0 \<le> b" "b < ws"
  shows "b \<in> actor ` set ls"
proof -
  have "Ring_Barrier (ring_topo ws b) (comm b) \<noteq> Ret v" for v
    using assms(2,8,9)
    by (simp add: Ring_Barrier_def Ring_Barrier_round_def token_send_def token_recv_def io_send_def io_recv_def mem_simps)
  then show ?thesis
    using standstill_safe [OF Ring_Barrier_standstill [OF assms(2,3,8,9)] assms(4,1) _ assms(5-7)] assms(8,9) by simp
qed

lemma Ring_Barrier_safe_witness:
  "\<exists>ls c. run (step tight_net) ls (launch (world 3 (\<lambda>r. Ring_Barrier (ring_topo 3 r) wired_comm))) = Some c \<and>
     progs c 0 = Ret (Inr ()) \<and> 2 \<in> actor ` set ls"
proof -
  have "syncs tight_net (world 3 (\<lambda>r. Ring_Barrier (ring_topo 3 r) wired_comm)) (world 3 (\<lambda>r. io_return ()))"
    by (rule Ring_Barrier_syncs [where comm = "\<lambda>_. wired_comm"]) simp_all
  then obtain ls where ls: "run (step tight_net) ls (launch (world 3 (\<lambda>r. Ring_Barrier (ring_topo 3 r) wired_comm))) =
      Some (launch (world 3 (\<lambda>r. io_return ())))"
    by (auto simp: syncs_def reaches_def)
  moreover have "progs (launch (world 3 (\<lambda>r. io_return ()))) 0 = Ret (Inr ())"
    by (simp add: launch_def)
  ultimately show ?thesis
    using Ring_Barrier_safe [where comm = "\<lambda>_. wired_comm" and b = 2 and r = 0, OF _ _ _ ls] by fastforce
qed

section \<open>The full mesh's barrier\<close>

lemma held_collect:
  assumes "b \<in> set ps" "length tok = 4" "\<And>p. p \<in> set ps \<Longrightarrow> GetTransport comm (int p) = Some (int p)"
  shows "held (int b) 0 0 (bind_io (for_each ps (\<lambda>peer dummy.
      bind_io (get_transport comm (int peer)) (\<lambda>transport.
      bind_io (io_recv transport 4) (\<lambda>data. io_store dummy 0 data))) tok) K)"
  using assms
proof (induction ps arbitrary: tok)
  case (Cons p ps)
  show ?case
  proof (cases "p = b")
    case True
    then show ?thesis
      using Cons.prems by (simp add: held_recv_wait)
  next
    case False
    then show ?thesis
      using Cons by (simp add: mem_simps held_recv_other)
  qed
qed simp

text \<open>Without rank \<open>b\<close> the root does not get to the acknowledgements the others wait for.\<close>

lemma FullMesh_Barrier_standstill:
  assumes w: "wired_mesh ws comm" and b: "0 \<le> b" "b < ws"
  defines "f \<equiv> world ws (\<lambda>r. FullMesh_Barrier (mesh_topo ws r) (comm r))"
  shows "standstill ws (\<lambda>r. if r = 0 then b else 0) b (f b) (\<lambda>_. 0) (\<lambda>r. if r = 0 \<or> r = b then 0 else 4) (launch f)"
proof -
  have "held b 0 0 (f 0)" if "b \<noteq> 0"
  proof -
    have "nat b \<in> set [1..<nat ws]"
      using that b by auto
    moreover have "GetTransport (comm 0) (int p) = Some (int p)" if "p \<in> set [1..<nat ws]" for p
      by (rule wired_mesh_transport [OF w]) (use that in auto)
    ultimately have "held (int (nat b)) 0 0 (f 0)"
      using held_collect [of "nat b" "[1..<nat ws]" "replicate 4 0" "comm 0"] b
      by (simp add: f_def FullMesh_Barrier_def cong: if_cong)
    then show ?thesis
      using b by simp
  qed
  moreover have "held 0 0 4 (f r)" if "0 < r" "r < ws" for r
    using that w unfolding f_def FullMesh_Barrier_def Let_def
    by (auto simp: wired_mesh_transport mem_simps intro!: held_send held_recv_wait)
  ultimately show ?thesis
    using b by (auto simp: standstill_def launch_def f_def world_def)
qed

text \<open>
  C6: \<open>Barrier\<close> on a full mesh of two or more ranks is a barrier: in every run, a rank that
  has returned from it has done so after every other rank has entered it.
\<close>

theorem FullMesh_Barrier_safe:
  assumes "healthy N" "wired_mesh ws comm" "2 \<le> ws"
    and "run (step N) ls (launch (world ws (\<lambda>r. FullMesh_Barrier (mesh_topo ws r) (comm r)))) = Some c"
    and "0 \<le> r" "r < ws" "progs c r = Ret v" "0 \<le> b" "b < ws"
  shows "b \<in> actor ` set ls"
proof -
  have "FullMesh_Barrier (mesh_topo ws b) (comm b) \<noteq> Ret v" for v
    using assms(2,3,8,9)
    by (auto simp: FullMesh_Barrier_def Let_def io_send_def io_recv_def mem_simps wired_mesh_transport upt_conv_Cons)
  then show ?thesis
    using standstill_safe [OF FullMesh_Barrier_standstill [OF assms(2,8,9)] assms(4,1) _ assms(5-7)] assms(8,9) by simp
qed

lemma FullMesh_Barrier_safe_witness:
  "\<exists>ls c. run (step tight_net) ls (launch (world 3 (\<lambda>r. FullMesh_Barrier (mesh_topo 3 r) wired_comm))) = Some c \<and>
     progs c 1 = Ret (Inr ()) \<and> 2 \<in> actor ` set ls"
proof -
  have "syncs tight_net (world 3 (\<lambda>r. FullMesh_Barrier (mesh_topo 3 r) wired_comm)) (world 3 (\<lambda>r. io_return ()))"
    by (rule FullMesh_Barrier_syncs [where comm = "\<lambda>_. wired_comm"]) simp_all
  then obtain ls where ls: "run (step tight_net) ls (launch (world 3 (\<lambda>r. FullMesh_Barrier (mesh_topo 3 r) wired_comm))) =
      Some (launch (world 3 (\<lambda>r. io_return ())))"
    by (auto simp: syncs_def reaches_def)
  moreover have "progs (launch (world 3 (\<lambda>r. io_return ()))) 1 = Ret (Inr ())"
    by (simp add: launch_def)
  ultimately show ?thesis
    using FullMesh_Barrier_safe [where comm = "\<lambda>_. wired_comm" and b = 2 and r = 1, OF _ _ _ ls] by fastforce
qed

end
