(* ===== verification/Codec.thy ===== *)
theory Codec
  imports Types Bytes
begin

text \<open>
  The messages of the control plane: \<open>EncodeInt\<close>, \<open>EncodeString\<close>, \<open>EncodeNodeInfo\<close> and
  their inverses (\<open>src/utils.cpp\<close>), and the table of all nodes that the master sends to the
  workers. An encoder appends to a buffer; a decoder reads at an offset and returns the value
  and the offset after it.
\<close>

section \<open>Integers\<close>

definition EncodeInt :: "bytes \<Rightarrow> int \<Rightarrow> bytes" where
  "EncodeInt buffer value = buffer @ be_bytes 4 (word_of_int value :: 32 word)"

definition DecodeInt :: "bytes \<Rightarrow> nat \<Rightarrow> (int \<times> nat) result" where
  "DecodeInt buffer offset =
     (case mem_load buffer offset 4 of None \<Rightarrow> Inl OutOfBounds
      | Some bs \<Rightarrow> Inr (sint (of_be bs :: 32 word), offset + 4))"

section \<open>Strings\<close>

definition string_bytes :: "string \<Rightarrow> bytes" where
  "string_bytes s = map (\<lambda>c. of_nat (of_char c)) s"

definition bytes_string :: "bytes \<Rightarrow> string" where
  "bytes_string bs = map (\<lambda>b. char_of (unat b)) bs"

definition EncodeString :: "bytes \<Rightarrow> string \<Rightarrow> bytes" where
  "EncodeString buffer str =
     EncodeInt buffer (sint (of_nat (length str) :: 32 word)) @ string_bytes str"

definition DecodeString :: "bytes \<Rightarrow> nat \<Rightarrow> (string \<times> nat) result" where
  "DecodeString buffer offset =
     res_bind (DecodeInt buffer offset) (\<lambda>(len, offset).
     if len < 0 then Inl LengthError
     else case mem_load buffer offset (nat len) of None \<Rightarrow> Inl OutOfBounds
      | Some bs \<Rightarrow> Inr (bytes_string bs, offset + nat len))"

section \<open>Node information\<close>

definition EncodeNodeInfo :: "bytes \<Rightarrow> NodeInfo \<Rightarrow> bytes" where
  "EncodeNodeInfo buffer node =
     EncodeInt (EncodeString (EncodeInt buffer (node_rank node)) (ip_addr node)) (uint (data_port node))"

definition DecodeNodeInfo :: "bytes \<Rightarrow> nat \<Rightarrow> (NodeInfo \<times> nat) result" where
  "DecodeNodeInfo buffer offset =
     res_bind (DecodeInt buffer offset) (\<lambda>(r, offset).
     res_bind (DecodeString buffer offset) (\<lambda>(ip, offset).
     res_bind (DecodeInt buffer offset) (\<lambda>(port, offset).
     Inr (\<lparr>node_rank = r, ip_addr = ip, data_port = word_of_int port\<rparr>, offset))))"

section \<open>The table of all nodes\<close>

text \<open>The message of \<open>BroadcastAllNodes\<close>, and how \<open>RecvAllNodes\<close> reads it.\<close>

definition encode_table :: "NodeInfo list \<Rightarrow> bytes" where
  "encode_table nodes =
     fold (\<lambda>node buffer. EncodeNodeInfo buffer node) nodes (EncodeInt [] (sint (of_nat (length nodes) :: 32 word)))"

fun decode_nodes :: "bytes \<Rightarrow> nat \<Rightarrow> nat \<Rightarrow> NodeInfo list result" where
  "decode_nodes buffer offset 0 = Inr []"
| "decode_nodes buffer offset (Suc n) =
     res_bind (DecodeNodeInfo buffer offset) (\<lambda>(node, offset).
     res_bind (decode_nodes buffer offset n) (\<lambda>nodes. Inr (node # nodes)))"

definition decode_table :: "bytes \<Rightarrow> NodeInfo list result" where
  "decode_table buffer =
     res_bind (DecodeInt buffer 0) (\<lambda>(num_nodes, offset).
     if num_nodes < 0 then Inl LengthError else decode_nodes buffer offset (nat num_nodes))"

section \<open>Decoding what was encoded\<close>

text \<open>Values that a C \<open>int\<close> holds, and node information made of such.\<close>

definition int32 :: "int \<Rightarrow> bool" where
  "int32 i \<longleftrightarrow> - (2 ^ 31) \<le> i \<and> i < 2 ^ 31"

definition node_ok :: "NodeInfo \<Rightarrow> bool" where
  "node_ok node \<longleftrightarrow> int32 (node_rank node) \<and> length (ip_addr node) < 2 ^ 31"

lemma sint_word_of_int32: "int32 i \<Longrightarrow> sint (word_of_int i :: 32 word) = i"
  by (simp add: int32_def int_word_sint)

lemma sint_of_nat32: "n < 2 ^ 31 \<Longrightarrow> sint (of_nat n :: 32 word) = int n"
  using sint_word_of_int32 [of "int n"] by (simp add: int32_def)

lemma char_byte: "char_of (unat (of_nat (of_char c) :: byte)) = c"
proof -
  have "of_char c < (256 :: nat)"
    by simp
  then have "unat (of_nat (of_char c) :: byte) = of_char c"
    by (simp add: unat_of_nat)
  then show ?thesis by simp
qed

lemma string_bytes_inverse [simp]: "bytes_string (string_bytes s) = s"
  by (simp add: string_bytes_def bytes_string_def comp_def char_byte)

lemma length_string_bytes [simp]: "length (string_bytes s) = length s"
  by (simp add: string_bytes_def)

text \<open>What an encoder appends.\<close>

definition int_bytes :: "int \<Rightarrow> bytes" where
  "int_bytes i = be_bytes 4 (word_of_int i :: 32 word)"

definition str_bytes :: "string \<Rightarrow> bytes" where
  "str_bytes s = int_bytes (sint (of_nat (length s) :: 32 word)) @ string_bytes s"

definition node_bytes :: "NodeInfo \<Rightarrow> bytes" where
  "node_bytes node = int_bytes (node_rank node) @ str_bytes (ip_addr node) @ int_bytes (uint (data_port node))"

lemma encode_append:
  "EncodeInt buffer i = buffer @ int_bytes i"
  "EncodeString buffer s = buffer @ str_bytes s"
  "EncodeNodeInfo buffer node = buffer @ node_bytes node"
  by (simp_all add: EncodeInt_def EncodeString_def EncodeNodeInfo_def int_bytes_def str_bytes_def node_bytes_def)

lemma length_int_bytes [simp]: "length (int_bytes i) = 4"
  by (simp add: int_bytes_def)

lemma length_str_bytes [simp]: "length (str_bytes s) = 4 + length s"
  by (simp add: str_bytes_def)

lemma length_node_bytes [simp]: "length (node_bytes node) = 12 + length (ip_addr node)"
  by (simp add: node_bytes_def)

text \<open>A decoder finds the value wherever it is in the buffer.\<close>

lemma DecodeInt_at: "int32 i \<Longrightarrow> off = length xs \<Longrightarrow> DecodeInt (xs @ int_bytes i @ zs) off = Inr (i, off + 4)"
  by (simp add: DecodeInt_def mem_load_append int_bytes_def sint_word_of_int32)

lemma DecodeString_at:
  assumes "length s < 2 ^ 31" "off = length xs"
  shows "DecodeString (xs @ str_bytes s @ zs) off = Inr (s, off + 4 + length s)"
proof -
  let ?n = "int_bytes (int (length s))"
  have str: "str_bytes s = ?n @ string_bytes s"
    by (simp only: str_bytes_def sint_of_nat32 [OF assms(1)])
  have "int32 (int (length s))"
    using assms(1) by (simp add: int32_def)
  then have "DecodeInt (xs @ ?n @ (string_bytes s @ zs)) off = Inr (int (length s), off + 4)"
    using assms(2) by (rule DecodeInt_at)
  moreover have "mem_load ((xs @ ?n) @ string_bytes s @ zs) (off + 4) (length s) = Some (string_bytes s)"
    by (rule mem_load_append) (simp_all add: assms(2))
  ultimately show ?thesis
    by (simp add: DecodeString_def str)
qed

lemma DecodeNodeInfo_at:
  assumes "node_ok node" "off = length xs"
  shows "DecodeNodeInfo (xs @ node_bytes node @ zs) off = Inr (node, off + 12 + length (ip_addr node))"
proof -
  let ?r = "int_bytes (node_rank node)" and ?s = "str_bytes (ip_addr node)" and ?p = "int_bytes (uint (data_port node))"
  have "int32 (uint (data_port node))"
    using uint_lt2p [of "data_port node"] unfolding int32_def by (auto intro: order_trans [OF _ uint_ge_0])
  then have "DecodeInt (xs @ ?r @ ?s @ ?p @ zs) (off + 8 + length (ip_addr node)) =
      Inr (uint (data_port node), off + 12 + length (ip_addr node))"
    using DecodeInt_at [of "uint (data_port node)" "off + 8 + length (ip_addr node)" "xs @ ?r @ ?s" zs] assms(2) by simp
  moreover have "DecodeString (xs @ ?r @ ?s @ ?p @ zs) (off + 4) = Inr (ip_addr node, off + 8 + length (ip_addr node))"
    using DecodeString_at [of "ip_addr node" "off + 4" "xs @ ?r" "?p @ zs"] assms by (simp add: node_ok_def)
  moreover have "DecodeInt (xs @ ?r @ ?s @ ?p @ zs) off = Inr (node_rank node, off + 4)"
    using DecodeInt_at [of "node_rank node" off xs "?s @ ?p @ zs"] assms by (simp add: node_ok_def)
  ultimately show ?thesis
    by (simp add: DecodeNodeInfo_def node_bytes_def)
qed

lemma decode_nodes_at:
  "\<forall>node\<in>set nodes. node_ok node \<Longrightarrow> off = length xs \<Longrightarrow>
   decode_nodes (xs @ concat (map node_bytes nodes) @ zs) off (length nodes) = Inr nodes"
proof (induction nodes arbitrary: xs off)
  case (Cons node nodes)
  show ?case
    using Cons.IH [of "off + 12 + length (ip_addr node)" "xs @ node_bytes node"] Cons.prems
      DecodeNodeInfo_at [of node off xs "concat (map node_bytes nodes) @ zs"]
    by simp
qed simp

lemma encode_table_bytes: "encode_table nodes = int_bytes (sint (of_nat (length nodes) :: 32 word)) @ concat (map node_bytes nodes)"
proof -
  have "fold (\<lambda>node buffer. EncodeNodeInfo buffer node) nodes buf = buf @ concat (map node_bytes nodes)" for buf
    by (induction nodes arbitrary: buf) (simp_all add: encode_append)
  then show ?thesis
    by (simp add: encode_table_def encode_append)
qed

lemma decode_encode_table:
  assumes "length nodes < 2 ^ 31" "\<forall>node\<in>set nodes. node_ok node"
  shows "decode_table (encode_table nodes) = Inr nodes"
  using decode_nodes_at [OF assms(2), of 4 "int_bytes (int (length nodes))" "[]"]
    DecodeInt_at [of "int (length nodes)" 0 "[]" "concat (map node_bytes nodes)"] assms(1)
  by (simp add: decode_table_def encode_table_bytes sint_of_nat32 int32_def)

text \<open>
  C36: Node information that is encoded at the end of a buffer and followed by anything is
  decoded to the same node information, and the offset moves to what follows.
\<close>

theorem DecodeNodeInfo_EncodeNodeInfo:
  assumes "node_ok node"
  shows "DecodeNodeInfo (EncodeNodeInfo buffer node @ rest) (length buffer) = Inr (node, length (EncodeNodeInfo buffer node))"
  using DecodeNodeInfo_at [OF assms, of "length buffer" buffer rest] by (simp add: encode_append)

lemma DecodeNodeInfo_EncodeNodeInfo_witness:
  "DecodeNodeInfo (EncodeNodeInfo [1, 2] \<lparr>node_rank = - 3, ip_addr = ''10.0.0.1'', data_port = 65535\<rparr> @ [9]) 2 =
   Inr (\<lparr>node_rank = - 3, ip_addr = ''10.0.0.1'', data_port = 65535\<rparr>, 22)"
proof -
  have "node_ok \<lparr>node_rank = - 3, ip_addr = ''10.0.0.1'', data_port = 65535\<rparr>"
    by (simp add: node_ok_def int32_def)
  from DecodeNodeInfo_EncodeNodeInfo [OF this, of "[1, 2]" "[9]"] show ?thesis
    by (simp add: encode_append numeral_2_eq_2)
qed

end
