(* ===== verification/Bootstrap.thy ===== *)
theory Bootstrap
  imports Codec Schedules
begin

text \<open>
  \<open>Bootstrap\<close> (\<open>src/bootstrap.cpp\<close>): rank \<open>0\<close> collects what the other ranks say about
  themselves and sends the whole table to each of them. A socket is known by the rank at its
  other end, a connection carries one byte stream in each direction (theory \<open>Network\<close>), and
  what the operating system decides is an argument. Closing the sockets at the end has no
  effect on what the ranks learn and is left out.
\<close>

section \<open>Messages with a length prefix\<close>

text \<open>
  \<open>Utils::SendAll\<close> and \<open>RecvAll\<close>: four bytes with the number of bytes that follow, modulo
  \<open>2 ^ 32\<close>, and the bytes. Here a call moves all its bytes, blocking in between as long as it has
  to. That the code gives up when the kernel takes only some of the four bytes is in the
  definition of \<open>SendAll\<close> over system calls (theory \<open>Sockets\<close>), as are partial calls in general.
\<close>

definition frame :: "bytes \<Rightarrow> bytes" where
  "frame data = be_bytes 4 (of_nat (length data) :: 32 word)"

definition io_send_all :: "int \<Rightarrow> bytes \<Rightarrow> unit io" where
  "io_send_all sock data = bind_io (io_send sock (frame data)) (\<lambda>_. io_send sock data)"

definition io_recv_all :: "int \<Rightarrow> bytes io" where
  "io_recv_all sock =
     bind_io (io_recv sock 4) (\<lambda>net_size.
     let sz = unat (of_be net_size :: 32 word) in
     if sz = 0 then io_return [] else io_recv sock sz)"

section \<open>The two roles\<close>

record boot_env =
  boot_listens :: bool
  boot_arrivals :: "int list"
  boot_connects :: bool
  boot_interfaces :: "(bool \<times> string) option list option"

text \<open>
  \<open>GetLocalIPAddress\<close> (\<open>src/utils.cpp\<close>) looks at what \<open>getifaddrs\<close> answers: nothing if it
  fails, otherwise a list of interfaces, each with an address or not; of an address, whether it
  is an IPv4 one and how it is written.
\<close>

fun first_address :: "(bool \<times> string) option list \<Rightarrow> string" where
  "first_address [] = ''127.0.0.1''"
| "first_address (None # ifas) = first_address ifas"
| "first_address (Some (ipv4, addr_str) # ifas) =
     (if ipv4 \<and> addr_str \<noteq> ''127.0.0.1'' then addr_str else first_address ifas)"

definition GetLocalIPAddress :: "(bool \<times> string) option list option \<Rightarrow> string" where
  "GetLocalIPAddress interfaces =
     (case interfaces of None \<Rightarrow> ''127.0.0.1'' | Some ifas \<Rightarrow> first_address ifas)"

definition local_ip :: "boot_env \<Rightarrow> CommConfig \<Rightarrow> string" where
  "local_ip env cfg = (if master_addr cfg = ''127.0.0.1'' then ''127.0.0.1'' else GetLocalIPAddress (boot_interfaces env))"

text \<open>The peers of \<open>boot_arrivals\<close> in the order their connections are accepted; then \<open>accept\<close> fails.\<close>

definition AcceptConnections :: "boot_env \<Rightarrow> int \<Rightarrow> int list result" where
  "AcceptConnections env count =
     (if length (boot_arrivals env) < nat count then Inl SocketFailed
      else Inr (take (nat count) (boot_arrivals env)))"

definition RecvNodeInfo :: "int \<Rightarrow> NodeInfo io" where
  "RecvNodeInfo sock =
     bind_io (io_recv_all sock) (\<lambda>buffer. Ret (res_bind (DecodeNodeInfo buffer 0) (\<lambda>(node, _). Inr node)))"

definition SendNodeInfo :: "int \<Rightarrow> NodeInfo \<Rightarrow> unit io" where
  "SendNodeInfo sock node = io_send_all sock (EncodeNodeInfo [] node)"

definition BroadcastAllNodes :: "int list \<Rightarrow> NodeInfo list \<Rightarrow> unit io" where
  "BroadcastAllNodes socks nodes =
     (let buffer = encode_table nodes in for_each socks (\<lambda>sock _. io_send_all sock buffer) ())"

definition RecvAllNodes :: "int \<Rightarrow> NodeInfo list io" where
  "RecvAllNodes sock = bind_io (io_recv_all sock) (\<lambda>buffer. Ret (decode_table buffer))"

text \<open>
  \<open>all_nodes[node_info.rank] = node_info\<close>, with the index from the message. An index outside the
  table is undefined behaviour in C++; the model stops there.
\<close>

definition enter_node :: "NodeInfo list \<Rightarrow> NodeInfo \<Rightarrow> NodeInfo list io" where
  "enter_node all_nodes node_info =
     (if 0 \<le> node_rank node_info \<and> node_rank node_info < int (length all_nodes)
      then io_return (all_nodes[nat (node_rank node_info) := node_info]) else io_fail OutOfBounds)"

definition RunMaster :: "boot_env \<Rightarrow> CommConfig \<Rightarrow> 16 word \<Rightarrow> NodeInfo list io" where
  "RunMaster env cfg port =
     (if config_world_size cfg < 0 then io_fail LengthError
      else
        bind_io (enter_node (replicate (nat (config_world_size cfg)) default_node)
          \<lparr>node_rank = 0, ip_addr = local_ip env cfg, data_port = port\<rparr>) (\<lambda>all_nodes.
        if \<not> boot_listens env then io_fail SocketFailed
        else
          bind_io (Ret (AcceptConnections env (config_world_size cfg - 1))) (\<lambda>worker_socks.
          bind_io (for_each worker_socks (\<lambda>sock all_nodes.
            bind_io (RecvNodeInfo sock) (\<lambda>node_info. enter_node all_nodes node_info)) all_nodes) (\<lambda>all_nodes.
          bind_io (BroadcastAllNodes worker_socks all_nodes) (\<lambda>_. io_return all_nodes)))))"

definition RunWorker :: "boot_env \<Rightarrow> CommConfig \<Rightarrow> 16 word \<Rightarrow> NodeInfo list io" where
  "RunWorker env cfg port =
     (if \<not> boot_connects env then io_fail SocketFailed
      else
        bind_io (SendNodeInfo 0 \<lparr>node_rank = config_rank cfg, ip_addr = local_ip env cfg, data_port = port\<rparr>) (\<lambda>_.
        RecvAllNodes 0))"

definition Bootstrap_Run :: "boot_env \<Rightarrow> CommConfig \<Rightarrow> 16 word \<Rightarrow> NodeInfo list io" where
  "Bootstrap_Run env cfg port =
     (if config_rank cfg = 0 then RunMaster env cfg port else RunWorker env cfg port)"

text \<open>What the master makes of the message that announces \<open>nd\<close>.\<close>

lemma enter_announced:
  assumes "node_ok nd"
  shows "bind_io (Ret (res_bind (DecodeNodeInfo (node_bytes nd) 0) (\<lambda>(node, _). Inr node))) (enter_node S) =
    (if 0 \<le> node_rank nd \<and> node_rank nd < int (length S) then io_return (S[nat (node_rank nd) := nd]) else io_fail OutOfBounds)"
  using DecodeNodeInfo_at [OF assms, of 0 "[]" "[]"] by (simp add: enter_node_def)

section \<open>One message\<close>

lemma frame_size: "length data < 2 ^ 32 \<Longrightarrow> unat (of_be (frame data) :: 32 word) = length data"
  by (simp add: frame_def unat_of_nat)

lemma length_frame [simp]: "length (frame data) = 4"
  by (simp add: frame_def)

lemma syncs_message_result:
  assumes "f a = bind_prog (io_send_all b data) ka" "f b = bind_prog (io_recv_all a) kb"
    and "a \<noteq> b" "healthy N" "data \<noteq> []" "length data < 2 ^ 32"
  shows "syncs N f (f(a := ka (Inr ()), b := kb (Inr data)))"
proof -
  let ?f1 = "f(a := bind_prog (io_send b data) ka, b := bind_prog (io_recv a (length data)) kb)"
  have "syncs N f (f(a := (\<lambda>r. bind_prog (case r of Inl e \<Rightarrow> io_fail e | Inr _ \<Rightarrow> io_send b data) ka) (Inr ()),
      b := (\<lambda>r. bind_prog (case r of Inl e \<Rightarrow> io_fail e | Inr net_size \<Rightarrow>
        let sz = unat (of_be net_size :: 32 word) in if sz = 0 then io_return [] else io_recv a sz) kb) (Inr (frame data))))"
    by (rule syncs_send_recv_result)
       (use assms in \<open>simp_all add: io_send_all_def io_recv_all_def bind_io_def bind_prog_assoc\<close>)
  then have "syncs N f ?f1"
    using assms(5) by (simp add: frame_size [OF assms(6)] Let_def)
  also have "syncs N ?f1 (?f1(a := ka (Inr ()), b := kb (Inr data)))"
    by (rule syncs_send_recv_result) (use assms in simp_all)
  finally show ?thesis
    using assms(3) by (simp add: fun_upd_twist)
qed

lemma syncs_message:
  assumes "f a = bind_io (io_send_all b data) ka" "f b = bind_io (io_recv_all a) kb"
    and "a \<noteq> b" "healthy N" "data \<noteq> []" "length data < 2 ^ 32"
  shows "syncs N f (f(a := ka (), b := kb data))"
  using syncs_message_result [of f a b data _ _ N, OF assms(1,2) [unfolded bind_io_def] assms(3-6)] by simp

text \<open>A root that hears from the ranks of a list, one after another, and one that sends to them.\<close>

lemma syncs_collect:
  assumes "f root = bind_io (for_each ps body S) K" "Inv S"
    and "distinct ps" "root \<notin> set ps" "healthy N"
    and "\<And>p. p \<in> set ps \<Longrightarrow> f p = bind_io (io_send_all root (x p)) (k p)"
    and "\<And>p. p \<in> set ps \<Longrightarrow> x p \<noteq> [] \<and> length (x p) < 2 ^ 32"
    and "\<And>p S. p \<in> set ps \<Longrightarrow> body p S = bind_io (io_recv_all p) (B p S)"
    and "\<And>p S. p \<in> set ps \<Longrightarrow> Inv S \<Longrightarrow> B p S (x p) = io_return (upd p S) \<and> Inv (upd p S)"
  shows "syncs N f (\<lambda>r. if r = root then K (fold upd ps S) else if r \<in> set ps then k r () else f r)"
  using assms
proof (induction ps arbitrary: f S)
  case Nil
  then have "(\<lambda>r. if r = root then K (fold upd [] S) else if r \<in> set [] then k r () else f r) = f"
    by (auto simp: fun_eq_iff)
  then show ?case
    by (metis syncs_refl)
next
  case (Cons p ps)
  let ?f1 = "f(p := k p (), root := bind_io (for_each ps body (upd p S)) K)"
  have "syncs N f (f(p := k p (), root := bind_io (B p S (x p)) (\<lambda>S. bind_io (for_each ps body S) K)))"
    by (rule syncs_message [where kb = "\<lambda>data. bind_io (B p S data) (\<lambda>S. bind_io (for_each ps body S) K)"])
       (use Cons.prems in auto)
  then have "syncs N f ?f1"
    using Cons.prems by simp
  also have "syncs N ?f1 (\<lambda>r. if r = root then K (fold upd ps (upd p S)) else if r \<in> set ps then k r () else ?f1 r)"
    by (rule Cons.IH) (use Cons.prems in auto)
  also have "(\<lambda>r. if r = root then K (fold upd ps (upd p S)) else if r \<in> set ps then k r () else ?f1 r) =
      (\<lambda>r. if r = root then K (fold upd (p # ps) S) else if r \<in> set (p # ps) then k r () else f r)"
    by (auto simp: fun_eq_iff)
  finally show ?case .
qed

lemma syncs_spread:
  assumes "f root = bind_io (for_each ps (\<lambda>p _. io_send_all p data) ()) K"
    and "distinct ps" "root \<notin> set ps" "healthy N" "data \<noteq> []" "length data < 2 ^ 32"
    and "\<And>p. p \<in> set ps \<Longrightarrow> f p = bind_io (io_recv_all root) (k p)"
  shows "syncs N f (\<lambda>r. if r = root then K () else if r \<in> set ps then k r data else f r)"
  using assms
proof (induction ps arbitrary: f)
  case Nil
  then have "(\<lambda>r. if r = root then K () else if r \<in> set [] then k r data else f r) = f"
    by (auto simp: fun_eq_iff)
  then show ?case
    by (metis syncs_refl)
next
  case (Cons p ps)
  let ?f1 = "f(root := bind_io (for_each ps (\<lambda>p _. io_send_all p data) ()) K, p := k p data)"
  have "syncs N f (f(root := (\<lambda>u. bind_io (for_each ps (\<lambda>p _. io_send_all p data) u) K) (), p := k p data))"
    by (rule syncs_message) (use Cons.prems in auto)
  then have "syncs N f ?f1" by simp
  also have "syncs N ?f1 (\<lambda>r. if r = root then K () else if r \<in> set ps then k r data else ?f1 r)"
    by (rule Cons.IH) (use Cons.prems in auto)
  also have "(\<lambda>r. if r = root then K () else if r \<in> set ps then k r data else ?f1 r) =
      (\<lambda>r. if r = root then K () else if r \<in> set (p # ps) then k r data else f r)"
    using Cons.prems(2) by (auto simp: fun_eq_iff)
  finally show ?case .
qed

section \<open>The exchange\<close>

text \<open>What rank \<open>r\<close> says about itself, and the table of what all ranks say.\<close>

definition own_node :: "(int \<Rightarrow> boot_env) \<Rightarrow> (int \<Rightarrow> CommConfig) \<Rightarrow> (int \<Rightarrow> 16 word) \<Rightarrow> int \<Rightarrow> NodeInfo" where
  "own_node env cfg port r = \<lparr>node_rank = r, ip_addr = local_ip (env r) (cfg r), data_port = port r\<rparr>"

definition node_table :: "int \<Rightarrow> (int \<Rightarrow> boot_env) \<Rightarrow> (int \<Rightarrow> CommConfig) \<Rightarrow> (int \<Rightarrow> 16 word) \<Rightarrow> NodeInfo list" where
  "node_table ws env cfg port = map (\<lambda>q. own_node env cfg port (int q)) [0..<nat ws]"

text \<open>
  An operating system that does its part, and data that fit the length prefixes: the master
  listens, the workers get through to it, and it accepts each of them once.
\<close>

definition good_boot :: "int \<Rightarrow> (int \<Rightarrow> boot_env) \<Rightarrow> (int \<Rightarrow> CommConfig) \<Rightarrow> (int \<Rightarrow> 16 word) \<Rightarrow> bool" where
  "good_boot ws env cfg port \<longleftrightarrow>
     boot_listens (env 0) \<and> (\<forall>r. 0 < r \<and> r < ws \<longrightarrow> boot_connects (env r)) \<and>
     distinct (boot_arrivals (env 0)) \<and> set (boot_arrivals (env 0)) = {r. 0 < r \<and> r < ws} \<and>
     (\<forall>r. 0 \<le> r \<and> r < ws \<longrightarrow> length (local_ip (env r) (cfg r)) < 2 ^ 31) \<and>
     length (encode_table (node_table ws env cfg port)) < 2 ^ 32"

lemma fold_update_nth:
  "i < length S \<Longrightarrow> fold (\<lambda>p S. S[nat p := v p]) ps S ! i = (if i \<in> nat ` set ps then v (int i) else S ! i)"
  if "\<forall>p\<in>set ps. 0 \<le> p"
  using that by (induction ps arbitrary: S) (auto simp: nth_list_update)

lemma length_fold_update [simp]: "length (fold (\<lambda>p S. S[i p := v p]) ps S) = length S"
  by (induction ps arbitrary: S) auto

lemma collected_table:
  assumes "0 < ws" "set ps = {r. 0 < r \<and> r < ws}"
  shows "fold (\<lambda>p S. S[nat p := own_node env cfg port p]) ps
    ((replicate (nat ws) default_node)[0 := own_node env cfg port 0]) = node_table ws env cfg port"
proof (rule nth_equalityI)
  fix i assume i: "i < length (fold (\<lambda>p S. S[nat p := own_node env cfg port p]) ps
    ((replicate (nat ws) default_node)[0 := own_node env cfg port 0]))"
  have "i \<in> nat ` {r. 0 < r \<and> r < ws}" if "i \<noteq> 0"
    by (rule image_eqI [of _ _ "int i"]) (use i that in auto)
  moreover have "0 \<notin> nat ` {r. 0 < r \<and> r < ws}"
    by auto
  ultimately show "fold (\<lambda>p S. S[nat p := own_node env cfg port p]) ps
      ((replicate (nat ws) default_node)[0 := own_node env cfg port 0]) ! i = node_table ws env cfg port ! i"
    using i assms by (cases "i = 0") (simp_all add: fold_update_nth node_table_def)
qed (simp add: node_table_def)

text \<open>
  The loop of the master that enters what the workers \<open>ps\<close> announce, as long as the ranks in
  their messages are in the table.
\<close>

abbreviation enter_next :: "int \<Rightarrow> NodeInfo list \<Rightarrow> NodeInfo list io" where
  "enter_next sock all_nodes \<equiv> bind_io (RecvNodeInfo sock) (\<lambda>node_info. enter_node all_nodes node_info)"

lemma enter_next_receives:
  "enter_next r S = bind_io (io_recv_all r)
     (\<lambda>buffer. bind_io (Ret (res_bind (DecodeNodeInfo buffer 0) (\<lambda>(node, _). Inr node))) (enter_node S))"
  by (simp add: RecvNodeInfo_def)

lemma node_bytes_fit: "node_ok nd \<Longrightarrow> node_bytes nd \<noteq> [] \<and> length (node_bytes nd) < 2 ^ 32"
  by (auto simp: node_ok_def simp flip: length_greater_0_conv)

lemma syncs_enter:
  assumes "f 0 = bind_io (for_each ps enter_next S) K" "distinct ps" "0 \<notin> set ps" "healthy N"
    and "\<And>r. r \<in> set ps \<Longrightarrow> f r = bind_io (io_send_all 0 (node_bytes (nd r))) (k r)"
    and "\<And>r. r \<in> set ps \<Longrightarrow> node_ok (nd r) \<and> 0 \<le> node_rank (nd r) \<and> node_rank (nd r) < int (length S)"
  shows "syncs N f (\<lambda>r. if r = 0 then K (fold (\<lambda>r S. S[nat (node_rank (nd r)) := nd r]) ps S)
    else if r \<in> set ps then k r () else f r)"
proof (rule syncs_collect [where body = enter_next and Inv = "\<lambda>S'. length S' = length S" and x = "\<lambda>r. node_bytes (nd r)"
      and B = "\<lambda>r S buffer. bind_io (Ret (res_bind (DecodeNodeInfo buffer 0) (\<lambda>(node, _). Inr node))) (enter_node S)"])
  show "f 0 = bind_io (for_each ps enter_next S) K"
    by (rule assms(1))
  show "f r = bind_io (io_send_all 0 (node_bytes (nd r))) (k r)" if "r \<in> set ps" for r
    by (rule assms(5) [OF that])
next
  fix r and S' :: "NodeInfo list" assume "r \<in> set ps" "length S' = length S"
  then show "bind_io (Ret (res_bind (DecodeNodeInfo (node_bytes (nd r)) 0) (\<lambda>(node, _). Inr node))) (enter_node S') =
      io_return (S'[nat (node_rank (nd r)) := nd r]) \<and> length (S'[nat (node_rank (nd r)) := nd r]) = length S"
    using enter_announced [of "nd r" S'] assms(6) [of r] by auto
qed (use assms(2-4,6) node_bytes_fit in \<open>auto simp: enter_next_receives\<close>)

lemma Bootstrap_syncs:
  assumes N: "healthy N" and ws: "0 < ws" "ws < 2 ^ 31" and good: "good_boot ws env cfg port"
    and cfg: "\<And>r. config_rank (cfg r) = r" "\<And>r. config_world_size (cfg r) = ws"
  shows "syncs N (world ws (\<lambda>r. bind_io (Bootstrap_Run (env r) (cfg r) (port r)) (k r)))
    (world ws (\<lambda>r. k r (node_table ws env cfg port)))"
proof -
  let ?nd = "own_node env cfg port" and ?tab = "node_table ws env cfg port"
  let ?arr = "boot_arrivals (env 0)"
  let ?f = "world ws (\<lambda>r. bind_io (Bootstrap_Run (env r) (cfg r) (port r)) (k r))"
  let ?upd = "\<lambda>p S. S[nat p := ?nd p]"
  define K where "K = (\<lambda>all_nodes. bind_io (BroadcastAllNodes ?arr all_nodes) (\<lambda>_. k 0 all_nodes))"
  define S0 where "S0 = (replicate (nat ws) default_node)[0 := ?nd 0]"
  define g where "g = (\<lambda>r. if r = 0 then K ?tab else if r \<in> set ?arr then bind_io (RecvAllNodes 0) (k r) else ?f r)"
  have arr: "distinct ?arr" "set ?arr = {r. 0 < r \<and> r < ws}"
    using good by (auto simp: good_boot_def)
  moreover have "{r. 0 < r \<and> r < ws} = {0<..<ws}"
    by auto
  ultimately have "length ?arr = nat (ws - 1)"
    using distinct_card [of ?arr] by simp
  then have accept: "AcceptConnections (env 0) (ws - 1) = Inr ?arr"
    by (simp add: AcceptConnections_def)
  have ok: "node_ok (?nd r)" if "0 \<le> r" "r < ws" for r
    using good that ws by (auto simp: good_boot_def node_ok_def own_node_def int32_def)
  have table: "decode_table (encode_table ?tab) = Inr ?tab"
    by (rule decode_encode_table) (use ok ws in \<open>auto simp: node_table_def nat_less_iff\<close>)
  have root: "?f 0 = bind_io (for_each ?arr enter_next S0) K"
    using ws good cfg
    by (simp add: Bootstrap_Run_def RunMaster_def enter_node_def [of "replicate _ _"] accept S0_def K_def own_node_def good_boot_def)
  have worker: "?f r = bind_io (io_send_all 0 (node_bytes (?nd r))) (\<lambda>_. bind_io (RecvAllNodes 0) (k r))" if "r \<in> set ?arr" for r
    using that arr(2) good cfg
    by (simp add: Bootstrap_Run_def RunWorker_def SendNodeInfo_def encode_append own_node_def good_boot_def)
  have nodes: "node_ok (?nd r) \<and> 0 \<le> node_rank (?nd r) \<and> node_rank (?nd r) < int (length S0)" if "r \<in> set ?arr" for r
    using that arr(2) ok by (simp add: own_node_def S0_def)
  have "syncs N ?f (\<lambda>r. if r = 0 then K (fold (\<lambda>r S. S[nat (node_rank (?nd r)) := ?nd r]) ?arr S0)
      else if r \<in> set ?arr then bind_io (RecvAllNodes 0) (k r) else ?f r)"
    by (rule syncs_enter [where k = "\<lambda>r _. bind_io (RecvAllNodes 0) (k r)", OF root _ _ N worker nodes]) (use arr in auto)
  moreover have rank: "node_rank (?nd r) = r" for r
    by (simp add: own_node_def)
  ultimately have "syncs N ?f (\<lambda>r. if r = 0 then K (fold ?upd ?arr S0) else if r \<in> set ?arr then bind_io (RecvAllNodes 0) (k r) else ?f r)"
    by (simp only: rank)
  also have "(\<lambda>r. if r = 0 then K (fold ?upd ?arr S0) else if r \<in> set ?arr then bind_io (RecvAllNodes 0) (k r) else ?f r) = g"
    unfolding g_def S0_def by (simp only: collected_table [OF ws(1) arr(2)])
  also have "syncs N g (\<lambda>r. if r = 0 then (\<lambda>_. k 0 ?tab) () else if r \<in> set ?arr then bind_io (Ret (decode_table (encode_table ?tab))) (k r) else g r)"
  proof (rule syncs_spread [where data = "encode_table ?tab" and ps = ?arr])
    show "g 0 = bind_io (for_each ?arr (\<lambda>p _. io_send_all p (encode_table ?tab)) ()) (\<lambda>_. k 0 ?tab)"
      by (simp add: g_def K_def BroadcastAllNodes_def)
  qed (use N arr good in \<open>auto simp: g_def good_boot_def RecvAllNodes_def encode_table_bytes simp flip: length_greater_0_conv\<close>)
  also have "(\<lambda>r. if r = 0 then (\<lambda>_. k 0 ?tab) () else if r \<in> set ?arr then bind_io (Ret (decode_table (encode_table ?tab))) (k r) else g r) =
      world ws (\<lambda>r. k r ?tab)"
    using arr ws by (auto simp: g_def table world_def fun_eq_iff)
  finally show ?thesis .
qed

text \<open>
  C7: When all ranks run \<open>Bootstrap::Run\<close> together, every call returns true with the same
  table, in which entry \<open>r\<close> is what rank \<open>r\<close> said about itself, in whatever order
  the workers get through to the master. No schedule deadlocks.
\<close>

theorem Bootstrap_Run_delivers:
  assumes "healthy N" "0 < ws" "ws < 2 ^ 31" "good_boot ws env cfg port"
    and "\<And>r. config_rank (cfg r) = r" "\<And>r. config_world_size (cfg r) = ws"
  shows "delivers N ws (\<lambda>r. Bootstrap_Run (env r) (cfg r) (port r)) (\<lambda>r. Inr (node_table ws env cfg port))"
proof (rule delivers_by_schedule)
  show "syncs N (world ws (\<lambda>r. Bootstrap_Run (env r) (cfg r) (port r)))
      (world ws (\<lambda>r. io_return (node_table ws env cfg port)))"
    using Bootstrap_syncs [OF assms, where k = "\<lambda>_. io_return"] by simp
qed

text \<open>Surroundings for concrete runs: the workers get through from the last rank to the first.\<close>

definition some_boot :: "int \<Rightarrow> int \<Rightarrow> boot_env" where
  "some_boot ws r = \<lparr>boot_listens = True, boot_arrivals = rev [1..ws - 1], boot_connects = True, boot_interfaces = Some [Some (True, ''10.0.0.1'')]\<rparr>"

definition some_config :: "int \<Rightarrow> int \<Rightarrow> CommConfig" where
  "some_config ws r = default_config\<lparr>config_rank := r, config_world_size := ws\<rparr>"

lemma some_boot_good:
  assumes "ws \<le> 16"
  shows "good_boot ws (some_boot ws) (some_config ws) (\<lambda>_. 4000)"
proof -
  have ip: "local_ip (some_boot ws r) (some_config ws r) = ''127.0.0.1''" for r
    by (simp add: local_ip_def some_config_def default_config_def)
  have "length (encode_table (node_table ws (some_boot ws) (some_config ws) (\<lambda>_. 4000))) = 4 + 21 * nat ws"
    by (simp add: encode_table_bytes node_table_def own_node_def ip length_concat comp_def sum_list_triv)
  also have "\<dots> < 2 ^ 32"
    using assms by simp
  finally show ?thesis
    by (auto simp: good_boot_def ip) (auto simp: some_boot_def)
qed

lemma some_config_simps [simp]:
  "config_rank (some_config ws r) = r" "config_world_size (some_config ws r) = ws"
  by (simp_all add: some_config_def default_config_def)

lemma Bootstrap_Run_delivers_witness:
  "delivers tight_net 5 (\<lambda>r. Bootstrap_Run (some_boot 5 r) (some_config 5 r) 4000)
     (\<lambda>r. Inr (node_table 5 (some_boot 5) (some_config 5) (\<lambda>_. 4000)))"
  by (rule Bootstrap_Run_delivers) (simp_all add: some_boot_good)

section \<open>A rank that does not exist\<close>

lemma bad_rank_overruns:
  assumes N: "healthy N" and ws: "0 < ws" and master: "config_rank (cfg 0) = 0" "config_world_size (cfg 0) = ws" "boot_listens (env 0)"
    and arr: "distinct (boot_arrivals (env 0))" "set (boot_arrivals (env 0)) = {r. 0 < r \<and> r < ws}"
    and worker: "\<And>r. 0 < r \<Longrightarrow> r < ws \<Longrightarrow> boot_connects (env r) \<and> config_rank (cfg r) \<noteq> 0 \<and> int32 (config_rank (cfg r)) \<and>
      length (local_ip (env r) (cfg r)) < 2 ^ 31"
    and bad: "0 < p" "p < ws" "config_rank (cfg p) < 0 \<or> ws \<le> config_rank (cfg p)"
  shows "\<exists>g. syncs N (world ws (\<lambda>r. Bootstrap_Run (env r) (cfg r) (port r))) g \<and> g 0 = io_fail OutOfBounds"
proof -
  let ?f = "world ws (\<lambda>r. Bootstrap_Run (env r) (cfg r) (port r))" and ?arr = "boot_arrivals (env 0)"
  let ?out = "\<lambda>r. config_rank (cfg r) < 0 \<or> ws \<le> config_rank (cfg r)"
  define nd where "nd = (\<lambda>r. \<lparr>node_rank = config_rank (cfg r), ip_addr = local_ip (env r) (cfg r), data_port = port r\<rparr>)"
  define K where "K = (\<lambda>all_nodes. bind_io (BroadcastAllNodes ?arr all_nodes) (\<lambda>_. io_return all_nodes))"
  define S0 where "S0 = (replicate (nat ws) default_node)[0 := nd 0]"
  have "\<exists>p\<in>set ?arr. ?out p"
    using arr(2) bad by auto
  then obtain before q after where split: "?arr = before @ q # after" and q: "?out q" and before: "\<forall>r\<in>set before. \<not> ?out r"
    using split_list_first_prop [of ?arr ?out] by metis
  have "q \<in> set ?arr" "set before \<subseteq> set ?arr"
    unfolding split by auto
  then have mem: "0 < q" "q < ws" "\<And>r. r \<in> set before \<Longrightarrow> 0 < r \<and> r < ws"
    using arr(2) by auto
  have dist: "distinct before" "q \<notin> set before" "q \<noteq> 0" "0 \<notin> set before"
    using arr mem unfolding split by auto
  have ok: "node_ok (nd r)" if "0 < r" "r < ws" for r
    using worker [OF that] by (simp add: node_ok_def nd_def)
  have sends: "?f r = bind_io (io_send_all 0 (node_bytes (nd r))) (\<lambda>_. RecvAllNodes 0)" if "0 < r" "r < ws" for r
    using that worker [OF that] by (simp add: Bootstrap_Run_def RunWorker_def SendNodeInfo_def encode_append nd_def)
  have "{r. 0 < r \<and> r < ws} = {0<..<ws}"
    by auto
  then have "length ?arr = nat (ws - 1)"
    using arr distinct_card [of ?arr] by simp
  then have "AcceptConnections (env 0) (ws - 1) = Inr ?arr"
    by (simp add: AcceptConnections_def)
  then have root: "?f 0 = bind_io (for_each before enter_next S0) (\<lambda>S. bind_io (enter_next q S) (\<lambda>S. bind_io (for_each after enter_next S) K))"
    using ws master
    by (simp add: Bootstrap_Run_def RunMaster_def enter_node_def [of "replicate _ _"] S0_def nd_def K_def split for_each_append)
  define S1 where "S1 = fold (\<lambda>r S. S[nat (node_rank (nd r)) := nd r]) before S0"
  define g where "g = (\<lambda>r. if r = 0 then bind_io (enter_next q S1) (\<lambda>S. bind_io (for_each after enter_next S) K)
    else if r \<in> set before then RecvAllNodes 0 else ?f r)"
  have nodes: "node_ok (nd r) \<and> 0 \<le> node_rank (nd r) \<and> node_rank (nd r) < int (length S0)" if "r \<in> set before" for r
    using that before mem(3) [OF that] ok ws by (auto simp: S0_def nd_def)
  have "syncs N ?f g"
    unfolding g_def S1_def
  proof (rule syncs_enter [where k = "\<lambda>_ _. RecvAllNodes 0"])
    show "?f 0 = bind_io (for_each before enter_next S0) (\<lambda>S. bind_io (enter_next q S) (\<lambda>S. bind_io (for_each after enter_next S) K))"
      by (rule root)
  qed (use dist N sends nodes mem(3) in blast)+
  moreover have "length S1 = nat ws"
    by (simp add: S1_def S0_def)
  then have overrun: "bind_io (Ret (res_bind (DecodeNodeInfo (node_bytes (nd q)) 0) (\<lambda>(node, _). Inr node))) (enter_node S1) =
      io_fail OutOfBounds"
    using enter_announced [OF ok [OF mem(1,2)], of S1] q by (auto simp: nd_def)
  have "syncs N g (g(q := RecvAllNodes 0, 0 := (\<lambda>buffer. bind_io (bind_io (Ret (res_bind (DecodeNodeInfo buffer 0)
      (\<lambda>(node, _). Inr node))) (enter_node S1)) (\<lambda>S. bind_io (for_each after enter_next S) K)) (node_bytes (nd q))))"
    by (rule syncs_message [where ka = "\<lambda>_. RecvAllNodes 0"])
       (use dist mem sends node_bytes_fit [OF ok [OF mem(1,2)]] N in \<open>simp_all add: g_def enter_next_receives\<close>)
  then have "syncs N g (g(q := RecvAllNodes 0, 0 := io_fail OutOfBounds))"
    by (simp only: overrun bind_io_simps)
  ultimately show ?thesis
    using dist(3) by (metis fun_upd_same syncs_trans)
qed

text \<open>
  C37: The master uses the rank in a worker's message as an index into its table without looking
  at it. In a world of any size, if some worker says it is a rank that the world does not have,
  the master comes to a write outside the table, whatever the order in which the workers get
  through and whatever the schedule: from every configuration that can arise it can still get
  there, and the call never returns before. Assumed is that bootstrapping otherwise works: the
  links are up, the master listens, each worker gets through once, does not take itself for the
  master, and has an address that fits a message. (The write is undefined behaviour. The model stops
  the master at it, and nothing is claimed about what follows.)
\<close>

theorem RunMaster_bad_rank:
  assumes "healthy N" "0 < ws" "config_rank (cfg 0) = 0" "config_world_size (cfg 0) = ws" "boot_listens (env 0)"
    and "distinct (boot_arrivals (env 0))" "set (boot_arrivals (env 0)) = {r. 0 < r \<and> r < ws}"
    and "\<And>r. 0 < r \<Longrightarrow> r < ws \<Longrightarrow> boot_connects (env r) \<and> config_rank (cfg r) \<noteq> 0 \<and> int32 (config_rank (cfg r)) \<and>
      length (local_ip (env r) (cfg r)) < 2 ^ 31"
    and "0 < p" "p < ws" "config_rank (cfg p) < 0 \<or> ws \<le> config_rank (cfg p)"
    and "reaches (step N) (launch (world ws (\<lambda>r. Bootstrap_Run (env r) (cfg r) (port r)))) c"
  shows "(\<exists>d. reaches (step N) c d \<and> progs d 0 = io_fail OutOfBounds) \<and>
    (\<forall>v. progs c 0 = Ret v \<longrightarrow> v = Inl OutOfBounds)"
proof -
  let ?f = "world ws (\<lambda>r. Bootstrap_Run (env r) (cfg r) (port r))"
  have "\<exists>g. syncs N ?f g \<and> g 0 = io_fail OutOfBounds"
    by (rule bad_rank_overruns) (use assms in auto)
  then obtain g where g: "reaches (step N) (launch ?f) (launch g)" "progs (launch g) 0 = io_fail OutOfBounds"
    by (auto simp: syncs_def launch_def)
  have "\<exists>d. reaches (step N) c d \<and> progs d 0 = io_fail OutOfBounds"
    by (rule net.still_reaches [where P = "\<lambda>c. progs c 0 = io_fail OutOfBounds", OF g assms(12)]) (rule step_returned)
  then obtain d where d: "reaches (step N) c d" "progs d 0 = io_fail OutOfBounds"
    by blast
  moreover have "v = Inl OutOfBounds" if "progs c 0 = Ret v" for v
    using reaches_returned [OF d(1) that] d(2) by simp
  ultimately show ?thesis
    by blast
qed

lemma RunMaster_bad_rank_witness:
  "\<exists>d. reaches (step tight_net)
     (launch (world 4 (\<lambda>r. Bootstrap_Run (some_boot 4 r) ((some_config 4 r)\<lparr>config_rank := if r = 2 then 7 else r\<rparr>) 4000))) d \<and>
     progs d 0 = io_fail OutOfBounds"
proof (rule conjunct1 [OF RunMaster_bad_rank [where ws = 4 and p = 2]])
  show "set (boot_arrivals (some_boot 4 0)) = {r. 0 < r \<and> r < 4}"
    by (auto simp: some_boot_def)
qed (auto simp: some_boot_def int32_def local_ip_def some_config_def default_config_def split: if_splits)

end
