(* ===== verification/CommunicatorApi.thy ===== *)
theory CommunicatorApi
  imports Ring FullMesh Bootstrap
begin

text \<open>
  \<open>Communicator\<close> (\<open>src/communicator.cpp\<close>): setting up the transports, point-to-point
  messages, and the collectives, which it hands to its topology. The operating system's part
  in connecting ranks (which attempts to connect succeed, in which order the connections
  arrive) is an argument of the definitions.
\<close>

section \<open>Topologies by type\<close>

definition TopologyFactory_Create :: "TopologyType \<Rightarrow> topology" where
  "TopologyFactory_Create type = new_topology (TopologyTypeName type)"

fun Topology_GetNeighbors :: "TopologyType \<Rightarrow> topology \<Rightarrow> int \<Rightarrow> int list" where
  "Topology_GetNeighbors RING t r = Ring_GetNeighbors t r"
| "Topology_GetNeighbors FULL_MESH t r = FullMesh_GetNeighbors t r"

fun Topology_ShouldConnect :: "TopologyType \<Rightarrow> topology \<Rightarrow> int \<Rightarrow> int \<Rightarrow> bool" where
  "Topology_ShouldConnect RING t my_rank peer_rank = Ring_ShouldConnect t my_rank peer_rank"
| "Topology_ShouldConnect FULL_MESH t my_rank peer_rank = FullMesh_ShouldConnect my_rank peer_rank"

section \<open>Setting up the transports\<close>

text \<open>
  What the operating system does for one rank: whether its listening socket could be set up,
  whether attempt \<open>k\<close> to connect to a peer (at an address and port) succeeds, and the peers
  whose connections it accepts, in the order they arrive.
\<close>

record wires =
  listens :: bool
  connects :: "int \<Rightarrow> NodeInfo \<Rightarrow> nat \<Rightarrow> bool"
  arrival :: "int list"

text \<open>One thread per peer, each with up to 30 attempts. The flag says that all peers are connected.\<close>

definition ConnectActivePeers :: "wires \<Rightarrow> NodeInfo list \<Rightarrow> int list \<Rightarrow> Communicator \<Rightarrow> bool \<times> Communicator" where
  "ConnectActivePeers env all_nodes connect_peers comm =
     (let connected = (\<lambda>peer. list_ex (connects env peer (all_nodes ! nat peer)) [0..<30])
      in (list_all connected connect_peers,
          comm\<lparr>transports := fold (\<lambda>peer m. if connected peer then m(peer \<mapsto> peer) else m) connect_peers (transports comm)\<rparr>))"

text \<open>
  One thread per connection; each waits for the rank number of its peer, which is the key the
  transport is stored under.
\<close>

definition AcceptPassivePeers :: "wires \<Rightarrow> int list \<Rightarrow> Communicator \<Rightarrow> Communicator io" where
  "AcceptPassivePeers env accept_peers comm =
     Ops (map (\<lambda>p. ORecv p 4 []) (arrival env))
       (\<lambda>results.
          if length (arrival env) = length accept_peers \<and> list_all (\<lambda>res. case res of Got bs \<Rightarrow> True | _ \<Rightarrow> False) results
          then io_return (comm\<lparr>transports := fold (\<lambda>(p, res) m. case res of
                 Got bs \<Rightarrow> m(sint (of_le bs :: 32 word) \<mapsto> p) | _ \<Rightarrow> m) (zip (arrival env) results) (transports comm)\<rparr>)
          else io_fail RecvFailed)"

definition SendOrFail :: "int \<Rightarrow> bytes \<Rightarrow> unit io" where
  "SendOrFail transport data = io_send transport data"

definition InitTransports :: "wires \<Rightarrow> NodeInfo list \<Rightarrow> Communicator \<Rightarrow> Communicator io" where
  "InitTransports env all_nodes comm =
     (case topo comm of None \<Rightarrow> io_fail NullPointer
      | Some t \<Rightarrow>
        let my_rank = config_rank (config comm);
            neighbors = Topology_GetNeighbors (topology_type comm) t my_rank;
            connect_peers = filter (Topology_ShouldConnect (topology_type comm) t my_rank) neighbors;
            accept_peers = filter (\<lambda>peer. \<not> Topology_ShouldConnect (topology_type comm) t my_rank peer) neighbors in
        if my_rank < 0 \<or> list_ex (\<lambda>p. length all_nodes \<le> nat p) (my_rank # connect_peers) then io_fail OutOfBounds
        else if accept_peers \<noteq> [] \<and> \<not> listens env then io_fail NotListening
        else
          let (connected, comm) = ConnectActivePeers env all_nodes connect_peers comm in
          bind_io (if accept_peers \<noteq> [] then AcceptPassivePeers env accept_peers comm else io_return comm) (\<lambda>comm.
          if \<not> connected then io_fail NotConnected
          else
            bind_io (for_each connect_peers (\<lambda>peer _.
              bind_io (get_transport comm peer) (\<lambda>transport.
              SendOrFail transport (le_bytes 4 (word_of_int my_rank :: 32 word)))) ()) (\<lambda>_. io_return comm)))"

text \<open>\<open>temp_port\<close> is the port that the temporary transport got, if it could listen.\<close>

definition Communicator_Init ::
  "16 word option \<Rightarrow> boot_env \<Rightarrow> wires \<Rightarrow> CommConfig \<Rightarrow> TransportType \<Rightarrow> TopologyType \<Rightarrow> Communicator \<Rightarrow> Communicator io" where
  "Communicator_Init temp_port benv env cfg trans_type topo_type comm =
     (let t = Topology_Init (TopologyFactory_Create topo_type) (config_rank cfg) (config_world_size cfg);
          comm = comm\<lparr>config := cfg, transport_type := trans_type, topology_type := topo_type, topo := Some t\<rparr> in
      case temp_port of None \<Rightarrow> io_fail NotListening
      | Some port \<Rightarrow> bind_io (Bootstrap_Run benv cfg port) (\<lambda>all_nodes. InitTransports env all_nodes comm))"

text \<open>
  What is left of the communicator. The transports are handles here; that \<open>Finalize\<close> also calls
  \<open>Close\<close> on each of them is not seen. What \<open>Close\<close> does is in \<open>TransportTcp\<close> and \<open>RdmaSetup\<close>.
\<close>

definition Finalize :: "Communicator \<Rightarrow> Communicator" where
  "Finalize comm = comm\<lparr>transports := Map.empty\<rparr>"

definition EnsureBufferSize :: "bytes \<Rightarrow> nat \<Rightarrow> bytes" where
  "EnsureBufferSize buffer required_size =
     (if length buffer < required_size then buffer @ replicate (required_size - length buffer) 0 else buffer)"

section \<open>Point-to-point messages\<close>

definition Communicator_Send :: "Communicator \<Rightarrow> bytes \<Rightarrow> nat \<Rightarrow> DataType \<Rightarrow> int \<Rightarrow> unit io" where
  "Communicator_Send comm send_buf count dtype dest =
     (if dest = config_rank (config comm) then io_fail BadPeer
      else
        bind_io (get_transport comm dest) (\<lambda>transport.
        bind_io (io_load send_buf 0 (count * GetDataTypeSize dtype)) (\<lambda>data.
        io_send transport data)))"

definition Communicator_Recv :: "Communicator \<Rightarrow> bytes \<Rightarrow> nat \<Rightarrow> DataType \<Rightarrow> int \<Rightarrow> bytes io" where
  "Communicator_Recv comm recv_buf count dtype source =
     (if source = config_rank (config comm) then io_fail BadPeer
      else
        bind_io (get_transport comm source) (\<lambda>transport.
        bind_io (io_recv transport (count * GetDataTypeSize dtype)) (\<lambda>data.
        io_store recv_buf 0 data)))"

section \<open>Collectives\<close>

text \<open>
  The virtual call on the communicator's topology. Before \<open>Init\<close> there is none, and the code
  calls through a null pointer.
\<close>

definition on_topology :: "Communicator \<Rightarrow> (topology \<Rightarrow> 'a io) \<Rightarrow> (topology \<Rightarrow> 'a io) \<Rightarrow> 'a io" where
  "on_topology comm ring mesh =
     (case topo comm of None \<Rightarrow> io_fail NullPointer
      | Some t \<Rightarrow> (case topology_type comm of RING \<Rightarrow> ring t | FULL_MESH \<Rightarrow> mesh t))"

definition Communicator_Broadcast :: "Communicator \<Rightarrow> bytes \<Rightarrow> nat \<Rightarrow> DataType \<Rightarrow> int \<Rightarrow> bytes io" where
  "Communicator_Broadcast comm buffer count dtype root =
     on_topology comm (\<lambda>t. Ring_Broadcast t comm buffer count dtype root) (\<lambda>t. FullMesh_Broadcast t comm buffer count dtype root)"

definition Communicator_Gather :: "Communicator \<Rightarrow> bytes \<Rightarrow> bytes \<Rightarrow> nat \<Rightarrow> DataType \<Rightarrow> int \<Rightarrow> bytes io" where
  "Communicator_Gather comm send_buf recv_buf count dtype root =
     on_topology comm (\<lambda>t. Ring_Gather t comm send_buf recv_buf count dtype root) (\<lambda>t. FullMesh_Gather t comm send_buf recv_buf count dtype root)"

definition Communicator_Scatter :: "Communicator \<Rightarrow> bytes \<Rightarrow> bytes \<Rightarrow> nat \<Rightarrow> DataType \<Rightarrow> int \<Rightarrow> bytes io" where
  "Communicator_Scatter comm send_buf recv_buf count dtype root =
     on_topology comm (\<lambda>t. Ring_Scatter t comm send_buf recv_buf count dtype root) (\<lambda>t. FullMesh_Scatter t comm send_buf recv_buf count dtype root)"

definition Communicator_Reduce :: "fp \<Rightarrow> Communicator \<Rightarrow> bytes \<Rightarrow> bytes \<Rightarrow> nat \<Rightarrow> DataType \<Rightarrow> ReduceOp \<Rightarrow> int \<Rightarrow> bytes io" where
  "Communicator_Reduce F comm send_buf recv_buf count dtype op root =
     on_topology comm (\<lambda>t. Ring_Reduce F t comm send_buf recv_buf count dtype op root) (\<lambda>t. FullMesh_Reduce F t comm send_buf recv_buf count dtype op root)"

definition Communicator_AllGather :: "Communicator \<Rightarrow> bytes \<Rightarrow> bytes \<Rightarrow> nat \<Rightarrow> DataType \<Rightarrow> bytes io" where
  "Communicator_AllGather comm send_buf recv_buf count dtype =
     on_topology comm (\<lambda>t. Ring_AllGather t comm send_buf recv_buf count dtype) (\<lambda>t. FullMesh_AllGather t comm send_buf recv_buf count dtype)"

definition Communicator_ReduceScatter :: "fp \<Rightarrow> Communicator \<Rightarrow> bytes \<Rightarrow> bytes \<Rightarrow> nat \<Rightarrow> DataType \<Rightarrow> ReduceOp \<Rightarrow> bytes io" where
  "Communicator_ReduceScatter F comm send_buf recv_buf count dtype op =
     on_topology comm (\<lambda>t. Ring_ReduceScatter F t comm send_buf recv_buf count dtype op) (\<lambda>t. FullMesh_ReduceScatter F t comm send_buf recv_buf count dtype op)"

definition Communicator_AllReduce :: "fp \<Rightarrow> Communicator \<Rightarrow> bytes \<Rightarrow> bytes \<Rightarrow> nat \<Rightarrow> DataType \<Rightarrow> ReduceOp \<Rightarrow> bytes io" where
  "Communicator_AllReduce F comm send_buf recv_buf count dtype op =
     on_topology comm (\<lambda>t. Ring_AllReduce F t comm send_buf recv_buf count dtype op) (\<lambda>t. FullMesh_AllReduce F t comm send_buf recv_buf count dtype op)"

definition Communicator_AllToAll :: "Communicator \<Rightarrow> bytes \<Rightarrow> bytes \<Rightarrow> nat \<Rightarrow> DataType \<Rightarrow> bytes io" where
  "Communicator_AllToAll comm send_buf recv_buf count dtype =
     on_topology comm (\<lambda>t. Ring_AllToAll t comm send_buf recv_buf count dtype) (\<lambda>t. FullMesh_AllToAll t comm send_buf recv_buf count dtype)"

definition Communicator_Barrier :: "Communicator \<Rightarrow> unit io" where
  "Communicator_Barrier comm = on_topology comm (\<lambda>t. Ring_Barrier t comm) (\<lambda>t. FullMesh_Barrier t comm)"

end
