(* ===== verification/Handshake.thy ===== *)
theory Handshake
  imports RingPositions FullMeshRuns
begin

text \<open>
  The handshake that ends \<open>Communicator::InitTransports\<close>: every rank waits for the rank
  numbers of the peers it accepts, and then sends its own to the peers it has connected to. The
  wiring contract makes it terminate: a rank connects to larger ranks only, so rank \<open>0\<close> waits
  for no one. Both topologies meet the contract.
\<close>

section \<open>The handshake under the wiring contract\<close>

text \<open>A rank is sent as the four bytes of an \<open>int\<close>, in the host's order.\<close>

definition rank_msg :: "int \<Rightarrow> bytes" where
  "rank_msg r = le_bytes 4 (word_of_int r :: 32 word)"

lemma length_rank_msg [simp]: "length (rank_msg r) = 4"
  by (simp add: rank_msg_def)

definition send_rank :: "int \<Rightarrow> int list \<Rightarrow> 'a io \<Rightarrow> 'a io" where
  "send_rank r ps fin = foldr (\<lambda>p rest. bind_io (io_send p (rank_msg r)) (\<lambda>_. rest)) ps fin"

text \<open>A rank that waits for the peers \<open>ps\<close>, and has heard from those in \<open>S\<close>.\<close>

definition await_ranks :: "int list \<Rightarrow> (op_result list \<Rightarrow> 'a io) \<Rightarrow> int set \<Rightarrow> 'a io" where
  "await_ranks ps cont S = (if ps = [] then cont []
     else Ops (map (\<lambda>p. if p \<in> S then ORecv p 0 (rank_msg p) else ORecv p 4 []) ps) cont)"

lemma send_rank_simps [simp]:
  "send_rank r [] fin = fin"
  "send_rank r (p # ps) fin = bind_io (io_send p (rank_msg r)) (\<lambda>_. send_rank r ps fin)"
  by (simp_all add: send_rank_def)

lemma syncs_rank_msg:
  assumes "f r = bind_io (io_send p (rank_msg r)) (\<lambda>_. rest)" "f p = await_ranks ps cont S"
    and "r \<in> set ps" "r \<notin> S" "distinct ps" "r \<noteq> p" "healthy N"
  shows "syncs N f (f(r := rest, p := await_ranks ps cont (insert r S)))"
proof -
  obtain us vs where ps: "ps = us @ r # vs" "r \<notin> set us" "r \<notin> set vs"
    using assms(3,5) by (metis distinct.simps(2) distinct_append split_list not_distinct_conv_prefix
        disjoint_iff_not_equal list.set_intros(1))
  let ?op = "\<lambda>S q. if q \<in> S then ORecv q 0 (rank_msg q) else ORecv q 4 []"
  let ?ka = "\<lambda>rs. bind_io (if rs = [Sent] then io_return () else io_fail SendFailed) (\<lambda>_. rest)"
  have "syncs N f (f(r := Ops ([] @ OSend p [] # []) ?ka, p := Ops (map (?op S) us @ ORecv r 0 ([] @ rank_msg r) # map (?op S) vs) cont))"
    by (rule syncs_transfer) (use assms ps in \<open>auto simp: await_ranks_def io_send_def\<close>)
  also have "syncs N \<dots> (f(r := rest, p := Ops (map (?op S) us @ ORecv r 0 (rank_msg r) # map (?op S) vs) cont))"
    using syncs_join [of "f(r := Ops ([] @ OSend p [] # []) ?ka, p := Ops (map (?op S) us @ ORecv r 0 ([] @ rank_msg r) # map (?op S) vs) cont)"
        r "[OSend p []]" ?ka N] assms(6) by (simp add: fun_upd_twist)
  also have "Ops (map (?op S) us @ ORecv r 0 (rank_msg r) # map (?op S) vs) cont = await_ranks ps cont (insert r S)"
    using ps by (auto simp: await_ranks_def)
  finally show ?thesis .
qed

context wiring
begin

text \<open>\<open>acc r\<close> lists the peers that rank \<open>r\<close> accepts in the order they happen to arrive.\<close>

definition connect_peers :: "int \<Rightarrow> int list" where
  "connect_peers r = filter (should_connect r) (neighbors r)"

definition arrivals :: "(int \<Rightarrow> int list) \<Rightarrow> bool" where
  "arrivals acc \<longleftrightarrow> (\<forall>r. 0 \<le> r \<and> r < ws \<longrightarrow>
     distinct (acc r) \<and> set (acc r) = set (filter (\<lambda>p. \<not> should_connect r p) (neighbors r)))"

lemma connect_peers_larger: "0 \<le> r \<Longrightarrow> r < ws \<Longrightarrow> p \<in> set (connect_peers r) \<Longrightarrow> r < p \<and> p < ws"
  using connect_up [of r p] neighbor_range [of r p] by (simp add: connect_peers_def)

lemma arrivals_smaller: "arrivals acc \<Longrightarrow> 0 \<le> r \<Longrightarrow> r < ws \<Longrightarrow> p \<in> set (acc r) \<Longrightarrow> 0 \<le> p \<and> p < r"
proof -
  assume "arrivals acc" and r: "0 \<le> r" "r < ws" and "p \<in> set (acc r)"
  then have p: "p \<in> set (neighbors r)" "\<not> should_connect r p"
    by (auto simp: arrivals_def)
  then show "0 \<le> p \<and> p < r"
    using neighbor_range [OF r p(1)] connect_up [OF r p(1)] by auto
qed

lemma arrivals_match:
  "arrivals acc \<Longrightarrow> 0 \<le> r \<Longrightarrow> r < ws \<Longrightarrow> 0 \<le> p \<Longrightarrow> p < ws \<Longrightarrow> p \<in> set (connect_peers r) \<longleftrightarrow> r \<in> set (acc p)"
  using connect_accept_match [of r p] by (simp add: arrivals_def connect_peers_def)

lemma distinct_connect_peers: "0 \<le> r \<Longrightarrow> r < ws \<Longrightarrow> distinct (connect_peers r)"
  using neighbor_distinct by (simp add: connect_peers_def)

text \<open>Rank \<open>k\<close> sends to its peers; the ranks below it are done, those above it wait.\<close>

definition handshaking ::
  "(int \<Rightarrow> int list) \<Rightarrow> (int \<Rightarrow> op_result list \<Rightarrow> 'a io) \<Rightarrow> (int \<Rightarrow> 'a io) \<Rightarrow> int \<Rightarrow> int list \<Rightarrow> int set \<Rightarrow> int \<Rightarrow> 'a io" where
  "handshaking acc cont fin k ps D r =
     (if r < k then fin r else if r = k then send_rank k ps (fin k)
      else await_ranks (acc r) (cont r) ({..<k} \<union> (if r \<in> D then {k} else {})))"

lemma handshaking_sends:
  assumes "healthy N" "arrivals acc" "0 \<le> k" "k < ws" "set ps \<subseteq> set (connect_peers k)" "distinct ps" "D \<inter> set ps = {}"
  shows "syncs N (world ws (handshaking acc cont fin k ps D)) (world ws (handshaking acc cont fin k [] (D \<union> set ps)))"
  using assms
proof (induction ps arbitrary: D)
  case (Cons p ps)
  let ?h = "handshaking acc cont fin k (p # ps) D"
  have p: "k < p" "p < ws" "k \<in> set (acc p)" "distinct (acc p)" "p \<notin> D"
    using Cons.prems connect_peers_larger [of k p] arrivals_match [of acc k p] by (auto simp: arrivals_def)
  have "syncs N (world ws ?h) ((world ws ?h)(k := send_rank k ps (fin k), p := await_ranks (acc p) (cont p) (insert k {..<k})))"
    by (rule syncs_rank_msg) (use p Cons.prems in \<open>auto simp: handshaking_def\<close>)
  also have "(world ws ?h)(k := send_rank k ps (fin k), p := await_ranks (acc p) (cont p) (insert k {..<k})) =
      world ws (handshaking acc cont fin k ps (insert p D))"
    using p Cons.prems by (auto simp: handshaking_def world_def fun_eq_iff)
  also have "syncs N \<dots> (world ws (handshaking acc cont fin k [] (insert p D \<union> set ps)))"
    by (rule Cons.IH) (use Cons.prems in auto)
  finally show ?case by simp
qed simp

lemma handshake_syncs:
  assumes N: "healthy N" and acc: "arrivals acc"
    and cont: "\<And>r. 0 \<le> r \<Longrightarrow> r < ws \<Longrightarrow> cont r (map (\<lambda>p. Got (rank_msg p)) (acc r)) = send_rank r (connect_peers r) (fin r)"
  shows "syncs N (world ws (\<lambda>r. await_ranks (acc r) (cont r) {})) (world ws fin)"
proof -
  define W where "W = (\<lambda>k. world ws (\<lambda>r. if r < int k then fin r else await_ranks (acc r) (cont r) {..<int k}))"
  have "syncs N (W k) (W (Suc k))" if k: "k < nat ws" for k
  proof -
    let ?k = "int k"
    have kr: "0 \<le> ?k" "?k < ws"
      using k by auto
    have all: "\<forall>p\<in>set (acc ?k). p < ?k"
      using arrivals_smaller [OF acc kr] by auto
    have "syncs N (W k) ((W k)(?k := send_rank ?k (connect_peers ?k) (fin ?k)))"
    proof (cases "acc ?k = []")
      case True
      then have "(W k)(?k := send_rank ?k (connect_peers ?k) (fin ?k)) = W k"
        using cont [OF kr] kr by (auto simp: W_def fun_eq_iff await_ranks_def)
      then show ?thesis by simp
    next
      case False
      let ?os = "map (\<lambda>p. if p \<in> {..<?k} then ORecv p 0 (rank_msg p) else ORecv p 4 []) (acc ?k)"
      have "map op_value ?os = map (\<lambda>p. Got (rank_msg p)) (acc ?k)"
        using all by (auto simp: comp_def)
      moreover have "W k ?k = Ops ?os (cont ?k)"
        using kr False by (simp add: W_def await_ranks_def)
      moreover have "\<forall>q\<in>set ?os. op_done q"
        using all by auto
      ultimately show ?thesis
        using syncs_join [of "W k" ?k ?os "cont ?k" N] cont [OF kr] by (simp only:)
    qed
    also have "(W k)(?k := send_rank ?k (connect_peers ?k) (fin ?k)) = world ws (handshaking acc cont fin ?k (connect_peers ?k) {})"
      using kr by (auto simp: W_def handshaking_def world_def fun_eq_iff)
    also have "syncs N \<dots> (world ws (handshaking acc cont fin ?k [] ({} \<union> set (connect_peers ?k))))"
      by (rule handshaking_sends [OF N acc kr]) (use distinct_connect_peers [OF kr] in auto)
    also have "\<dots> = W (Suc k)"
      unfolding W_def
    proof (rule world_cong)
      fix r assume r: "0 \<le> r" "r < ws"
      have "await_ranks (acc r) (cont r) ({..<?k} \<union> (if r \<in> set (connect_peers ?k) then {?k} else {})) =
          await_ranks (acc r) (cont r) {..<int (Suc k)}"
      proof -
        have "{..<int (Suc k)} = insert ?k {..<?k}"
          by auto
        then show ?thesis
          using arrivals_match [OF acc kr r] by (auto simp: await_ranks_def)
      qed
      then show "handshaking acc cont fin ?k [] ({} \<union> set (connect_peers ?k)) r =
          (if r < int (Suc k) then fin r else await_ranks (acc r) (cont r) {..<int (Suc k)})"
        by (cases "r = ?k") (auto simp: handshaking_def)
    qed
    finally show ?thesis .
  qed
  then have "syncs N (W 0) (W (nat ws))"
    by (rule syncs_chain [where S = W])
  moreover have "W 0 = world ws (\<lambda>r. await_ranks (acc r) (cont r) {})"
    unfolding W_def
  proof (rule world_cong)
    fix r assume r: "0 \<le> r" "r < ws"
    have "\<forall>p\<in>set (acc r). \<not> p < 0"
      using arrivals_smaller [OF acc r] by fastforce
    then show "(if r < int 0 then fin r else await_ranks (acc r) (cont r) {..<int 0}) = await_ranks (acc r) (cont r) {}"
      using r by (auto simp: await_ranks_def)
  qed
  moreover have "W (nat ws) = world ws fin"
    unfolding W_def by (rule world_cong) auto
  ultimately show ?thesis by simp
qed

end

section \<open>Both topologies meet the contract\<close>

lemma set_FullMesh_neighbors: "set (FullMesh_GetNeighbors (mesh_topo ws r) r) = {p. 0 \<le> p \<and> p < ws \<and> p \<noteq> r}"
  using zero_le_imp_eq_int by (force simp: FullMesh_GetNeighbors_def zless_nat_eq_int_zless)

lemma Ring_neighbors:
  assumes "2 \<le> ws" "0 \<le> r" "r < ws"
  shows "set (Ring_GetNeighbors (ring_topo ws r) r) = {(r - 1) mod ws, (r + 1) mod ws}"
    and "distinct (Ring_GetNeighbors (ring_topo ws r) r)"
  using assms by (auto simp: Ring_GetNeighbors_def GetPrevRank_def GetNextRank_def Let_def smod_nonneg)

lemma Ring_connects:
  assumes "2 \<le> ws" "0 \<le> r" "r < ws" "p \<in> {(r - 1) mod ws, (r + 1) mod ws}"
  shows "Ring_ShouldConnect (ring_topo ws r) r p \<longleftrightarrow> r < p"
  using assms by (auto simp: Ring_ShouldConnect_def GetPrevRank_def GetNextRank_def Let_def smod_nonneg)

lemma next_neq: "2 \<le> ws \<Longrightarrow> 0 \<le> r \<Longrightarrow> r < ws \<Longrightarrow> (r + 1) mod ws \<noteq> r" for r ws :: int
proof (cases "r + 1 < ws")
  case False
  assume "2 \<le> ws" "0 \<le> r" "r < ws"
  then have "r = ws - 1" using False by simp
  then show ?thesis using \<open>2 \<le> ws\<close> by simp
qed simp

lemma prev_neq: "2 \<le> ws \<Longrightarrow> 0 \<le> r \<Longrightarrow> r < ws \<Longrightarrow> (r - 1) mod ws \<noteq> r" for r ws :: int
  using next_neq [of ws "(r - 1) mod ws"] next_prev_mod [of r ws] by auto

interpretation mesh_wiring: wiring ws "\<lambda>r. FullMesh_GetNeighbors (mesh_topo ws r) r" FullMesh_ShouldConnect for ws
proof unfold_locales
  fix r p :: int
  assume r: "0 \<le> r" "r < ws"
  show "distinct (FullMesh_GetNeighbors (mesh_topo ws r) r)"
    by (simp add: FullMesh_GetNeighbors_def distinct_map)
  assume p: "p \<in> set (FullMesh_GetNeighbors (mesh_topo ws r) r)"
  then show "0 \<le> p \<and> p < ws \<and> p \<noteq> r" "r \<in> set (FullMesh_GetNeighbors (mesh_topo ws p) p)"
    using r by (auto simp: set_FullMesh_neighbors)
  show "FullMesh_ShouldConnect r p = (r < p)"
    by (simp add: FullMesh_ShouldConnect_def)
qed

text \<open>A ring needs two ranks; its size is written \<open>n + 2\<close>.\<close>

interpretation ring_wiring: wiring "int n + 2" "\<lambda>r. Ring_GetNeighbors (ring_topo (int n + 2) r) r"
  "\<lambda>r. Ring_ShouldConnect (ring_topo (int n + 2) r) r" for n
proof unfold_locales
  let ?ws = "int n + 2"
  have two: "2 \<le> ?ws" by simp
  fix r p :: int
  assume r: "0 \<le> r" "r < ?ws"
  show "distinct (Ring_GetNeighbors (ring_topo ?ws r) r)"
    by (rule Ring_neighbors(2) [OF two r])
  assume "p \<in> set (Ring_GetNeighbors (ring_topo ?ws r) r)"
  then have p: "p \<in> {(r - 1) mod ?ws, (r + 1) mod ?ws}"
    using Ring_neighbors(1) [OF two r] by simp
  then show range: "0 \<le> p \<and> p < ?ws \<and> p \<noteq> r"
    using next_neq [OF two r] prev_neq [OF two r] mod_range [of ?ws "r - 1"] mod_range [of ?ws "r + 1"] two
    by (elim insertE emptyE) simp_all
  then show "r \<in> set (Ring_GetNeighbors (ring_topo ?ws p) p)"
    using Ring_neighbors(1) [OF two, of p] p next_prev_mod [OF r] prev_next_mod [OF r]
    by (elim insertE emptyE) simp_all
  show "Ring_ShouldConnect (ring_topo ?ws r) r p = (r < p)"
    by (rule Ring_connects [OF two r p])
qed

end
