(* ===== verification/CommunicatorResults.thy ===== *)
theory CommunicatorResults
  imports CommunicatorApi Handshake RingResults FullMeshResults
begin

text \<open>
  \<open>Communicator::Init\<close> connects each rank with its neighbours, whatever the order in which
  connections arrive, and the collectives work on the communicators it has set up.
\<close>

section \<open>Rank numbers on the wire\<close>

lemma rank_msg_decode: "0 \<le> r \<Longrightarrow> r < 2 ^ 31 \<Longrightarrow> sint (of_le (rank_msg r) :: 32 word) = r"
  by (simp add: rank_msg_def int_word_sint)

lemma fold_connected:
  "fold (\<lambda>p m. m(p \<mapsto> p)) ps m = (\<lambda>q. if q \<in> set ps then Some q else m q)"
  by (induction ps arbitrary: m) (auto simp: fun_eq_iff)

lemma fold_connected_all:
  "list_all ok ps \<Longrightarrow> fold (\<lambda>p m. if ok p then m(p \<mapsto> p) else m) ps m = (\<lambda>q. if q \<in> set ps then Some q else m q)"
  by (induction ps arbitrary: m) (auto simp: fun_eq_iff)

lemma fold_accepted:
  assumes "\<forall>p\<in>set ps. 0 \<le> p \<and> p < 2 ^ 31"
  shows "fold (\<lambda>(p, res) m. case res of Got bs \<Rightarrow> m(sint (of_le bs :: 32 word) \<mapsto> p) | _ \<Rightarrow> m)
      (zip ps (map (\<lambda>p. Got (rank_msg p)) ps)) m = (\<lambda>q. if q \<in> set ps then Some q else m q)"
  using assms by (induction ps arbitrary: m) (auto simp: fun_eq_iff rank_msg_decode)

lemma for_each_send_rank:
  assumes "\<And>p. p \<in> set ps \<Longrightarrow> GetTransport comm p = Some p"
  shows "bind_io (for_each ps (\<lambda>peer _. bind_io (get_transport comm peer) (\<lambda>transport.
      SendOrFail transport (le_bytes 4 (word_of_int r :: 32 word)))) ()) (\<lambda>_. fin) = send_rank r ps fin"
  using assms by (induction ps) (simp_all add: SendOrFail_def rank_msg_def)

section \<open>Init\<close>

abbreviation topo_of :: "TopologyType \<Rightarrow> int \<Rightarrow> int \<Rightarrow> topology" where
  "topo_of ty ws r \<equiv> Topology_Init (TopologyFactory_Create ty) r ws"

abbreviation neighbors_of :: "TopologyType \<Rightarrow> int \<Rightarrow> int \<Rightarrow> int list" where
  "neighbors_of ty ws r \<equiv> Topology_GetNeighbors ty (topo_of ty ws r) r"

abbreviation connects_to :: "TopologyType \<Rightarrow> int \<Rightarrow> int \<Rightarrow> int \<Rightarrow> bool" where
  "connects_to ty ws r \<equiv> Topology_ShouldConnect ty (topo_of ty ws r) r"

lemma topo_of_simps [simp]: "topo_of RING ws r = ring_topo ws r" "topo_of FULL_MESH ws r = mesh_topo ws r"
  by (simp_all add: TopologyFactory_Create_def ring_topo_def mesh_topo_def)

text \<open>
  An operating system that does its part for all ranks: sockets listen, each connection is made
  within 30 attempts, and each rank gets the connections of the peers it accepts, in some order.
\<close>

definition good_wires :: "TopologyType \<Rightarrow> int \<Rightarrow> NodeInfo list \<Rightarrow> (int \<Rightarrow> wires) \<Rightarrow> bool" where
  "good_wires ty ws nodes env \<longleftrightarrow> (\<forall>r. 0 \<le> r \<and> r < ws \<longrightarrow>
     listens (env r) \<and>
     (\<forall>p\<in>set (neighbors_of ty ws r). connects_to ty ws r p \<longrightarrow> (\<exists>k<30. connects (env r) p (nodes ! nat p) k)) \<and>
     distinct (arrival (env r)) \<and>
     set (arrival (env r)) = set (filter (\<lambda>p. \<not> connects_to ty ws r p) (neighbors_of ty ws r)))"

text \<open>The communicator of rank \<open>r\<close> when \<open>Init\<close> has returned.\<close>

definition ready_comm :: "TransportType \<Rightarrow> TopologyType \<Rightarrow> int \<Rightarrow> (int \<Rightarrow> CommConfig) \<Rightarrow> int \<Rightarrow> Communicator" where
  "ready_comm tt ty ws cfg r = \<lparr>config = cfg r, transport_type = tt, topology_type = ty, topo = Some (topo_of ty ws r),
     transports = (\<lambda>p. if p \<in> set (neighbors_of ty ws r) then Some p else None)\<rparr>"

text \<open>The communicator of rank \<open>r\<close> when it starts to set up its transports.\<close>

definition early_comm :: "TransportType \<Rightarrow> TopologyType \<Rightarrow> int \<Rightarrow> (int \<Rightarrow> CommConfig) \<Rightarrow> int \<Rightarrow> Communicator" where
  "early_comm tt ty ws cfg r = new_Communicator\<lparr>config := cfg r, transport_type := tt, topology_type := ty, topo := Some (topo_of ty ws r)\<rparr>"

lemma InitTransports_syncs:
  assumes wiring: "wiring ws (neighbors_of ty ws) (connects_to ty ws)"
    and N: "healthy N" and ws: "ws < 2 ^ 31" and nodes: "length nodes = nat ws" and env: "good_wires ty ws nodes env"
    and cfg: "\<And>r. config_rank (cfg r) = r"
  shows "syncs N (world ws (\<lambda>r. InitTransports (env r) nodes (early_comm tt ty ws cfg r)))
    (world ws (\<lambda>r. io_return (ready_comm tt ty ws cfg r)))"
proof -
  let ?cps = "wiring.connect_peers (neighbors_of ty ws) (connects_to ty ws)"
  let ?aps = "\<lambda>r. filter (\<lambda>p. \<not> connects_to ty ws r p) (neighbors_of ty ws r)"
  let ?acc = "\<lambda>r. arrival (env r)"
  note cps_def = wiring.connect_peers_def [OF wiring]
  define c0 where "c0 = (\<lambda>r. new_Communicator\<lparr>config := cfg r, transport_type := tt, topology_type := ty, topo := Some (topo_of ty ws r)\<rparr>)"
  have early: "early_comm tt ty ws cfg r = c0 r" for r
    by (simp add: early_comm_def c0_def)
  define c1 where "c1 = (\<lambda>r. (c0 r)\<lparr>transports := (\<lambda>q. if q \<in> set (?cps r) then Some q else None)\<rparr>)"
  define tail where "tail = (\<lambda>r comm. bind_io (for_each (?cps r) (\<lambda>peer _. bind_io (get_transport comm peer) (\<lambda>transport.
      SendOrFail transport (le_bytes 4 (word_of_int r :: 32 word)))) ()) (\<lambda>_. io_return comm))"
  define accepted where "accepted = (\<lambda>r results.
      if length (?acc r) = length (?aps r) \<and> list_all (\<lambda>res. case res of Got bs \<Rightarrow> True | _ \<Rightarrow> False) results
      then io_return ((c1 r)\<lparr>transports := fold (\<lambda>(p, res) m. case res of
             Got bs \<Rightarrow> m(sint (of_le bs :: 32 word) \<mapsto> p) | _ \<Rightarrow> m) (zip (?acc r) results) (transports (c1 r))\<rparr>)
      else io_fail RecvFailed)"
  define cont where "cont = (\<lambda>r results. bind_io (if ?aps r \<noteq> [] then accepted r results else io_return (c1 r)) (tail r))"
  have arr: "wiring.arrivals ws (neighbors_of ty ws) (connects_to ty ws) ?acc"
    using env by (simp add: wiring.arrivals_def [OF wiring] good_wires_def)
  have start: "InitTransports (env r) nodes (early_comm tt ty ws cfg r) = await_ranks (?acc r) (cont r) {}"
    if r: "0 \<le> r" "r < ws" for r
  proof -
    have sets: "set (?acc r) = set (?aps r)" and up: "listens (env r)"
      and tries: "\<forall>p\<in>set (neighbors_of ty ws r). connects_to ty ws r p \<longrightarrow> (\<exists>k<30. connects (env r) p (nodes ! nat p) k)"
      using env r unfolding good_wires_def by auto
    then have ok: "list_all (\<lambda>peer. list_ex (connects (env r) peer (nodes ! nat peer)) [0..<30]) (?cps r)"
      unfolding cps_def by (auto simp: list_all_iff list_ex_iff Bex_def)
    have small: "\<not> list_ex (\<lambda>p. length nodes \<le> nat p) (r # ?cps r)"
    proof -
      have "nat p < nat ws" if "p \<in> set (?cps r)" for p
        using wiring.connect_peers_larger [OF wiring r that] r by simp
      then show ?thesis
        using nodes r by (auto simp: list_ex_iff not_le)
    qed
    have conn: "ConnectActivePeers (env r) nodes (?cps r) (c0 r) = (True, c1 r)"
      using ok by (simp add: ConnectActivePeers_def Let_def fold_connected_all [OF ok] c1_def c0_def new_Communicator_def)
    have "InitTransports (env r) nodes (early_comm tt ty ws cfg r) = bind_io (if ?aps r \<noteq> [] then AcceptPassivePeers (env r) (?aps r) (c1 r) else io_return (c1 r)) (tail r)"
    proof -
      have "topo (c0 r) = Some (topo_of ty ws r)" "config_rank (config (c0 r)) = r" "topology_type (c0 r) = ty"
        by (simp_all add: c0_def cfg)
      then show ?thesis
        using small conn up r unfolding InitTransports_def Let_def cps_def
        by (simp add: early tail_def cps_def cong: if_cong)
    qed
    also have "\<dots> = await_ranks (?acc r) (cont r) {}"
    proof (cases "?aps r = []")
      case True
      then have "?acc r = []"
        using sets by (metis set_empty)
      then show ?thesis
        using True by (simp add: await_ranks_def cont_def)
    next
      case False
      then have "?acc r \<noteq> []"
        using sets by (metis set_empty)
      then show ?thesis
        using False by (simp add: await_ranks_def cont_def AcceptPassivePeers_def accepted_def [abs_def])
    qed
    finally show ?thesis .
  qed
  have cont: "cont r (map (\<lambda>p. Got (rank_msg p)) (?acc r)) = send_rank r (?cps r) (io_return (ready_comm tt ty ws cfg r))"
    if r: "0 \<le> r" "r < ws" for r
  proof -
    have sets: "set (?acc r) = set (?aps r)" and dist: "distinct (?acc r)"
      using env r unfolding good_wires_def by auto
    have len: "length (?acc r) = length (?aps r)"
      using distinct_card [OF dist] distinct_card [of "?aps r"] wiring.neighbor_distinct [OF wiring r] sets by simp
    have range: "\<forall>p\<in>set (?acc r). 0 \<le> p \<and> p < 2 ^ 31"
      using wiring.arrivals_smaller [OF wiring arr r] r ws by fastforce
    have trans: "(\<lambda>q. if q \<in> set (?acc r) then Some q else if q \<in> set (?cps r) then Some q else None) =
        (\<lambda>q. if q \<in> set (neighbors_of ty ws r) then Some q else None)"
      unfolding sets cps_def by auto
    have c2: "(if ?aps r \<noteq> [] then accepted r (map (\<lambda>p. Got (rank_msg p)) (?acc r)) else io_return (c1 r)) =
        io_return (ready_comm tt ty ws cfg r)"
    proof (cases "?aps r = []")
      case True
      then have "?acc r = []"
        using sets by (metis set_empty)
      then show ?thesis
        using True trans by (simp add: c1_def c0_def ready_comm_def new_Communicator_def)
    next
      case False
      then show ?thesis
        using len trans fold_accepted [OF range]
        by (simp add: accepted_def list_all_iff c1_def c0_def ready_comm_def new_Communicator_def)
    qed
    have "\<And>p. p \<in> set (?cps r) \<Longrightarrow> GetTransport (ready_comm tt ty ws cfg r) p = Some p"
      by (simp add: ready_comm_def GetTransport_def cps_def)
    then have "tail r (ready_comm tt ty ws cfg r) = send_rank r (?cps r) (io_return (ready_comm tt ty ws cfg r))"
      unfolding tail_def by (rule for_each_send_rank)
    then show ?thesis
      unfolding cont_def c2 by simp
  qed
  have "world ws (\<lambda>r. InitTransports (env r) nodes (early_comm tt ty ws cfg r)) =
      world ws (\<lambda>r. await_ranks (?acc r) (cont r) {})"
    by (rule world_cong) (rule start)
  then show ?thesis
    using wiring.handshake_syncs [OF wiring N arr, where cont = cont and fin = "\<lambda>r. io_return (ready_comm tt ty ws cfg r)"] cont
    by simp
qed

lemma Communicator_Init_syncs:
  assumes wiring: "wiring ws (neighbors_of ty ws) (connects_to ty ws)"
    and N: "healthy N" and ws: "0 < ws" "ws < 2 ^ 31" and boot: "good_boot ws benv cfg port"
    and env: "good_wires ty ws (node_table ws benv cfg port) env"
    and cfg: "\<And>r. config_rank (cfg r) = r" "\<And>r. config_world_size (cfg r) = ws"
  shows "syncs N (world ws (\<lambda>r. Communicator_Init (Some (port r)) (benv r) (env r) (cfg r) tt ty new_Communicator))
    (world ws (\<lambda>r. io_return (ready_comm tt ty ws cfg r)))"
proof -
  let ?init = "\<lambda>r nodes. InitTransports (env r) nodes (early_comm tt ty ws cfg r)"
  have "world ws (\<lambda>r. Communicator_Init (Some (port r)) (benv r) (env r) (cfg r) tt ty new_Communicator) =
      world ws (\<lambda>r. bind_io (Bootstrap_Run (benv r) (cfg r) (port r)) (?init r))"
    by (rule world_cong) (simp add: Communicator_Init_def early_comm_def cfg)
  moreover have "syncs N (world ws (\<lambda>r. bind_io (Bootstrap_Run (benv r) (cfg r) (port r)) (?init r)))
      (world ws (\<lambda>r. ?init r (node_table ws benv cfg port)))"
    by (rule Bootstrap_syncs [OF N ws boot cfg])
  moreover have "syncs N (world ws (\<lambda>r. ?init r (node_table ws benv cfg port)))
      (world ws (\<lambda>r. io_return (ready_comm tt ty ws cfg r)))"
    by (rule InitTransports_syncs [OF wiring N ws(2) _ env cfg(1)]) (simp add: node_table_def)
  ultimately show ?thesis
    using syncs_trans by (simp only:)
qed

lemma neighbors_of_ring: "neighbors_of RING ws = (\<lambda>r. Ring_GetNeighbors (ring_topo ws r) r)"
  and neighbors_of_mesh: "neighbors_of FULL_MESH ws = (\<lambda>r. FullMesh_GetNeighbors (mesh_topo ws r) r)"
  and connects_to_ring: "connects_to RING ws = (\<lambda>r. Ring_ShouldConnect (ring_topo ws r) r)"
  and connects_to_mesh: "connects_to FULL_MESH ws = FullMesh_ShouldConnect"
  by (intro ext, simp)+

lemma wiring_ring: "2 \<le> ws \<Longrightarrow> wiring ws (neighbors_of RING ws) (connects_to RING ws)"
  using ring_wiring.wiring_axioms [of "nat (ws - 2)"] unfolding neighbors_of_ring connects_to_ring by simp

lemma wiring_mesh: "wiring ws (neighbors_of FULL_MESH ws) (connects_to FULL_MESH ws)"
  unfolding neighbors_of_mesh connects_to_mesh by (rule mesh_wiring.wiring_axioms)

text \<open>
  C4: When all ranks call \<open>Init\<close> (a full mesh of any size, or a ring of at least two), the
  connections are made and every rank's number gets through, every call returns true and rank
  \<open>r\<close> has exactly one transport for each of its neighbours, leading to that neighbour,
  whatever the order in which the connections arrive. No schedule deadlocks.
\<close>

theorem Communicator_Init_delivers:
  assumes "healthy N" "ty = FULL_MESH \<and> 0 < ws \<or> 2 \<le> ws" "ws < 2 ^ 31"
    and "good_boot ws benv cfg port" "good_wires ty ws (node_table ws benv cfg port) env"
    and "\<And>r. config_rank (cfg r) = r" "\<And>r. config_world_size (cfg r) = ws"
  shows "delivers N ws (\<lambda>r. Communicator_Init (Some (port r)) (benv r) (env r) (cfg r) tt ty new_Communicator)
    (\<lambda>r. Inr (ready_comm tt ty ws cfg r))"
proof (rule delivers_by_schedule, rule Communicator_Init_syncs)
  show "wiring ws (neighbors_of ty ws) (connects_to ty ws)"
    using assms(2) wiring_ring wiring_mesh by (cases ty) auto
qed (use assms in auto)

text \<open>
  Concrete surroundings: all connections are made at once and arrive from the last rank to the
  first.
\<close>

definition some_wires :: "TopologyType \<Rightarrow> int \<Rightarrow> int \<Rightarrow> wires" where
  "some_wires ty ws r = \<lparr>listens = True, connects = (\<lambda>_ _ _. True),
     arrival = rev (filter (\<lambda>p. \<not> connects_to ty ws r p) (neighbors_of ty ws r))\<rparr>"

lemma some_wires_good: "wiring ws (neighbors_of ty ws) (connects_to ty ws) \<Longrightarrow> good_wires ty ws nodes (some_wires ty ws)"
  using wiring.neighbor_distinct by (fastforce simp: good_wires_def some_wires_def)

lemma some_wires_ring: "2 \<le> ws \<Longrightarrow> good_wires RING ws nodes (some_wires RING ws)"
  by (rule some_wires_good, rule wiring_ring)

lemma Communicator_Init_delivers_witness:
  "delivers tight_net 4 (\<lambda>r. Communicator_Init (Some 4000) (some_boot 4 r) (some_wires RING 4 r) (some_config 4 r) TCP RING new_Communicator)
    (\<lambda>r. Inr (ready_comm TCP RING 4 (some_config 4) r))"
  by (rule Communicator_Init_delivers) (simp_all add: some_wires_ring some_boot_good)

section \<open>Init, then a collective\<close>

lemma ready_comm_ring: "2 \<le> ws \<Longrightarrow> wired_ring ws (ready_comm tt RING ws cfg)"
  by (simp add: wired_ring_def ready_comm_def Ring_neighbors)

lemma ready_comm_mesh: "wired_mesh ws (ready_comm tt FULL_MESH ws cfg)"
  by (simp add: wired_mesh_def ready_comm_def set_FullMesh_neighbors)

lemma on_topology_ready [simp]:
  "on_topology (ready_comm tt RING ws cfg r) ring mesh = ring (ring_topo ws r)"
  "on_topology (ready_comm tt FULL_MESH ws cfg r) ring mesh = mesh (mesh_topo ws r)"
  by (simp_all add: on_topology_def ready_comm_def)

text \<open>
  C3: A ring program that initialises its communicator and calls \<open>AllReduce\<close> with SUM, MAX or
  MIN on integers ends, on every rank and under every schedule, with the element-wise
  combination of all send buffers, provided the chunks fit.
\<close>

theorem Ring_Init_AllReduce_delivers:
  assumes "healthy N" "2 \<le> ws" "ws < 2 ^ 31"
    and "good_boot ws benv cfg port" "good_wires RING ws (node_table ws benv cfg port) env"
    and "\<And>r. config_rank (cfg r) = r" "\<And>r. config_world_size (cfg r) = ws"
    and "int_type dtype" "op \<noteq> OpAVG" "ws = 2 \<or> fits ws count" "count < 2 ^ 64"
    and "\<And>r. length (d r) = count * GetDataTypeSize dtype" "\<And>r. length (rbuf r) = count * GetDataTypeSize dtype"
  shows "delivers N ws (\<lambda>r. bind_io
      (Communicator_Init (Some (port r)) (benv r) (env r) (cfg r) tt RING new_Communicator)
      (\<lambda>comm. Communicator_AllReduce F comm (d r) (rbuf r) count dtype op))
    (\<lambda>r. Inr (reduced dtype op count (nat ws) (\<lambda>q. d (int q))))"
proof (rule delivers_bind)
  show "delivers N ws (\<lambda>r. Communicator_Init (Some (port r)) (benv r) (env r) (cfg r) tt RING new_Communicator)
      (\<lambda>r. Inr (ready_comm tt RING ws cfg r))"
    by (rule delivers_by_schedule, rule Communicator_Init_syncs [OF wiring_ring]) (use assms in auto)
  have "delivers N ws (\<lambda>r. Ring_AllReduce F (ring_topo ws r) (ready_comm tt RING ws cfg r) (d r) (rbuf r) count dtype op)
      (\<lambda>r. Inr (reduced dtype op count (nat ws) (\<lambda>q. d (int q))))"
    by (rule AllReduce_delivers [OF _ ready_comm_ring]) (use assms in auto)
  then show "delivers N ws (\<lambda>r. Communicator_AllReduce F (ready_comm tt RING ws cfg r) (d r) (rbuf r) count dtype op)
      (\<lambda>r. Inr (reduced dtype op count (nat ws) (\<lambda>q. d (int q))))"
    by (simp add: Communicator_AllReduce_def)
qed

lemma Ring_Init_AllReduce_delivers_witness:
  "delivers tight_net 3 (\<lambda>r. bind_io
      (Communicator_Init (Some 4000) (some_boot 3 r) (some_wires RING 3 r) (some_config 3 r) TCP RING new_Communicator)
      (\<lambda>comm. Communicator_AllReduce some_fp comm (replicate 16 (word_of_int r)) (replicate 16 0) 4 INT32 OpSUM))
    (\<lambda>r. Inr (reduced INT32 OpSUM 4 (nat 3) (\<lambda>q. replicate 16 (word_of_int (int q)))))"
  by (rule Ring_Init_AllReduce_delivers)
     (simp_all add: some_wires_ring some_boot_good int_type_def fits_def ring_chunk_size_def)

section \<open>Point-to-point messages\<close>

text \<open>
  C35: When one rank calls \<open>Send\<close> to a neighbour and that neighbour calls \<open>Recv\<close> from it
  with the same count and type, both calls return true and the receive buffer holds what was
  sent, while the other ranks do nothing.
\<close>

theorem Communicator_Send_Recv_delivers:
  assumes "healthy N" "0 \<le> a" "a < ws" "0 \<le> b" "b < ws" "a \<noteq> b"
    and "b \<in> set (neighbors_of ty ws a)" "a \<in> set (neighbors_of ty ws b)" "\<And>r. config_rank (cfg r) = r"
    and "length sbuf = count * GetDataTypeSize dtype" "length rbuf = count * GetDataTypeSize dtype"
  shows "delivers N ws (\<lambda>r.
      if r = a then bind_io (Communicator_Send (ready_comm tt ty ws cfg a) sbuf count dtype b) (\<lambda>_. io_return sbuf)
      else if r = b then Communicator_Recv (ready_comm tt ty ws cfg b) rbuf count dtype a
      else io_return [])
    (\<lambda>r. Inr (if r = a \<or> r = b then sbuf else []))"
proof (rule delivers_by_schedule)
  let ?f = "world ws (\<lambda>r. if r = a then bind_io (Communicator_Send (ready_comm tt ty ws cfg a) sbuf count dtype b) (\<lambda>_. io_return sbuf)
      else if r = b then Communicator_Recv (ready_comm tt ty ws cfg b) rbuf count dtype a else io_return [])"
  have "GetTransport (ready_comm tt ty ws cfg a) b = Some b" "GetTransport (ready_comm tt ty ws cfg b) a = Some a"
    using assms by (simp_all add: ready_comm_def GetTransport_def)
  then have "syncs N ?f (?f(a := (\<lambda>_. io_return sbuf) (), b := io_store rbuf 0 sbuf))"
    by (intro syncs_send_recv) (use assms in \<open>simp_all add: Communicator_Send_def Communicator_Recv_def ready_comm_def mem_simps\<close>)
  moreover have "?f(a := (\<lambda>_. io_return sbuf) (), b := io_store rbuf 0 sbuf) = world ws (\<lambda>r. io_return (if r = a \<or> r = b then sbuf else []))"
    using assms by (auto simp: world_def fun_eq_iff mem_simps)
  ultimately show "syncs N ?f (world ws (\<lambda>r. io_return (if r = a \<or> r = b then sbuf else [])))"
    by simp
qed

lemma Communicator_Send_Recv_delivers_witness:
  "delivers tight_net 3 (\<lambda>r.
      if r = 2 then bind_io (Communicator_Send (ready_comm TCP RING 3 (some_config 3) 2) [1, 2, 3, 4] 1 INT32 0) (\<lambda>_. io_return [1, 2, 3, 4])
      else if r = 0 then Communicator_Recv (ready_comm TCP RING 3 (some_config 3) 0) [9, 9, 9, 9] 1 INT32 2
      else io_return [])
    (\<lambda>r. Inr (if r = 2 \<or> r = 0 then [1, 2, 3, 4] else []))"
  by (rule Communicator_Send_Recv_delivers) (simp_all add: Ring_neighbors)

end
