(* ===== verification/Sockets.thy ===== *)
theory Sockets
  imports Prelude Bytes
begin

text \<open>
  The socket functions of \<open>src/utils.cpp\<close> over a small model of the operating system as one
  process sees it: the descriptors it has open, the options set on them, the bytes it has handed
  over on each and the bytes that are there to be read. What a system call answers is not
  determined by that, so the answers to come are a list, one for each call; a call that finds
  none fails.
\<close>

section \<open>System calls\<close>

datatype sockopt = TCP_NODELAY | SO_REUSEADDR

record os =
  open_fds :: "int list"
  bad_closes :: "int list"
  options :: "(int \<times> sockopt) list"
  wire_out :: "int \<Rightarrow> bytes"
  wire_in :: "int \<Rightarrow> bytes"
  replies :: "int list"

text \<open>The next answer; a negative one is an error.\<close>

definition sys_reply :: "os \<Rightarrow> int \<times> os" where
  "sys_reply s = (case replies s of [] \<Rightarrow> (-1, s) | r # rs \<Rightarrow> (r, s\<lparr>replies := rs\<rparr>))"

text \<open>A new descriptor is the lowest that is not in use.\<close>

definition lowest_fd :: "int list \<Rightarrow> int" where
  "lowest_fd fds = int (hd (filter (\<lambda>n. int n \<notin> set fds) [0..<Suc (length fds)]))"

text \<open>\<open>socket\<close> and \<open>accept\<close>.\<close>

definition sys_open :: "os \<Rightarrow> int \<times> os" where
  "sys_open s = (let (r, s) = sys_reply s in
     if r < 0 then (-1, s) else (lowest_fd (open_fds s), s\<lparr>open_fds := lowest_fd (open_fds s) # open_fds s\<rparr>))"

text \<open>\<open>close\<close>; closing a descriptor that is not open is noted.\<close>

definition sys_close :: "int \<Rightarrow> os \<Rightarrow> os" where
  "sys_close fd s = (if fd \<in> set (open_fds s) then s\<lparr>open_fds := remove1 fd (open_fds s)\<rparr>
     else s\<lparr>bad_closes := fd # bad_closes s\<rparr>)"

definition sys_setsockopt :: "int \<Rightarrow> sockopt \<Rightarrow> os \<Rightarrow> int \<times> os" where
  "sys_setsockopt fd opt s = (let (r, s) = sys_reply s in
     (r, if r < 0 then s else s\<lparr>options := (fd, opt) # options s\<rparr>))"

text \<open>
  \<open>send\<close> takes at least one byte unless it fails, and at most what it is offered; \<open>recv\<close>
  likewise, and \<open>0\<close> says that the peer has closed the connection and nothing is left. With
  \<open>MSG_WAITALL\<close> it waits for all it can get.
\<close>

definition sys_send :: "int \<Rightarrow> bytes \<Rightarrow> os \<Rightarrow> int \<times> os" where
  "sys_send fd bs s = (let (r, s) = sys_reply s in
     if r \<le> 0 then (r, s)
     else (int (min (nat r) (length bs)),
           s\<lparr>wire_out := (wire_out s)(fd := wire_out s fd @ take (nat r) bs)\<rparr>))"

definition sys_recv :: "bool \<Rightarrow> int \<Rightarrow> nat \<Rightarrow> os \<Rightarrow> int \<times> bytes \<times> os" where
  "sys_recv waitall fd n s = (let (r, s) = sys_reply s in
     if r \<le> 0 then (r, [], s)
     else let bs = take (if waitall then n else min (nat r) n) (wire_in s fd) in
       (int (length bs), bs, s\<lparr>wire_in := (wire_in s)(fd := drop (length bs) (wire_in s fd))\<rparr>))"

section \<open>Setting up sockets\<close>

definition SetTcpNoDelay :: "int \<Rightarrow> os \<Rightarrow> os" where
  "SetTcpNoDelay fd s = snd (sys_setsockopt fd TCP_NODELAY s)"

definition SetReuseAddr :: "int \<Rightarrow> os \<Rightarrow> os" where
  "SetReuseAddr fd s = snd (sys_setsockopt fd SO_REUSEADDR s)"

text \<open>\<open>getsockname\<close> answers with the port; after an error the code returns \<open>-1\<close> as a port.\<close>

definition GetSocketPort :: "int \<Rightarrow> os \<Rightarrow> 16 word \<times> os" where
  "GetSocketPort fd s = (let (r, s) = sys_reply s in (if 0 \<le> r then word_of_int r else - 1, s))"

text \<open>The port is asked for only where the caller passed a place for it.\<close>

definition CreateListenSocket :: "bool \<Rightarrow> os \<Rightarrow> int \<times> 16 word option \<times> os" where
  "CreateListenSocket want_port s =
     (let (sockfd, s) = sys_open s in
      if sockfd < 0 then (-1, None, s)
      else
        let s = SetReuseAddr sockfd (SetTcpNoDelay sockfd s); (b, s) = sys_reply s in
        if b < 0 then (-1, None, sys_close sockfd s)
        else
          let (l, s) = sys_reply s in
          if l < 0 then (-1, None, sys_close sockfd s)
          else if want_port then let (p, s) = GetSocketPort sockfd s in (sockfd, Some p, s)
          else (sockfd, None, s))"

definition AcceptConnection :: "int \<Rightarrow> os \<Rightarrow> int \<times> os" where
  "AcceptConnection listen_fd s =
     (let (client_fd, s) = sys_open s in
      if client_fd < 0 then (-1, s) else (client_fd, SetTcpNoDelay client_fd s))"

primrec connect_retries :: "nat \<Rightarrow> int \<Rightarrow> os \<Rightarrow> int \<times> os" where
  "connect_retries 0 sockfd s = (-1, sys_close sockfd s)"
| "connect_retries (Suc n) sockfd s =
     (let (r, s) = sys_reply s in if r = 0 then (sockfd, s) else connect_retries n sockfd s)"

text \<open>\<open>inet_pton\<close> answers \<open>1\<close> for an address in the right notation.\<close>

definition CreateConnectSocket :: "nat \<Rightarrow> os \<Rightarrow> int \<times> os" where
  "CreateConnectSocket retry_count s =
     (let (sockfd, s) = sys_open s in
      if sockfd < 0 then (-1, s)
      else
        let (p, s) = sys_reply (SetTcpNoDelay sockfd s) in
        if p \<le> 0 then (-1, sys_close sockfd s) else connect_retries retry_count sockfd s)"

section \<open>Moving bytes\<close>

text \<open>
  The loops \<open>while (total < size)\<close> of \<open>SendRaw\<close>, \<open>RecvRaw\<close>, \<open>SendAll\<close> and
  \<open>RecvAll\<close>. Every round that goes on moves at least one byte. A receive loop gets the bytes
  the buffer holds so far.
\<close>

lemma sys_send_taken:
  "sys_send fd bs s = (n, s') \<Longrightarrow> 0 < n \<Longrightarrow> n \<le> int (length bs)"
  by (auto simp: sys_send_def Let_def split: prod.splits if_splits)

lemma sys_recv_given:
  "sys_recv w fd n s = (r, bs, s') \<Longrightarrow> 0 < r \<Longrightarrow> int (length bs) = r \<and> length bs \<le> n"
  by (auto simp: sys_recv_def Let_def split: prod.splits if_splits)

function send_loop :: "int \<Rightarrow> bytes \<Rightarrow> nat \<Rightarrow> os \<Rightarrow> bool \<times> os" where
  "send_loop fd data sofar s =
     (if sofar < length data
      then let (sent, s) = sys_send fd (drop sofar data) s in
           if sent \<le> 0 then (False, s) else send_loop fd data (sofar + nat sent) s
      else (True, s))"
  by pat_completeness auto
termination
  by (relation "measure (\<lambda>(fd, data, sofar, s). length data - sofar)") auto

function recv_loop :: "bool \<Rightarrow> int \<Rightarrow> nat \<Rightarrow> bytes \<Rightarrow> os \<Rightarrow> bool \<times> bytes \<times> os" where
  "recv_loop waitall fd sz buf s =
     (if length buf < sz
      then let (recvd, bs, s) = sys_recv waitall fd (sz - length buf) s in
           if recvd \<le> 0 then (False, buf, s) else recv_loop waitall fd sz (buf @ take (nat recvd) bs) s
      else (True, buf, s))"
  by pat_completeness auto
termination
proof (relation "measure (\<lambda>(w, fd, sz, buf, s). sz - length buf)", goal_cases)
  case (2 waitall fd sz buf s x recvd y bs s')
  then have "sys_recv waitall fd (sz - length buf) s = (recvd, bs, s')"
    by simp
  from sys_recv_given [OF this] show ?case
    using 2 by (auto simp flip: length_greater_0_conv)
qed simp

declare send_loop.simps [simp del] recv_loop.simps [simp del]

text \<open>\<open>SendAll\<close> and \<open>RecvAll\<close> put the size in front, modulo \<open>2 ^ 32\<close>.\<close>

definition SendAll :: "int \<Rightarrow> bytes \<Rightarrow> os \<Rightarrow> bool \<times> os" where
  "SendAll sockfd data s =
     (let (sent, s) = sys_send sockfd (be_bytes 4 (of_nat (length data) :: 32 word)) s in
      if sent \<noteq> 4 then (False, s) else send_loop sockfd data 0 s)"

definition RecvAll :: "int \<Rightarrow> os \<Rightarrow> bool \<times> bytes \<times> os" where
  "RecvAll sockfd s =
     (let (recvd, net_size, s) = sys_recv True sockfd 4 s in
      if recvd \<noteq> 4 then (False, [], s)
      else
        let sz = unat (of_be net_size :: 32 word) in
        if sz = 0 then (True, [], s) else recv_loop True sockfd sz [] s)"

section \<open>What the loops do\<close>

text \<open>What a call leaves as it is.\<close>

definition same_fds :: "os \<Rightarrow> os \<Rightarrow> bool" where
  "same_fds s s' \<longleftrightarrow> open_fds s' = open_fds s \<and> bad_closes s' = bad_closes s"

lemma same_fds_refl [simp]: "same_fds s s"
  by (simp add: same_fds_def)

lemma same_fds_trans [trans]: "same_fds s t \<Longrightarrow> same_fds t u \<Longrightarrow> same_fds s u"
  by (simp add: same_fds_def)

lemma sys_reply_wires:
  "sys_reply s = (r, s') \<Longrightarrow> same_fds s s' \<and> wire_out s' = wire_out s \<and> wire_in s' = wire_in s"
  by (auto simp: sys_reply_def same_fds_def split: list.splits)

lemma sys_send_wires:
  assumes "sys_send fd bs s = (n, s')"
  shows "wire_out s' = (wire_out s)(fd := wire_out s fd @ take (nat n) bs)" "wire_in s' = wire_in s" "same_fds s s'"
  using assms sys_reply_wires [of s]
  by (auto simp: sys_send_def Let_def min_def nat_le_iff same_fds_def split: prod.splits if_splits)

lemma drop_min_length: "drop (min (length xs) n) xs = drop n xs"
  by (simp add: min_def)

lemma sys_recv_wires:
  assumes "sys_recv w fd n s = (r, bs, s')"
  shows "wire_in s fd = bs @ wire_in s' fd" "fd' \<noteq> fd \<Longrightarrow> wire_in s' fd' = wire_in s fd'"
    "wire_out s' = wire_out s" "same_fds s s'"
  using assms sys_reply_wires [of s]
  by (auto simp: sys_recv_def Let_def same_fds_def drop_min_length split: prod.splits if_splits)

text \<open>
  A send loop has handed over a prefix of the data, all of it if and only if it returns true.
\<close>

lemma send_loop_wires:
  assumes "send_loop fd data k s = (ok, s')" "k \<le> length data"
  shows "\<exists>m. k \<le> m \<and> m \<le> length data \<and> ok = (m = length data) \<and>
    wire_out s' = (wire_out s)(fd := wire_out s fd @ take (m - k) (drop k data)) \<and> wire_in s' = wire_in s \<and> same_fds s s'"
  using assms
proof (induction fd data k s rule: send_loop.induct)
  case (1 fd data k s)
  obtain n s1 where n: "sys_send fd (drop k data) s = (n, s1)"
    by fastforce
  note w = sys_send_wires [OF n]
  consider "k = length data" | "k < length data" "n \<le> 0" | "k < length data" "0 < n"
    using "1.prems"(2) by linarith
  then show ?case
  proof cases
    case 1
    then show ?thesis
      using "1.prems"(1) by (simp add: send_loop.simps)
  next
    case 2
    then show ?thesis
      using "1.prems"(1) n w by (intro exI [of _ k]) (simp add: send_loop.simps)
  next
    case 3
    then have le: "k + nat n \<le> length data"
      using sys_send_taken [OF n] by simp
    have rest: "send_loop fd data (k + nat n) s1 = (ok, s')"
      using "1.prems"(1) 3 n by (simp add: send_loop.simps [of fd data k])
    have pos: "\<not> n \<le> 0"
      using 3 by simp
    obtain m where
      m: "k + nat n \<le> m" "m \<le> length data" "ok = (m = length data)"
        "wire_out s' = (wire_out s1)(fd := wire_out s1 fd @ take (m - (k + nat n)) (drop (k + nat n) data))"
        "wire_in s' = wire_in s1" "same_fds s1 s'"
      using "1.IH" [OF 3(1) n [symmetric] refl pos rest le] by (elim exE conjE) (rule that)
    have "take (m - k) (drop k data) = take (nat n) (drop k data) @ take (m - (k + nat n)) (drop (k + nat n) data)"
    proof -
      have "m - k = nat n + (m - (k + nat n))"
        using m(1) by linarith
      then have "take (m - k) (drop k data) = take (nat n + (m - (k + nat n))) (drop k data)"
        by (rule arg_cong)
      then show ?thesis
        by (simp only: take_add drop_drop) (simp only: add.commute)
    qed
    then have "wire_out s' = (wire_out s)(fd := wire_out s fd @ take (m - k) (drop k data))"
      unfolding m(4) w(1) by simp
    moreover have "same_fds s s'"
      using w(3) m(6) by (rule same_fds_trans)
    moreover have "wire_in s' = wire_in s"
      using m(5) w(2) by (rule trans)
    moreover have "k \<le> m"
      using m(1) by simp
    ultimately show ?thesis
      using m(2,3) by blast
  qed
qed

text \<open>
  A receive loop has taken a prefix of what was there, as many bytes as it was asked for if and
  only if it returns true.
\<close>

lemma recv_loop_wires:
  assumes "recv_loop wa fd sz buf s = (ok, buf', s')" "length buf \<le> sz"
  shows "\<exists>bs. buf' = buf @ bs \<and> wire_in s fd = bs @ wire_in s' fd \<and> length buf' \<le> sz \<and> ok = (length buf' = sz) \<and>
    (\<forall>fd'. fd' \<noteq> fd \<longrightarrow> wire_in s' fd' = wire_in s fd') \<and> wire_out s' = wire_out s \<and> same_fds s s'"
  using assms
proof (induction wa fd sz buf s rule: recv_loop.induct)
  case (1 wa fd sz buf s)
  obtain r bs s1 where r: "sys_recv wa fd (sz - length buf) s = (r, bs, s1)"
    by (metis surj_pair)
  note w = sys_recv_wires [OF r]
  consider "length buf = sz" | "length buf < sz" "r \<le> 0" | "length buf < sz" "0 < r"
    using "1.prems"(2) by linarith
  then show ?case
  proof cases
    case 1
    then show ?thesis
      using "1.prems"(1) by (simp add: recv_loop.simps)
  next
    case 2
    then have "bs = []"
      using r by (auto simp: sys_recv_def Let_def simp del: length_take split: prod.splits if_splits)
    then show ?thesis
      using 2 "1.prems"(1) r w by (intro exI [of _ "[]"]) (simp add: recv_loop.simps)
  next
    case 3
    then have bs: "int (length bs) = r" "length bs \<le> sz - length buf"
      using sys_recv_given [OF r] by auto
    then have all: "take (nat r) bs = bs"
      by simp
    have rest: "recv_loop wa fd sz (buf @ bs) s1 = (ok, buf', s')"
      using "1.prems"(1) 3 r all by (simp add: recv_loop.simps [of wa fd sz buf])
    have pos: "\<not> r \<le> 0" and le: "length (buf @ bs) \<le> sz"
      using 3 bs by simp_all
    obtain cs where cs: "buf' = (buf @ bs) @ cs" "wire_in s1 fd = cs @ wire_in s' fd" "length buf' \<le> sz" "ok = (length buf' = sz)"
        "\<forall>fd'. fd' \<noteq> fd \<longrightarrow> wire_in s' fd' = wire_in s1 fd'" "wire_out s' = wire_out s1" "same_fds s1 s'"
      using "1.IH" [OF 3(1) r [symmetric] refl refl pos, unfolded all, OF rest le] by (elim exE conjE) (rule that)
    have "same_fds s s'"
      using w(4) cs(7) by (rule same_fds_trans)
    moreover have "wire_in s fd = (bs @ cs) @ wire_in s' fd"
      using w(1) cs(2) by simp
    moreover have "wire_out s' = wire_out s"
      using cs(6) w(3) by (rule trans)
    moreover have "\<forall>fd'. fd' \<noteq> fd \<longrightarrow> wire_in s' fd' = wire_in s fd'"
      using cs(5) w(2) by simp
    ultimately show ?thesis
      using cs(1,3,4) by (intro exI [of _ "bs @ cs"]) simp
  qed
qed

text \<open>Enough system calls that work: each round of a loop needs one at most.\<close>

definition willing :: "nat \<Rightarrow> os \<Rightarrow> bool" where
  "willing n s \<longleftrightarrow> n \<le> length (replies s) \<and> (\<forall>r\<in>set (replies s). 0 < r)"

lemma willing_mono: "willing n s \<Longrightarrow> m \<le> n \<Longrightarrow> willing m s"
  by (auto simp: willing_def)

lemma willing_reply: "willing (Suc n) s \<Longrightarrow> \<exists>r s'. sys_reply s = (r, s') \<and> 0 < r \<and> willing n s' \<and> wire_in s' = wire_in s"
  by (cases "replies s") (auto simp: willing_def sys_reply_def)

lemma willing_send:
  assumes "willing (Suc n) s" "bs \<noteq> []"
  shows "\<exists>m s'. sys_send fd bs s = (m, s') \<and> 0 < m \<and> willing n s'"
proof -
  obtain r s1 where "sys_reply s = (r, s1)" "0 < r" "willing n s1"
    using willing_reply [OF assms(1)] by blast
  then show ?thesis
    using assms(2) by (auto simp: sys_send_def Let_def willing_def)
qed

lemma willing_recv:
  assumes "willing (Suc n) s" "0 < k" "k \<le> length (wire_in s fd)"
  shows "\<exists>m bs s'. sys_recv w fd k s = (m, bs, s') \<and> 0 < m \<and> willing n s' \<and> (w \<longrightarrow> m = int k)"
proof -
  obtain r s1 where "sys_reply s = (r, s1)" "0 < r" "willing n s1" "wire_in s1 = wire_in s"
    using willing_reply [OF assms(1)] by blast
  then show ?thesis
    using assms(2,3) by (auto simp: sys_recv_def Let_def willing_def)
qed

lemma send_loop_true:
  assumes "willing (length data - k + m) s" "k \<le> length data"
  shows "\<exists>s'. send_loop fd data k s = (True, s') \<and> willing m s'"
  using assms
proof (induction "length data - k" arbitrary: k s rule: less_induct)
  case less
  show ?case
  proof (cases "k < length data")
    case True
    then have "Suc (length data - k - 1 + m) = length data - k + m" "drop k data \<noteq> []"
      by simp_all
    moreover from this have "willing (Suc (length data - k - 1 + m)) s"
      using less.prems(1) by (simp only:)
    ultimately obtain n s1 where n: "sys_send fd (drop k data) s = (n, s1)" "0 < n" "willing (length data - k - 1 + m) s1"
      using willing_send by blast
    then have "nat n \<le> length data - k" "0 < nat n"
      using sys_send_taken [OF n(1)] by simp_all
    then have "\<exists>s'. send_loop fd data (k + nat n) s1 = (True, s') \<and> willing m s'"
      using True n(3) by (intro less.hyps) (auto elim: willing_mono)
    then show ?thesis
      using True n by (simp add: send_loop.simps [of fd data k])
  qed (use less.prems in \<open>simp add: send_loop.simps\<close>)
qed

lemma recv_loop_true:
  assumes "willing (sz - length buf + m) s" "length buf \<le> sz" "sz - length buf \<le> length (wire_in s fd)"
  shows "\<exists>buf' s'. recv_loop w fd sz buf s = (True, buf', s') \<and> willing m s'"
  using assms
proof (induction "sz - length buf" arbitrary: buf s rule: less_induct)
  case less
  show ?case
  proof (cases "length buf < sz")
    case True
    then have "Suc (sz - length buf - 1 + m) = sz - length buf + m"
      by simp
    then have "willing (Suc (sz - length buf - 1 + m)) s"
      using less.prems(1) by (simp only:)
    then obtain n bs s1 where n: "sys_recv w fd (sz - length buf) s = (n, bs, s1)" "0 < n" "willing (sz - length buf - 1 + m) s1"
      using willing_recv [of "sz - length buf - 1 + m" s "sz - length buf" fd w] True less.prems(3) by fastforce
    have bs: "int (length bs) = n" "length bs \<le> sz - length buf"
      using sys_recv_given [OF n(1,2)] by auto
    then have "0 < length bs" "take (nat n) bs = bs"
      using n(2) by auto
    moreover have "wire_in s fd = bs @ wire_in s1 fd"
      by (rule sys_recv_wires(1) [OF n(1)])
    ultimately have "\<exists>buf' s'. recv_loop w fd sz (buf @ bs) s1 = (True, buf', s') \<and> willing m s'"
      using True n(3) bs(2) less.prems(3)
      by (intro less.hyps) (auto elim: willing_mono simp flip: length_greater_0_conv)
    then show ?thesis
      using True n \<open>take (nat n) bs = bs\<close> by (simp add: recv_loop.simps [of w fd sz buf])
  qed (use less.prems in \<open>simp add: recv_loop.simps\<close>)
qed

section \<open>Descriptors\<close>

lemma lowest_fd_fresh: "lowest_fd fds \<notin> set fds" "0 \<le> lowest_fd fds"
proof -
  have "filter (\<lambda>n. int n \<notin> set fds) [0..<Suc (length fds)] \<noteq> []"
  proof
    assume "filter (\<lambda>n. int n \<notin> set fds) [0..<Suc (length fds)] = []"
    then have "int ` {0..<Suc (length fds)} \<subseteq> set fds"
      unfolding filter_empty_conv by (auto simp del: upt_Suc)
    then have "card (int ` {0..<Suc (length fds)}) \<le> card (set fds)"
      by (intro card_mono) auto
    also have "\<dots> \<le> length fds"
      by (rule card_length)
    finally show False
      by (simp add: card_image)
  qed
  then have "hd (filter (\<lambda>n. int n \<notin> set fds) [0..<Suc (length fds)]) \<in> set (filter (\<lambda>n. int n \<notin> set fds) [0..<Suc (length fds)])"
    by (rule hd_in_set)
  then have "hd (filter (\<lambda>n. int n \<notin> set fds) [0..<Suc (length fds)]) \<in> {n. int n \<notin> set fds}"
    by (auto simp only: set_filter mem_Collect_eq)
  then show "lowest_fd fds \<notin> set fds" "0 \<le> lowest_fd fds"
    by (simp_all only: lowest_fd_def mem_Collect_eq of_nat_0_le_iff not_False_eq_True)
qed

text \<open>A function that opens a descriptor and returns it, or fails and leaves none open.\<close>

definition opened :: "os \<Rightarrow> int \<Rightarrow> os \<Rightarrow> bool" where
  "opened s fd s' \<longleftrightarrow> bad_closes s' = bad_closes s \<and>
     (if fd < 0 then open_fds s' = open_fds s
      else fd \<notin> set (open_fds s) \<and> open_fds s' = fd # open_fds s)"

lemma sys_reply_fds: "sys_reply s = (r, s') \<Longrightarrow> same_fds s s'"
  using sys_reply_wires by blast

lemma sys_open_opened: "sys_open s = (fd, s') \<Longrightarrow> opened s fd s'"
proof -
  assume o: "sys_open s = (fd, s')"
  obtain r s1 where r: "sys_reply s = (r, s1)"
    by fastforce
  then show ?thesis
    using o sys_reply_fds [OF r] lowest_fd_fresh [of "open_fds s"]
    by (auto simp: sys_open_def opened_def same_fds_def split: if_splits)
qed

lemma sys_setsockopt_fds: "same_fds s (snd (sys_setsockopt fd opt s))"
proof -
  obtain r s1 where r: "sys_reply s = (r, s1)"
    by fastforce
  then show ?thesis
    using sys_reply_fds [OF r] by (simp add: sys_setsockopt_def same_fds_def)
qed

lemma setsockopt_fds: "same_fds s (SetTcpNoDelay fd s)" "same_fds s (SetReuseAddr fd s)"
  by (simp_all add: SetTcpNoDelay_def SetReuseAddr_def sys_setsockopt_fds)

lemma opened_same: "opened s fd t \<Longrightarrow> same_fds t u \<Longrightarrow> opened s fd u"
  by (simp add: opened_def same_fds_def)

lemma opened_close: "opened s fd t \<Longrightarrow> 0 \<le> fd \<Longrightarrow> opened s (-1) (sys_close fd t)"
  by (simp add: opened_def sys_close_def)

lemma AcceptConnection_opened: "AcceptConnection lfd s = (fd, s') \<Longrightarrow> opened s fd s'"
proof -
  assume a: "AcceptConnection lfd s = (fd, s')"
  obtain fd1 s1 where 1: "sys_open s = (fd1, s1)"
    by fastforce
  then have "opened s fd1 s1"
    by (rule sys_open_opened)
  then show ?thesis
    using a 1 opened_same [of s fd1 s1, OF _ setsockopt_fds(1) [of s1 fd1]]
    by (auto simp: AcceptConnection_def opened_def split: if_splits)
qed

lemma connect_retries_opened:
  "connect_retries n fd t = (fd', s') \<Longrightarrow> opened s fd t \<Longrightarrow> 0 \<le> fd \<Longrightarrow> opened s fd' s' \<and> (fd' = fd \<or> fd' = -1)"
proof (induction n arbitrary: t)
  case 0
  then show ?case
    by (auto intro: opened_close)
next
  case (Suc n)
  obtain r u where r: "sys_reply t = (r, u)"
    by fastforce
  then have "opened s fd u"
    using Suc.prems(2) sys_reply_fds opened_same by blast
  then show ?case
    using Suc r by (auto split: if_splits)
qed

lemma CreateConnectSocket_opened: "CreateConnectSocket n s = (fd, s') \<Longrightarrow> opened s fd s'"
proof -
  assume c: "CreateConnectSocket n s = (fd, s')"
  obtain fd1 s1 where 1: "sys_open s = (fd1, s1)"
    by fastforce
  then have o1: "opened s fd1 s1"
    by (rule sys_open_opened)
  obtain p s2 where 2: "sys_reply (SetTcpNoDelay fd1 s1) = (p, s2)"
    by fastforce
  then have o2: "opened s fd1 s2"
    using o1 opened_same sys_reply_fds setsockopt_fds(1) by meson
  show ?thesis
  proof (cases "fd1 < 0")
    case True
    then show ?thesis
      using c 1 o1 by (simp add: CreateConnectSocket_def opened_def)
  next
    case False
    then show ?thesis
      using c 1 2 o2 connect_retries_opened [OF _ o2] opened_close [OF o2]
      by (auto simp: CreateConnectSocket_def Let_def split: if_splits)
  qed
qed

lemma CreateListenSocket_opened: "CreateListenSocket w s = (fd, p, s') \<Longrightarrow> opened s fd s' \<and> (fd < 0 \<longrightarrow> p = None)"
proof -
  assume c: "CreateListenSocket w s = (fd, p, s')"
  obtain fd1 s1 where 1: "sys_open s = (fd1, s1)"
    by fastforce
  then have o1: "opened s fd1 s1"
    by (rule sys_open_opened)
  obtain b s2 where 2: "sys_reply (SetReuseAddr fd1 (SetTcpNoDelay fd1 s1)) = (b, s2)"
    by fastforce
  then have o2: "opened s fd1 s2"
    using o1 opened_same sys_reply_fds setsockopt_fds by meson
  obtain l s3 where 3: "sys_reply s2 = (l, s3)"
    by fastforce
  then have o3: "opened s fd1 s3"
    using o2 opened_same sys_reply_fds by meson
  obtain q s4 where 4: "sys_reply s3 = (q, s4)"
    by fastforce
  then have o4: "opened s fd1 s4"
    using o3 opened_same sys_reply_fds by meson
  show ?thesis
  proof (cases "fd1 < 0")
    case True
    then show ?thesis
      using c 1 o1 by (simp add: CreateListenSocket_def opened_def)
  next
    case False
    then show ?thesis
      using c 1 2 3 4 o3 o4 opened_close [OF o2] opened_close [OF o3]
      by (auto simp: CreateListenSocket_def GetSocketPort_def Let_def split: if_splits)
  qed
qed

end
