(* ===== verification/Transports.thy ===== *)
theory Transports
  imports Prelude
begin

text \<open>
  What the rest of the program relies on in a \<open>Transport\<close> (\<open>src/include/transport.h\<close>):
  whatever way a transport cuts messages up, those that \<open>Send\<close> accepted come out of the
  \<open>Recv\<close> of the other end one by one, in order. The locale \<open>message_link\<close> states what one
  \<open>Send\<close> and one \<open>Recv\<close> have to do for that; the TCP and the RDMA transport are its instances.
\<close>

primrec send_messages :: "(bytes \<Rightarrow> 'a \<Rightarrow> (bool \<times> 'a) option) \<Rightarrow> bytes list \<Rightarrow> 'a \<Rightarrow> (bool \<times> 'a) option" where
  "send_messages send [] a = Some (True, a)"
| "send_messages send (m # ms) a =
     (case send m a of None \<Rightarrow> None | Some (ok, a) \<Rightarrow> if ok then send_messages send ms a else Some (False, a))"

primrec recv_messages ::
  "(nat \<Rightarrow> 'b \<Rightarrow> (bool \<times> bytes \<times> 'b) option) \<Rightarrow> nat list \<Rightarrow> 'b \<Rightarrow> (bool \<times> bytes list \<times> 'b) option" where
  "recv_messages recv [] b = Some (True, [], b)"
| "recv_messages recv (n # ns) b =
     (case recv n b of
        None \<Rightarrow> None
      | Some (ok, m, b) \<Rightarrow>
          if ok then map_option (\<lambda>(ok, ms, b). (ok, m # ms, b)) (recv_messages recv ns b) else Some (False, [], b))"

text \<open>
  \<open>wire m\<close> is what \<open>m\<close> puts on the wire, \<open>written\<close> what a sender has put there, \<open>unread\<close> what
  waits for a receiver; \<open>ready ms\<close> and \<open>expecting ms\<close> say that the environment lets the messages
  \<open>ms\<close> through.
\<close>

locale message_link =
  fixes send :: "bytes \<Rightarrow> 'a \<Rightarrow> (bool \<times> 'a) option"
    and recv :: "nat \<Rightarrow> 'b \<Rightarrow> (bool \<times> bytes \<times> 'b) option"
    and wire :: "bytes \<Rightarrow> 'w list"
    and written :: "'a \<Rightarrow> 'w list"
    and unread :: "'b \<Rightarrow> 'w list"
    and ready :: "bytes list \<Rightarrow> 'a \<Rightarrow> bool"
    and expecting :: "bytes list \<Rightarrow> 'b \<Rightarrow> bool"
  assumes send_one: "ready (m # ms) a \<Longrightarrow>
      \<exists>a'. send m a = Some (True, a') \<and> written a' = written a @ wire m \<and> ready ms a'"
    and recv_one: "expecting (m # ms) b \<Longrightarrow> unread b = wire m @ rest \<Longrightarrow>
      \<exists>b'. recv (length m) b = Some (True, m, b') \<and> unread b' = rest \<and> expecting ms b'"
begin

lemma sends: "ready ms a \<Longrightarrow>
  \<exists>a'. send_messages send ms a = Some (True, a') \<and> written a' = written a @ concat (map wire ms)"
proof (induction ms arbitrary: a)
  case (Cons m ms)
  then obtain a1 where "send m a = Some (True, a1)" "written a1 = written a @ wire m" "ready ms a1"
    using send_one by blast
  with Cons.IH [of a1] show ?case
    by auto
qed simp

lemma recvs: "expecting ms b \<Longrightarrow> unread b = concat (map wire ms) @ rest \<Longrightarrow>
  \<exists>b'. recv_messages recv (map length ms) b = Some (True, ms, b') \<and> unread b' = rest"
proof (induction ms arbitrary: b)
  case (Cons m ms)
  then obtain b1 where "recv (length m) b = Some (True, m, b1)" "unread b1 = concat (map wire ms) @ rest" "expecting ms b1"
    using recv_one [of m ms b "concat (map wire ms) @ rest"] by auto
  with Cons.IH [of b1] show ?case
    by auto
qed simp

text \<open>All that a sender has written reaches a receiver that has read everything before it.\<close>

lemma carries:
  assumes "ready ms a" "written a = []"
    and "\<And>ws. ws = concat (map wire ms) \<Longrightarrow> unread (put ws b) = ws"
    and "\<And>ws. ws = concat (map wire ms) \<Longrightarrow> expecting ms (put ws b)"
  shows "\<exists>a'. send_messages send ms a = Some (True, a') \<and>
    (\<exists>b'. recv_messages recv (map length ms) (put (written a') b) = Some (True, ms, b') \<and> unread b' = [])"
  using sends [OF assms(1)] recvs [OF assms(4) [OF refl], of "[]"] assms(2,3) by auto

end

end
