(* ===== verification/TransportTcp.thy ===== *)
theory TransportTcp
  imports Sockets Transports
begin

text \<open>
  \<open>TransportTCP\<close> (\<open>src/transport_tcp.cpp\<close>): a transport holds the descriptor of its
  connection or that of its listening socket. A process has many transports, and the kernel's
  table of descriptors; what one transport opens it has to close, and no other.
\<close>

section \<open>A transport\<close>

record TransportTCP =
  sockfd :: int
  listen_fd :: int
  listen_port :: "16 word"
  connected :: bool

definition new_TransportTCP :: TransportTCP where
  "new_TransportTCP = \<lparr>sockfd = -1, listen_fd = -1, listen_port = 0, connected = False\<rparr>"

definition TCP_Listen :: "TransportTCP \<Rightarrow> os \<Rightarrow> bool \<times> TransportTCP \<times> os" where
  "TCP_Listen t s =
     (let (fd, port, s) = CreateListenSocket True s;
          t = t\<lparr>listen_fd := fd, listen_port := case port of None \<Rightarrow> listen_port t | Some p \<Rightarrow> p\<rparr> in
      (0 \<le> fd, t, s))"

definition TCP_Accept :: "TransportTCP \<Rightarrow> os \<Rightarrow> bool \<times> TransportTCP \<times> os" where
  "TCP_Accept t s =
     (if listen_fd t < 0 then (False, t, s)
      else
        let (fd, s) = AcceptConnection (listen_fd t) s; t = t\<lparr>sockfd := fd\<rparr> in
        if fd < 0 then (False, t, s) else (True, t\<lparr>connected := True\<rparr>, s))"

definition TCP_SetSocket :: "int \<Rightarrow> TransportTCP \<Rightarrow> TransportTCP" where
  "TCP_SetSocket fd t = t\<lparr>sockfd := fd, connected := True\<rparr>"

definition TCP_CreateAcceptedConnection :: "TransportTCP \<Rightarrow> os \<Rightarrow> TransportTCP option \<times> os" where
  "TCP_CreateAcceptedConnection t s =
     (if listen_fd t < 0 then (None, s)
      else
        let (client_fd, s) = AcceptConnection (listen_fd t) s in
        if client_fd < 0 then (None, s) else (Some (TCP_SetSocket client_fd new_TransportTCP), s))"

definition TCP_Connect :: "TransportTCP \<Rightarrow> os \<Rightarrow> bool \<times> TransportTCP \<times> os" where
  "TCP_Connect t s =
     (let (fd, s) = CreateConnectSocket 1 s; t = t\<lparr>sockfd := fd\<rparr> in
      if fd < 0 then (False, t, s) else (True, t\<lparr>connected := True\<rparr>, s))"

definition TCP_SendRaw :: "TransportTCP \<Rightarrow> bytes \<Rightarrow> os \<Rightarrow> bool \<times> os" where
  "TCP_SendRaw t data s = send_loop (sockfd t) data 0 s"

definition TCP_RecvRaw :: "TransportTCP \<Rightarrow> nat \<Rightarrow> os \<Rightarrow> bool \<times> bytes \<times> os" where
  "TCP_RecvRaw t sz s = recv_loop False (sockfd t) sz [] s"

definition TCP_Send :: "TransportTCP \<Rightarrow> bytes \<Rightarrow> os \<Rightarrow> bool \<times> os" where
  "TCP_Send t data s = (if \<not> connected t \<or> sockfd t < 0 then (False, s) else TCP_SendRaw t data s)"

text \<open>The bytes are those written to the caller's buffer, from its start.\<close>

definition TCP_Recv :: "TransportTCP \<Rightarrow> nat \<Rightarrow> os \<Rightarrow> bool \<times> bytes \<times> os" where
  "TCP_Recv t sz s = (if \<not> connected t \<or> sockfd t < 0 then (False, [], s) else TCP_RecvRaw t sz s)"

definition TCP_Close :: "TransportTCP \<Rightarrow> os \<Rightarrow> TransportTCP \<times> os" where
  "TCP_Close t s =
     (let (t, s) = (if 0 \<le> sockfd t then (t\<lparr>sockfd := -1\<rparr>, sys_close (sockfd t) s) else (t, s));
          (t, s) = (if 0 \<le> listen_fd t then (t\<lparr>listen_fd := -1\<rparr>, sys_close (listen_fd t) s) else (t, s)) in
      (t\<lparr>connected := False\<rparr>, s))"

section \<open>The transports of a process\<close>

text \<open>Transports by a number; those that have not been created hold no descriptor.\<close>

record tcp_proc =
  trs :: "nat \<Rightarrow> TransportTCP"
  kern :: os

abbreviation with_tr :: "nat \<Rightarrow> TransportTCP \<Rightarrow> os \<Rightarrow> tcp_proc \<Rightarrow> tcp_proc" where
  "with_tr i t s p \<equiv> p\<lparr>trs := (trs p)(i := t), kern := s\<rparr>"

text \<open>
  What a process does with its transports. It lets a transport listen only when it does not
  listen yet, and connect or accept only when it has no connection yet, as
  \<open>Communicator::Init\<close> does; a destroyed transport is closed first.
\<close>

inductive tcp_step :: "tcp_proc \<Rightarrow> tcp_proc \<Rightarrow> bool" where
  listen: "listen_fd (trs p i) < 0 \<Longrightarrow> TCP_Listen (trs p i) (kern p) = (ok, t, s) \<Longrightarrow> tcp_step p (with_tr i t s p)"
| accept: "sockfd (trs p i) < 0 \<Longrightarrow> TCP_Accept (trs p i) (kern p) = (ok, t, s) \<Longrightarrow> tcp_step p (with_tr i t s p)"
| spawn: "trs p j = new_TransportTCP \<Longrightarrow> TCP_CreateAcceptedConnection (trs p i) (kern p) = (Some t, s) \<Longrightarrow>
    tcp_step p (with_tr j t s p)"
| no_spawn: "TCP_CreateAcceptedConnection (trs p i) (kern p) = (None, s) \<Longrightarrow> tcp_step p (p\<lparr>kern := s\<rparr>)"
| connect: "sockfd (trs p i) < 0 \<Longrightarrow> TCP_Connect (trs p i) (kern p) = (ok, t, s) \<Longrightarrow> tcp_step p (with_tr i t s p)"
| send: "TCP_Send (trs p i) data (kern p) = (ok, s) \<Longrightarrow> tcp_step p (p\<lparr>kern := s\<rparr>)"
| recv: "TCP_Recv (trs p i) n (kern p) = (ok, bs, s) \<Longrightarrow> tcp_step p (p\<lparr>kern := s\<rparr>)"
| close: "TCP_Close (trs p i) (kern p) = (t, s) \<Longrightarrow> tcp_step p (with_tr i t s p)"
| destroy: "TCP_Close (trs p i) (kern p) = (t, s) \<Longrightarrow> tcp_step p (with_tr i new_TransportTCP s p)"

inductive tcp_reachable :: "tcp_proc \<Rightarrow> tcp_proc \<Rightarrow> bool" for p where
  start: "tcp_reachable p p"
| more: "tcp_reachable p q \<Longrightarrow> tcp_step q r \<Longrightarrow> tcp_reachable p r"

section \<open>Descriptors and their owners\<close>

definition holds :: "TransportTCP \<Rightarrow> int \<Rightarrow> bool" where
  "holds t fd \<longleftrightarrow> 0 \<le> fd \<and> (sockfd t = fd \<or> listen_fd t = fd)"

text \<open>
  The open descriptors are the process's other ones and those that transports hold; no two
  transports hold the same, and none holds one twice; no descriptor has been closed that was
  not open; and a transport is connected exactly when it has a connection.
\<close>

definition tcp_inv :: "int set \<Rightarrow> tcp_proc \<Rightarrow> bool" where
  "tcp_inv base p \<longleftrightarrow>
     set (open_fds (kern p)) = base \<union> {fd. \<exists>i. holds (trs p i) fd} \<and> distinct (open_fds (kern p)) \<and>
     bad_closes (kern p) = [] \<and>
     (\<forall>i fd. holds (trs p i) fd \<longrightarrow> fd \<notin> base) \<and>
     (\<forall>i j fd. holds (trs p i) fd \<longrightarrow> holds (trs p j) fd \<longrightarrow> i = j) \<and>
     (\<forall>i. 0 \<le> sockfd (trs p i) \<longrightarrow> sockfd (trs p i) \<noteq> listen_fd (trs p i)) \<and>
     (\<forall>i. connected (trs p i) \<longleftrightarrow> 0 \<le> sockfd (trs p i))"

text \<open>
  The operations change the table in three ways: not at all, by one descriptor more that the
  transport gets, or by what the transport lets go of.
\<close>

lemma tcp_inv_same: "tcp_inv base p \<Longrightarrow> same_fds (kern p) s \<Longrightarrow> tcp_inv base (p\<lparr>kern := s\<rparr>)"
  by (simp add: tcp_inv_def same_fds_def)

lemma tcp_inv_gain:
  assumes inv: "tcp_inv base p" and o: "opened (kern p) fd s"
    and t: "\<And>x. holds t x \<longleftrightarrow> holds (trs p i) x \<or> 0 \<le> fd \<and> x = fd"
    and c: "0 \<le> sockfd t \<longrightarrow> sockfd t \<noteq> listen_fd t" "connected t \<longleftrightarrow> 0 \<le> sockfd t"
  shows "tcp_inv base (with_tr i t s p)"
proof -
  have "set (open_fds s) = (if 0 \<le> fd then {fd} else {}) \<union> set (open_fds (kern p))"
    "distinct (open_fds s)" "bad_closes s = []" "0 \<le> fd \<Longrightarrow> fd \<notin> set (open_fds (kern p))"
    using o inv by (cases "fd < 0"; auto simp: opened_def tcp_inv_def)+
  moreover have "holds (trs (with_tr i t s p) j) x \<longleftrightarrow> holds (trs p j) x \<or> 0 \<le> fd \<and> x = fd \<and> j = i" for j x
    using t by auto
  ultimately show ?thesis
    using inv c unfolding tcp_inv_def by (auto split: if_splits)
qed

lemma tcp_inv_drop:
  assumes inv: "tcp_inv base p" and t: "TCP_Close (trs p i) (kern p) = (t', s)"
    and none: "\<And>x. \<not> holds t x" and c: "sockfd t < 0" "\<not> connected t"
  shows "tcp_inv base (with_tr i t s p)"
proof -
  let ?t = "trs p i" and ?k = "kern p"
  have own: "fd \<in> set (open_fds ?k)" if "holds ?t fd" for fd
    using inv that by (auto simp: tcp_inv_def)
  have ne: "0 \<le> sockfd ?t \<Longrightarrow> sockfd ?t \<noteq> listen_fd ?t" and dist: "distinct (open_fds ?k)" and good: "bad_closes ?k = []"
    using inv by (auto simp: tcp_inv_def)
  have "bad_closes s = [] \<and> set (open_fds s) = {x \<in> set (open_fds ?k). \<not> holds ?t x} \<and> distinct (open_fds s)"
    using t own [of "sockfd ?t"] own [of "listen_fd ?t"] ne dist good
    by (auto simp: TCP_Close_def sys_close_def holds_def Let_def split: if_splits)
  moreover have "holds (trs (with_tr i t s p) j) x \<longleftrightarrow> holds (trs p j) x \<and> \<not> holds ?t x" for j x
    using none inv by (auto simp: tcp_inv_def)
  ultimately show ?thesis
    using inv c unfolding tcp_inv_def by auto
qed

lemma tcp_step_inv: "tcp_step p q \<Longrightarrow> tcp_inv base p \<Longrightarrow> tcp_inv base q"
proof (induction rule: tcp_step.induct)
  case (listen p i ok t s)
  obtain fd port where l: "CreateListenSocket True (kern p) = (fd, port, s)"
    "t = (trs p i)\<lparr>listen_fd := fd, listen_port := case port of None \<Rightarrow> listen_port (trs p i) | Some p \<Rightarrow> p\<rparr>"
    using listen(2) by (auto simp: TCP_Listen_def Let_def split: prod.splits)
  then have o: "opened (kern p) fd s"
    using CreateListenSocket_opened by blast
  have "0 \<le> sockfd (trs p i) \<longrightarrow> sockfd (trs p i) \<noteq> fd"
    using listen.prems o by (auto simp: tcp_inv_def holds_def opened_def)
  then show ?case
    using listen l by (intro tcp_inv_gain [OF _ o]) (auto simp: holds_def tcp_inv_def)
next
  case (accept p i ok t s)
  show ?case
  proof (cases "listen_fd (trs p i) < 0")
    case True
    then have "t = trs p i" "s = kern p"
      using accept(2) by (simp_all add: TCP_Accept_def)
    then show ?thesis
      using accept.prems by simp
  next
    case False
    then obtain fd where l: "AcceptConnection (listen_fd (trs p i)) (kern p) = (fd, s)"
      "t = (if fd < 0 then (trs p i)\<lparr>sockfd := fd\<rparr> else (trs p i)\<lparr>sockfd := fd, connected := True\<rparr>)"
      using accept(2) by (auto simp: TCP_Accept_def Let_def split: prod.splits if_splits)
    then have o: "opened (kern p) fd s"
      using AcceptConnection_opened by blast
    have "fd \<noteq> listen_fd (trs p i)"
      using accept.prems o False by (auto simp: tcp_inv_def holds_def opened_def)
    then show ?thesis
      using accept l by (intro tcp_inv_gain [OF _ o]) (auto simp: holds_def tcp_inv_def)
  qed
next
  case (spawn p j i t s)
  then obtain fd where l: "AcceptConnection (listen_fd (trs p i)) (kern p) = (fd, s)" "0 \<le> fd" "t = TCP_SetSocket fd new_TransportTCP"
    by (auto simp: TCP_CreateAcceptedConnection_def Let_def split: prod.splits if_splits)
  then have o: "opened (kern p) fd s"
    using AcceptConnection_opened by blast
  show ?case
    using spawn l by (intro tcp_inv_gain [OF _ o]) (auto simp: holds_def new_TransportTCP_def TCP_SetSocket_def)
next
  case (no_spawn p i s)
  have "same_fds (kern p) s"
  proof (cases "listen_fd (trs p i) < 0")
    case False
    then obtain fd where "AcceptConnection (listen_fd (trs p i)) (kern p) = (fd, s)" "fd < 0"
      using no_spawn(1) by (auto simp: TCP_CreateAcceptedConnection_def Let_def split: prod.splits if_splits)
    then show ?thesis
      using AcceptConnection_opened by (auto simp: opened_def same_fds_def)
  qed (use no_spawn in \<open>auto simp: TCP_CreateAcceptedConnection_def\<close>)
  then show ?case
    using no_spawn.prems by (intro tcp_inv_same)
next
  case (connect p i ok t s)
  then obtain fd where l: "CreateConnectSocket 1 (kern p) = (fd, s)"
    "t = (if fd < 0 then (trs p i)\<lparr>sockfd := fd\<rparr> else (trs p i)\<lparr>sockfd := fd, connected := True\<rparr>)"
    by (auto simp: TCP_Connect_def Let_def split: prod.splits if_splits)
  then have o: "opened (kern p) fd s"
    using CreateConnectSocket_opened by blast
  have "0 \<le> fd \<longrightarrow> fd \<noteq> listen_fd (trs p i)"
    using connect.prems o by (auto simp: tcp_inv_def holds_def opened_def)
  then show ?case
    using connect l by (intro tcp_inv_gain [OF _ o]) (auto simp: holds_def tcp_inv_def)
next
  case (send p i data ok s)
  then have "same_fds (kern p) s"
    using send_loop_wires [of "sockfd (trs p i)" data 0 "kern p" ok s]
    by (auto simp: TCP_Send_def TCP_SendRaw_def split: if_splits)
  then show ?case
    using send.prems by (intro tcp_inv_same)
next
  case (recv p i n ok bs s)
  then have "same_fds (kern p) s"
    using recv_loop_wires [of False "sockfd (trs p i)" n "[]" "kern p" ok bs s]
    by (auto simp: TCP_Recv_def TCP_RecvRaw_def split: if_splits)
  then show ?case
    using recv.prems by (intro tcp_inv_same)
next
  case (close p i t s)
  then show ?case
    by (intro tcp_inv_drop) (auto simp: TCP_Close_def holds_def Let_def split: if_splits)
next
  case (destroy p i t s)
  then show ?case
    by (intro tcp_inv_drop) (auto simp: new_TransportTCP_def holds_def)
qed

text \<open>
  C9: Whatever sequence of calls a process makes on its TCP transports, as long as a transport
  that listens is not told to listen again, nor one that is connected to connect or accept again,
  nor given a socket from outside (the code would forget the old descriptor), and whatever the
  operating system answers:
  besides the descriptors the process had at the start, exactly those are open that a transport
  holds, no two transports hold the same one, none is closed that is not open (no leak, no
  double close), and a transport is connected exactly when it has a connection.
\<close>

theorem TCP_descriptors_owned:
  assumes "tcp_reachable p q" "\<And>i. trs p i = new_TransportTCP" "distinct (open_fds (kern p))" "bad_closes (kern p) = []"
  shows "tcp_inv (set (open_fds (kern p))) q"
  using assms(1)
proof (induction rule: tcp_reachable.induct)
  case start
  show ?case
    using assms(2-4) by (auto simp: tcp_inv_def holds_def new_TransportTCP_def)
qed (blast intro: tcp_step_inv)

definition some_os :: "int list \<Rightarrow> os" where
  "some_os answers = \<lparr>open_fds = [0, 1, 2], bad_closes = [], options = [], wire_out = (\<lambda>_. []), wire_in = (\<lambda>_. []), replies = answers\<rparr>"

text \<open>A process whose first transport listens, and whose second one is a connection it accepted.\<close>

lemma TCP_descriptors_owned_witness:
  "\<exists>q. connected (trs q 1) \<and> sockfd (trs q 1) = 4 \<and> listen_fd (trs q 0) = 3 \<and> tcp_inv {0, 1, 2} q"
proof -
  let ?p = "\<lparr>trs = (\<lambda>_. new_TransportTCP), kern = some_os [1, 1, 1, 0, 0, 4000, 1, 1]\<rparr>"
  obtain t s where l: "TCP_Listen new_TransportTCP (kern ?p) = (True, t, s)" "listen_fd t = 3"
      "open_fds s = [3, 0, 1, 2]" "replies s = [1, 1]"
    by (simp add: TCP_Listen_def CreateListenSocket_def sys_open_def sys_reply_def some_os_def new_TransportTCP_def
        SetTcpNoDelay_def SetReuseAddr_def sys_setsockopt_def GetSocketPort_def lowest_fd_def)
  obtain u v where a: "TCP_CreateAcceptedConnection t s = (Some u, v)" "connected u" "sockfd u = 4"
    using l by (simp add: TCP_CreateAcceptedConnection_def AcceptConnection_def sys_open_def sys_reply_def
        TCP_SetSocket_def new_TransportTCP_def lowest_fd_def)
  let ?q1 = "with_tr 0 t s ?p"
  have "tcp_step ?p ?q1"
    by (rule tcp_step.listen) (use l in \<open>simp_all add: new_TransportTCP_def\<close>)
  moreover have "tcp_step ?q1 (with_tr 1 u v ?q1)"
    by (rule tcp_step.spawn [where i = 0]) (use a in simp_all)
  ultimately have r: "tcp_reachable ?p (with_tr 1 u v ?q1)"
    by (meson tcp_reachable.intros)
  have "tcp_inv (set (open_fds (kern ?p))) (with_tr 1 u v ?q1)"
    by (rule TCP_descriptors_owned [OF r]) (simp_all add: some_os_def)
  then show ?thesis
    using a(2,3) l(2) by (intro exI [of _ "with_tr 1 u v ?q1"]) (simp add: some_os_def insert_commute)
qed

section \<open>Messages\<close>

abbreviation TCP_sends :: "TransportTCP \<Rightarrow> bytes list \<Rightarrow> os \<Rightarrow> (bool \<times> os) option" where
  "TCP_sends t \<equiv> send_messages (\<lambda>m s. Some (TCP_Send t m s))"

abbreviation TCP_recvs :: "TransportTCP \<Rightarrow> nat list \<Rightarrow> os \<Rightarrow> (bool \<times> bytes list \<times> os) option" where
  "TCP_recvs t \<equiv> recv_messages (\<lambda>n s. Some (TCP_Recv t n s))"

text \<open>A connected transport and a kernel that takes as many bytes as the messages have.\<close>

definition tcp_ready :: "TransportTCP \<Rightarrow> bytes list \<Rightarrow> os \<Rightarrow> bool" where
  "tcp_ready t ms s \<longleftrightarrow> connected t \<and> 0 \<le> sockfd t \<and> willing (length (concat ms)) s"

interpretation tcp_link: message_link "\<lambda>m s. Some (TCP_Send t m s)" "\<lambda>n s. Some (TCP_Recv t' n s)"
  "\<lambda>m. m" "\<lambda>s. wire_out s (sockfd t)" "\<lambda>s. wire_in s (sockfd t')" "tcp_ready t" "tcp_ready t'"
  for t t'
proof
  fix m ms s
  assume r: "tcp_ready t (m # ms) s"
  then obtain s1 where s1: "send_loop (sockfd t) m 0 s = (True, s1)" "willing (length (concat ms)) s1"
    using send_loop_true [of m 0 "length (concat ms)" s "sockfd t"] by (auto simp: tcp_ready_def)
  then have "wire_out s1 (sockfd t) = wire_out s (sockfd t) @ m"
    using send_loop_wires [of "sockfd t" m 0 s True s1] by auto
  then show "\<exists>s'. Some (TCP_Send t m s) = Some (True, s') \<and> wire_out s' (sockfd t) = wire_out s (sockfd t) @ m \<and>
      tcp_ready t ms s'"
    using s1 r by (simp add: TCP_Send_def TCP_SendRaw_def tcp_ready_def)
next
  fix m ms s rest
  assume r: "tcp_ready t' (m # ms) s" and w: "wire_in s (sockfd t') = m @ rest"
  then obtain b s1 where s1: "recv_loop False (sockfd t') (length m) [] s = (True, b, s1)" "willing (length (concat ms)) s1"
    using recv_loop_true [of "length m" "[]" "length (concat ms)" s "sockfd t'" False] by (auto simp: tcp_ready_def)
  then have "length b = length m" "wire_in s (sockfd t') = b @ wire_in s1 (sockfd t')"
    using recv_loop_wires [of False "sockfd t'" "length m" "[]" s True b s1] by auto
  then have "b = m" "wire_in s1 (sockfd t') = rest"
    using w by simp_all
  then show "\<exists>s'. Some (TCP_Recv t' (length m) s) = Some (True, m, s') \<and> wire_in s' (sockfd t') = rest \<and> tcp_ready t' ms s'"
    using s1 r by (simp add: TCP_Recv_def TCP_RecvRaw_def tcp_ready_def)
qed

text \<open>
  C8: Messages sent on a connected TCP transport and received at the other end with the same
  sizes are received as they were sent, in the same order, and nothing is left over, however
  the system calls on either side split the bytes (each moves at least one).
\<close>

theorem TCP_messages_roundtrip:
  assumes "connected t" "0 \<le> sockfd t" "connected t'" "0 \<le> sockfd t'"
    and "willing (length (concat ms)) s" "wire_out s (sockfd t) = []" "willing (length (concat ms)) s'"
  shows "\<exists>s1. TCP_sends t ms s = Some (True, s1) \<and>
    (\<exists>s2. TCP_recvs t' (map length ms) (s'\<lparr>wire_in := (wire_in s')(sockfd t' := wire_out s1 (sockfd t))\<rparr>) = Some (True, ms, s2) \<and>
       wire_in s2 (sockfd t') = [])"
  by (rule tcp_link.carries [where put = "\<lambda>w s'. s'\<lparr>wire_in := (wire_in s')(sockfd t' := w)\<rparr>"])
     (use assms in \<open>simp_all add: tcp_ready_def willing_def\<close>)

lemma TCP_messages_roundtrip_witness:
  "\<exists>s1. TCP_sends (TCP_SetSocket 3 new_TransportTCP) [[1, 2, 3], [], [4, 5]] (some_os [1, 7, 1, 1, 1]) = Some (True, s1) \<and>
    (\<exists>s2. TCP_recvs (TCP_SetSocket 5 new_TransportTCP) (map length [[1, 2, 3], [], [4, 5 :: byte]])
        ((some_os [2, 2, 2, 2, 2])\<lparr>wire_in := (wire_in (some_os [2, 2, 2, 2, 2]))(5 := wire_out s1 3)\<rparr>) = Some (True, [[1, 2, 3], [], [4, 5]], s2) \<and>
       wire_in s2 5 = [])"
  using TCP_messages_roundtrip [of "TCP_SetSocket 3 new_TransportTCP" "TCP_SetSocket 5 new_TransportTCP"
      "[[1, 2, 3], [], [4, 5]]" "some_os [1, 7, 1, 1, 1]" "some_os [2, 2, 2, 2, 2]"]
  by (simp add: TCP_SetSocket_def willing_def some_os_def)

end
