(* ===== verification/RdmaEndpoint.thy ===== *)
theory RdmaEndpoint
  imports Prelude Bytes
begin

text \<open>
  The data path of \<open>TransportRdma\<close> (\<open>src/transport_rdma.cpp\<close>): the buffer pool, posting
  work requests, polling for completions, and the two ways to move a message. The verbs library
  and the adapter are not part of the program; what the code sees of them is a completion queue
  and memory that the adapter writes. Which of its actions the adapter takes before each poll is
  an argument (\<open>schedule\<close>), as is whether each call to the library succeeds (\<open>calls\<close>).
  A function returns \<open>None\<close> when it has not returned by the end of the schedule.
\<close>

section \<open>Endpoints\<close>

text \<open>
  Addresses: null, the memory of a pool buffer, a local variable, the caller's buffer. A buffer
  carries its memory region (if registered), its number and whether a sender has it.
\<close>

datatype addr = Null | Pool nat | Stack | User

record rdma_buffer =
  buf_data :: addr
  buf_size :: nat
  buf_mr :: bool
  buf_id :: int
  buf_in_use :: bool

text \<open>
  What the adapter can do: deliver the next message of the peer into the memory of the receive
  request that was posted first, complete the send that was posted first; and how it answers a
  poll.
\<close>

datatype nic_event = Deliver | Complete bool | Poll | PollError

record endpoint =
  is_connected :: bool
  enable_zero_copy :: bool
  enable_busy_polling :: bool
  buffer_size_config :: nat
  buffers :: "rdma_buffer list"
  heap :: "addr \<Rightarrow> bytes"
  live_mrs :: "addr list"
  cq :: "(bool \<times> nat) list"
  recv_queue :: "(nat \<times> (addr \<times> nat) list) list"
  unacked :: "nat list"
  inbox :: "bytes list"
  outbox :: "bytes list"
  schedule :: "nic_event list"
  calls :: "bool list"

text \<open>A call to the library; those beyond the list succeed.\<close>

definition verbs_call :: "endpoint \<Rightarrow> bool \<times> endpoint" where
  "verbs_call e = (case calls e of [] \<Rightarrow> (True, e) | b # bs \<Rightarrow> (b, e\<lparr>calls := bs\<rparr>))"

text \<open>Writing a message to the scatter list of a receive request.\<close>

fun scatter :: "(addr \<times> nat) list \<Rightarrow> bytes \<Rightarrow> (addr \<Rightarrow> bytes) \<Rightarrow> addr \<Rightarrow> bytes" where
  "scatter [] m h = h"
| "scatter ((a, n) # sges) m h =
     scatter sges (drop n m) (h(a := take n m @ drop (length (take n m)) (h a)))"

definition deliver :: "endpoint \<Rightarrow> endpoint" where
  "deliver e =
     (case (inbox e, recv_queue e) of
        (m # ms, (wr, sges) # rq) \<Rightarrow>
          if length m \<le> sum_list (map snd sges)
          then e\<lparr>inbox := ms, recv_queue := rq, heap := scatter sges m (heap e), cq := cq e @ [(True, wr)]\<rparr>
          else e\<lparr>inbox := ms, recv_queue := rq, cq := cq e @ [(False, wr)]\<rparr>
      | _ \<Rightarrow> e)"

definition complete :: "bool \<Rightarrow> endpoint \<Rightarrow> endpoint" where
  "complete ok e =
     (case unacked e of [] \<Rightarrow> e | wr # wrs \<Rightarrow> e\<lparr>unacked := wrs, cq := cq e @ [(ok, wr)]\<rparr>)"

text \<open>\<open>ibv_poll_cq\<close> for one completion: what it returns, and the completion.\<close>

function poll_cq :: "endpoint \<Rightarrow> (int \<times> (bool \<times> nat) option \<times> endpoint) option" where
  "poll_cq e =
     (case schedule e of
        [] \<Rightarrow> None
      | Deliver # evs \<Rightarrow> poll_cq ((deliver e)\<lparr>schedule := evs\<rparr>)
      | Complete ok # evs \<Rightarrow> poll_cq ((complete ok e)\<lparr>schedule := evs\<rparr>)
      | PollError # evs \<Rightarrow> Some (-1, None, e\<lparr>schedule := evs\<rparr>)
      | Poll # evs \<Rightarrow>
          (case cq e of [] \<Rightarrow> Some (0, None, e\<lparr>schedule := evs\<rparr>)
           | wc # wcs \<Rightarrow> Some (1, Some wc, e\<lparr>schedule := evs, cq := wcs\<rparr>)))"
  by pat_completeness auto
termination
  by (relation "measure (\<lambda>e. length (schedule e))") auto

declare poll_cq.simps [simp del]

lemma poll_cq_shorter: "poll_cq e = Some (r, wc, e') \<Longrightarrow> length (schedule e') < length (schedule e)"
proof (induction e rule: poll_cq.induct)
  case (1 e)
  show ?case
  proof (cases "schedule e")
    case Nil
    then show ?thesis
      using "1.prems" by (simp add: poll_cq.simps [of e])
  next
    case (Cons ev evs)
    then show ?thesis
      using 1 by (cases ev) (auto simp: poll_cq.simps [of e] split: list.splits)
  qed
qed

section \<open>Posting and polling\<close>

text \<open>The length of a scatter or gather element is 32 bits wide.\<close>

definition sge_length :: "nat \<Rightarrow> nat" where
  "sge_length n = n mod 2 ^ 32"

lemma sge_length_id [simp]: "n < 2 ^ 32 \<Longrightarrow> sge_length n = n"
  by (simp add: sge_length_def)

text \<open>\<open>static_cast<int>(wc.wr_id & 0xFFFFFFFF)\<close>.\<close>

definition low32 :: "nat \<Rightarrow> int" where
  "low32 wr = sint (of_nat wr :: 32 word)"

definition PostSendWR :: "addr \<Rightarrow> nat \<Rightarrow> bool \<Rightarrow> endpoint \<Rightarrow> bool \<times> endpoint" where
  "PostSendWR buffer_addr sz signaled e =
     (let (ok, e) = verbs_call e in
      if \<not> ok then (False, e)
      else (True, e\<lparr>outbox := outbox e @ [take (sge_length sz) (heap e buffer_addr)],
                    unacked := unacked e @ (if signaled then [1] else [])\<rparr>))"

definition post_recv :: "nat \<Rightarrow> (addr \<times> nat) list \<Rightarrow> endpoint \<Rightarrow> bool \<times> endpoint" where
  "post_recv wr sges e =
     (let (ok, e) = verbs_call e in
      if \<not> ok then (False, e) else (True, e\<lparr>recv_queue := recv_queue e @ [(wr, sges)]\<rparr>))"

text \<open>The identifier of a receive request: \<open>2\<close> in the upper half, the buffer in the lower.\<close>

definition recv_wr_id :: "int \<Rightarrow> nat" where
  "recv_wr_id i = 2 * 2 ^ 32 + nat (i mod 2 ^ 32)"

primrec post_all :: "rdma_buffer list \<Rightarrow> endpoint \<Rightarrow> bool \<times> endpoint" where
  "post_all [] e = (True, e)"
| "post_all (b # bs) e =
     (let (ok, e) = post_recv (recv_wr_id (buf_id b)) [(buf_data b, sge_length (buf_size b))] e in
      if ok then post_all bs e else (False, e))"

definition PostRecvWRsForBufferPool :: "endpoint \<Rightarrow> bool \<times> endpoint" where
  "PostRecvWRsForBufferPool e = post_all (buffers e) e"

lemma verbs_call_schedule: "verbs_call e = (ok, e') \<Longrightarrow> schedule e' = schedule e"
  by (auto simp: verbs_call_def split: list.splits)

text \<open>
  The result says whether a completion was successful, with its buffer number. Without busy
  polling the code asks for a notification, polls once more, and then blocks for the event.
\<close>

function PollCompletion :: "endpoint \<Rightarrow> (bool \<times> int \<times> endpoint) option" where
  "PollCompletion e =
     (case poll_cq e of
        None \<Rightarrow> None
      | Some (ret, wc, e') \<Rightarrow>
          if ret < 0 then Some (False, -1, e')
          else (case wc of
              Some (status, wr) \<Rightarrow> Some (status, if status then low32 wr else -1, e')
            | None \<Rightarrow>
                if enable_busy_polling e' then PollCompletion e'
                else (case verbs_call e' of (notified, e1) \<Rightarrow>
                  if \<not> notified then Some (False, -1, e1)
                  else (case poll_cq e1 of
                      None \<Rightarrow> None
                    | Some (ret, wc, e2) \<Rightarrow>
                        (case wc of
                          Some (status, wr) \<Rightarrow> Some (status, if status then low32 wr else -1, e2)
                        | None \<Rightarrow> (case verbs_call e2 of (got, e3) \<Rightarrow>
                            if got then PollCompletion e3 else Some (False, -1, e3)))))))"
  by pat_completeness auto
termination
  by (relation "measure (\<lambda>e. length (schedule e))")
     (auto dest!: poll_cq_shorter verbs_call_schedule [OF sym])

declare PollCompletion.simps [simp del]

section \<open>The buffer pool\<close>

fun first_free :: "rdma_buffer list \<Rightarrow> nat option" where
  "first_free [] = None"
| "first_free (b # bs) = (if \<not> buf_in_use b then Some 0 else map_option Suc (first_free bs))"

definition AllocateBuffer :: "endpoint \<Rightarrow> int \<times> endpoint" where
  "AllocateBuffer e =
     (case first_free (buffers e) of
        None \<Rightarrow> (-1, e)
      | Some i \<Rightarrow> (buf_id (buffers e ! i), e\<lparr>buffers := (buffers e)[i := (buffers e ! i)\<lparr>buf_in_use := True\<rparr>]\<rparr>))"

definition ReleaseBuffer :: "int \<Rightarrow> endpoint \<Rightarrow> endpoint" where
  "ReleaseBuffer buffer_id e =
     (if buffer_id < 0 \<or> int (length (buffers e)) \<le> buffer_id then e
      else e\<lparr>buffers := (buffers e)[nat buffer_id := (buffers e ! nat buffer_id)\<lparr>buf_in_use := False\<rparr>]\<rparr>)"

text \<open>The header of a message: its size in eight bytes, most significant first.\<close>

definition size_header :: "nat \<Rightarrow> bytes" where
  "size_header n = be_bytes 8 (of_nat n :: 64 word)"

definition header_size :: "bytes \<Rightarrow> nat" where
  "header_size bs = unat (of_be (take 8 bs) :: 64 word)"

definition write_mem :: "addr \<Rightarrow> bytes \<Rightarrow> endpoint \<Rightarrow> endpoint" where
  "write_mem a bs e = e\<lparr>heap := (heap e)(a := bs @ drop (length bs) (heap e a))\<rparr>"

definition SendBufferPoolInternal :: "bytes \<Rightarrow> endpoint \<Rightarrow> (bool \<times> endpoint) option" where
  "SendBufferPoolInternal data e =
     (let (buffer_id, e) = AllocateBuffer e in
      if buffer_id < 0 then Some (False, e)
      else
        let buf = buffers e ! nat buffer_id in
        if buf_size buf < length data + 8 then Some (False, ReleaseBuffer buffer_id e)
        else
          let e = write_mem (buf_data buf) (size_header (length data) @ data) e;
              (ok, e) = PostSendWR (buf_data buf) (length data + 8) True e in
          if \<not> ok then Some (False, ReleaseBuffer buffer_id e)
          else (case PollCompletion e of
                  None \<Rightarrow> None
                | Some (ok, _, e) \<Rightarrow> Some (ok, ReleaseBuffer buffer_id e)))"

text \<open>The bytes are those copied to the caller's buffer.\<close>

definition RecvBufferPoolInternal :: "nat \<Rightarrow> endpoint \<Rightarrow> (bool \<times> bytes \<times> endpoint) option" where
  "RecvBufferPoolInternal sz e =
     (case PollCompletion e of
        None \<Rightarrow> None
      | Some (ok, buffer_id, e) \<Rightarrow>
          if \<not> ok \<or> buffer_id < 0 \<or> int (length (buffers e)) \<le> buffer_id then Some (False, [], e)
          else
            let buf = buffers e ! nat buffer_id; mem = heap e (buf_data buf) in
            if header_size mem \<noteq> sz then Some (False, [], e)
            else
              let (ok, e) = post_recv (recv_wr_id (buf_id buf)) [(buf_data buf, sge_length (buf_size buf))] e in
              Some (ok, take sz (drop 8 mem), e))"

section \<open>Zero copy\<close>

text \<open>An \<open>AutoMR\<close> registers memory when it is made, unless there is none, and deregisters it
  when it goes out of scope.\<close>

definition AutoMR :: "addr \<Rightarrow> nat \<Rightarrow> endpoint \<Rightarrow> bool \<times> endpoint" where
  "AutoMR a len e =
     (if a = Null \<or> len = 0 then (False, e)
      else
        let (ok, e) = verbs_call e in
        if ok then (True, e\<lparr>live_mrs := a # live_mrs e\<rparr>) else (False, e))"

definition AutoMR_reset :: "addr \<Rightarrow> endpoint \<Rightarrow> endpoint" where
  "AutoMR_reset a e = e\<lparr>live_mrs := remove1 a (live_mrs e)\<rparr>"

definition SendZeroCopyInternal :: "bytes \<Rightarrow> endpoint \<Rightarrow> (bool \<times> endpoint) option" where
  "SendZeroCopyInternal data e =
     (let e = write_mem User data (write_mem Stack (size_header (length data)) e);
          (size_mr, e) = AutoMR Stack 8 e in
      if \<not> size_mr then Some (False, e)
      else
        let (data_mr, e) = AutoMR User (length data) e in
        if \<not> data_mr then Some (False, AutoMR_reset Stack e)
        else
          let (ok, e) = verbs_call e in
          if \<not> ok then Some (False, AutoMR_reset Stack (AutoMR_reset User e))
          else
            let e = e\<lparr>outbox := outbox e @ [take 8 (heap e Stack) @ take (sge_length (length data)) (heap e User)],
                      unacked := unacked e @ [1 * 2 ^ 32]\<rparr> in
            (case PollCompletion e of
               None \<Rightarrow> None
             | Some (ok, _, e) \<Rightarrow> Some (ok, AutoMR_reset Stack (AutoMR_reset User e))))"

definition RecvZeroCopyInternal :: "nat \<Rightarrow> endpoint \<Rightarrow> (bool \<times> bytes \<times> endpoint) option" where
  "RecvZeroCopyInternal sz e =
     (let e = write_mem Stack (size_header 0) e; (size_mr, e) = AutoMR Stack 8 e in
      if \<not> size_mr then Some (False, [], e)
      else
        let (data_mr, e) = AutoMR User sz e in
        if \<not> data_mr then Some (False, [], AutoMR_reset Stack e)
        else
          let (ok, e) = post_recv (2 * 2 ^ 32) [(Stack, 8), (User, sge_length sz)] e in
          if \<not> ok then Some (False, [], AutoMR_reset Stack (AutoMR_reset User e))
          else (case PollCompletion e of
              None \<Rightarrow> None
            | Some (ok, _, e) \<Rightarrow>
                let e = AutoMR_reset Stack (AutoMR_reset User e) in
                Some (ok \<and> header_size (heap e Stack) = sz, take sz (heap e User), e)))"

end
