(* ===== verification/RdmaQp.thy ===== *)
theory RdmaQp
  imports Prelude Bytes
begin

text \<open>
  What the two ends of an RDMA connection tell each other: \<open>RdmaQpInfo\<close>, its encoding, and the
  choice of the address by which a port is known (\<open>src/transport_rdma.cpp\<close>). Unlike the rest of
  the control plane, these messages have the byte order of the host, here little-endian.
\<close>

section \<open>Queue pair information\<close>

record RdmaQpInfo =
  qpn :: "32 word"
  lid :: "16 word"
  gid :: bytes
  gid_index :: "32 word"

text \<open>A \<open>gid\<close> is an array of sixteen bytes.\<close>

definition qp_info_ok :: "RdmaQpInfo \<Rightarrow> bool" where
  "qp_info_ok q \<longleftrightarrow> length (gid q) = 16"

definition EncodeQpInfo :: "RdmaQpInfo \<Rightarrow> bytes \<Rightarrow> bytes" where
  "EncodeQpInfo q result = result @ le_bytes 4 (qpn q) @ le_bytes 2 (lid q) @ take 16 (gid q) @ le_bytes 4 (gid_index q)"

definition read_at :: "bytes \<Rightarrow> nat \<Rightarrow> nat \<Rightarrow> (bytes \<times> nat) result" where
  "read_at buffer offset n =
     (case mem_load buffer offset n of None \<Rightarrow> Inl OutOfBounds | Some bs \<Rightarrow> Inr (bs, offset + n))"

definition DecodeQpInfo :: "bytes \<Rightarrow> nat \<Rightarrow> (RdmaQpInfo \<times> nat) result" where
  "DecodeQpInfo buffer offset =
     res_bind (read_at buffer offset 4) (\<lambda>(q, offset).
     res_bind (read_at buffer offset 2) (\<lambda>(l, offset).
     res_bind (read_at buffer offset 16) (\<lambda>(g, offset).
     res_bind (read_at buffer offset 4) (\<lambda>(i, offset).
     Inr (\<lparr>qpn = of_le q, lid = of_le l, gid = g, gid_index = of_le i\<rparr>, offset)))))"

lemma read_at_append: "n = length bs \<Longrightarrow> k = length pre \<Longrightarrow> read_at (pre @ bs @ rest) k n = Inr (bs, k + n)"
  by (simp add: read_at_def mem_load_append)

lemma read_at_out: "length buffer < offset + n \<Longrightarrow> read_at buffer offset n = Inl OutOfBounds"
  by (simp add: read_at_def mem_load_out)

lemma length_EncodeQpInfo: "qp_info_ok q \<Longrightarrow> length (EncodeQpInfo q result) = length result + 26"
  by (simp add: EncodeQpInfo_def qp_info_ok_def)

text \<open>What a decoder reads after an encoder, wherever the information is in a buffer.\<close>

lemma DecodeQpInfo_EncodeQpInfo:
  assumes "qp_info_ok q"
  shows "DecodeQpInfo (EncodeQpInfo q pre @ rest) (length pre) = Inr (q, length pre + 26)"
proof -
  let ?a = "le_bytes 4 (qpn q)" and ?b = "le_bytes 2 (lid q)" and ?d = "le_bytes 4 (gid_index q)"
  have e: "EncodeQpInfo q pre @ rest = pre @ ?a @ ?b @ gid q @ ?d @ rest"
    using assms by (simp add: EncodeQpInfo_def qp_info_ok_def)
  have "read_at (EncodeQpInfo q pre @ rest) (length pre) 4 = Inr (?a, length pre + 4)"
    unfolding e by (rule read_at_append) simp_all
  moreover have "read_at (EncodeQpInfo q pre @ rest) (length pre + 4) 2 = Inr (?b, length pre + 6)"
    using read_at_append [of 2 ?b "length pre + 4" "pre @ ?a"] by (simp add: e)
  moreover have "read_at (EncodeQpInfo q pre @ rest) (length pre + 6) 16 = Inr (gid q, length pre + 22)"
    using read_at_append [of 16 "gid q" "length pre + 6" "pre @ ?a @ ?b"] assms by (simp add: e qp_info_ok_def)
  moreover have "read_at (EncodeQpInfo q pre @ rest) (length pre + 22) 4 = Inr (?d, length pre + 26)"
    using read_at_append [of 4 ?d "length pre + 22" "pre @ ?a @ ?b @ gid q"] assms by (simp add: e qp_info_ok_def)
  ultimately show ?thesis
    by (simp add: DecodeQpInfo_def)
qed

lemma DecodeQpInfo_short: "length buffer < 26 \<Longrightarrow> DecodeQpInfo buffer 0 = Inl OutOfBounds"
  by (cases "length buffer < 4"; cases "length buffer < 6"; cases "length buffer < 22")
     (auto simp: DecodeQpInfo_def read_at_def mem_load_def)

section \<open>The address of a port\<close>

text \<open>
  \<open>query\<close> is \<open>ibv_query_gid\<close> for the adapter's first port: the entry of the table at an index,
  if there is one.
\<close>

definition valid_gid :: "bytes \<Rightarrow> bool" where
  "valid_gid g \<longleftrightarrow> (\<exists>i<16. g ! i \<noteq> 0)"

primrec find_gid :: "(nat \<Rightarrow> bytes option) \<Rightarrow> nat list \<Rightarrow> int \<times> bytes \<Rightarrow> int \<times> bytes" where
  "find_gid query [] best = best"
| "find_gid query (idx # idxs) best =
     find_gid query idxs
       (case query idx of None \<Rightarrow> best | Some g \<Rightarrow> if valid_gid g then (int idx, g) else best)"

definition FindBestGidIndex :: "(nat \<Rightarrow> bytes option) \<Rightarrow> int \<times> bytes" where
  "FindBestGidIndex query =
     (let (best_index, out_gid) = find_gid query [0..<16] (-1, replicate 16 0) in
      if best_index < 0 then (0, case query 0 of None \<Rightarrow> out_gid | Some g \<Rightarrow> g)
      else (best_index, out_gid))"

text \<open>The entries that can be chosen.\<close>

definition usable :: "(nat \<Rightarrow> bytes option) \<Rightarrow> nat \<Rightarrow> bool" where
  "usable query i \<longleftrightarrow> i < 16 \<and> (\<exists>g. query i = Some g \<and> valid_gid g)"

lemma find_gid_last:
  "find_gid query [0..<n] (-1, z) =
     (case filter (\<lambda>i. \<exists>g. query i = Some g \<and> valid_gid g) (rev [0..<n]) of
        [] \<Rightarrow> (-1, z) | i # _ \<Rightarrow> (int i, the (query i)))"
proof (induction n)
  case (Suc n)
  have "find_gid query (xs @ [i]) b = (case query i of None \<Rightarrow> find_gid query xs b
      | Some g \<Rightarrow> if valid_gid g then (int i, g) else find_gid query xs b)" for xs i b
    by (induction xs arbitrary: b) (simp_all split: option.splits)
  then show ?case
    using Suc.IH by (auto split: option.splits)
qed simp

text \<open>
  C40: \<open>FindBestGidIndex\<close> returns the largest index with a valid entry, and that entry. Where no
  entry is valid it falls back to index zero.
\<close>

theorem FindBestGidIndex_best:
  "FindBestGidIndex query =
     (if \<exists>j. usable query j then (int (Max {j. usable query j}), the (query (Max {j. usable query j})))
      else (0, case query 0 of None \<Rightarrow> replicate 16 0 | Some g \<Rightarrow> g))"
proof -
  let ?P = "\<lambda>i. \<exists>g. query i = Some g \<and> valid_gid g"
  show ?thesis
  proof (cases "filter ?P (rev [0..<16])")
    case Nil
    then have "\<not> usable query j" for j
      by (auto simp: filter_empty_conv usable_def)
    then show ?thesis
      using find_gid_last [of query 16 "replicate 16 0"] Nil by (simp add: FindBestGidIndex_def)
  next
    case (Cons i rest)
    have "sorted_wrt (>) (filter ?P (rev [0..<16]))"
      by (intro sorted_wrt_filter) (simp add: sorted_wrt_rev)
    then have "\<forall>j\<in>set rest. j < i"
      by (simp add: Cons)
    moreover have u: "{j. usable query j} = set (i # rest)"
      unfolding Cons [symmetric] by (auto simp: usable_def)
    ultimately have "Max {j. usable query j} = i"
      unfolding u by (intro Max_eqI) auto
    moreover have "usable query i"
      using u by auto
    ultimately show ?thesis
      using find_gid_last [of query 16 "replicate 16 0"] Cons by (auto simp: FindBestGidIndex_def)
  qed
qed

end
