(* ===== verification/RdmaSetup.thy ===== *)
theory RdmaSetup
  imports RdmaEndpoint RdmaQp Sockets
begin

text \<open>
  Setting up and tearing down \<open>TransportRdma\<close> (\<open>src/transport_rdma.cpp\<close>,
  \<open>src/include/transport_rdma.h\<close>): the context and protection domain that all transports of a
  process share, what each transport makes for its connection, and the handshake over TCP that
  connects two queue pairs.
\<close>

section \<open>The verbs library as one process sees it\<close>

text \<open>
  What the library and \<open>malloc\<close> hand out are objects with a number. Destroying what is not there,
  or a protection domain or a context that is still in use, is noted, as is reading outside a
  buffer. Whether a call succeeds is a list of answers. Memory has a list of its own, which answers
  both \<open>malloc\<close> and \<open>ibv_reg_mr\<close>; a call beyond the end of its list succeeds. The adapter moves a queue pair only along \<open>Reset\<close>, \<open>Init\<close>, \<open>Rtr\<close>, \<open>Rts\<close>.
\<close>

datatype obj = Context | ProtectionDomain | Channel | CompletionQueue | QueuePair | MemoryRegion | Memory

datatype qp_state = Reset | Init | Rtr | Rts

text \<open>The attributes of \<open>ModifyQPToRTR\<close> that depend on the peer.\<close>

record qp_attr =
  dest_qp_num :: "32 word"
  dlid :: "16 word"
  is_global :: bool
  dgid :: bytes
  sgid_index :: int

record host =
  live :: "(obj \<times> nat) list"
  next_obj :: nat
  bad_destroys :: "(obj \<times> nat) list"
  bad_reads :: nat
  answers :: "bool list"
  mem_answers :: "bool list"
  qp_states :: "nat \<Rightarrow> qp_state"
  qp_attrs :: "nat \<Rightarrow> qp_attr option"
  qp_num :: "nat \<Rightarrow> 32 word"
  port_lid :: "16 word"
  ethernet :: bool
  gid_table :: "nat \<Rightarrow> bytes option"
  sockets :: os
  shared_ctx :: "nat option"
  shared_pd :: "nat option"
  ref_count :: nat

definition answer :: "host \<Rightarrow> bool \<times> host" where
  "answer h = (case answers h of [] \<Rightarrow> (True, h) | b # bs \<Rightarrow> (b, h\<lparr>answers := bs\<rparr>))"

definition mem_answer :: "host \<Rightarrow> bool \<times> host" where
  "mem_answer h = (case mem_answers h of [] \<Rightarrow> (True, h) | b # bs \<Rightarrow> (b, h\<lparr>mem_answers := bs\<rparr>))"

definition new_obj :: "obj \<Rightarrow> host \<Rightarrow> nat option \<times> host" where
  "new_obj k h =
     (let (ok, h) = (if k = Memory \<or> k = MemoryRegion then mem_answer h else answer h) in
      if ok then (Some (next_obj h), h\<lparr>live := (k, next_obj h) # live h, next_obj := Suc (next_obj h)\<rparr>)
      else (None, h))"

definition in_use :: "obj \<Rightarrow> host \<Rightarrow> bool" where
  "in_use k h \<longleftrightarrow>
     (case k of
        ProtectionDomain \<Rightarrow> list_ex (\<lambda>(k, n). k = QueuePair \<or> k = MemoryRegion) (live h)
      | Context \<Rightarrow> list_ex (\<lambda>(k, n). k = ProtectionDomain \<or> k = CompletionQueue \<or> k = Channel) (live h)
      | _ \<Rightarrow> False)"

definition destroy :: "obj \<Rightarrow> nat \<Rightarrow> host \<Rightarrow> host" where
  "destroy k n h =
     (if (k, n) \<in> set (live h) \<and> \<not> in_use k h then h\<lparr>live := remove1 (k, n) (live h)\<rparr>
      else h\<lparr>bad_destroys := (k, n) # bad_destroys h\<rparr>)"

text \<open>The idiom \<open>if (p) destroy(p)\<close>.\<close>

definition destroy_if :: "obj \<Rightarrow> nat option \<Rightarrow> host \<Rightarrow> host" where
  "destroy_if k p h = (case p of None \<Rightarrow> h | Some n \<Rightarrow> destroy k n h)"

section \<open>Shared resources\<close>

text \<open>\<open>RdmaSharedResources\<close>. Looking for a device takes one call, opening it another.\<close>

definition Initialize :: "host \<Rightarrow> bool \<times> host" where
  "Initialize h =
     (let (found, h) = answer h in
      if \<not> found then (False, h)
      else
        let (ctx, h) = new_obj Context h; h = h\<lparr>shared_ctx := ctx\<rparr> in
        if ctx = None then (False, h)
        else
          let (pd, h) = new_obj ProtectionDomain h; h = h\<lparr>shared_pd := pd\<rparr> in
          if pd = None then (False, (destroy_if Context ctx h)\<lparr>shared_ctx := None\<rparr>)
          else (True, h))"

definition Cleanup :: "host \<Rightarrow> host" where
  "Cleanup h =
     (let h = (destroy_if ProtectionDomain (shared_pd h) h)\<lparr>shared_pd := None\<rparr> in
      (destroy_if Context (shared_ctx h) h)\<lparr>shared_ctx := None\<rparr>)"

definition Acquire :: "host \<Rightarrow> bool \<times> host" where
  "Acquire h =
     (let (ok, h) = (if ref_count h = 0 then Initialize h else (True, h)) in
      if \<not> ok then (False, h) else (True, h\<lparr>ref_count := Suc (ref_count h)\<rparr>))"

definition Release :: "host \<Rightarrow> host" where
  "Release h =
     (if 0 < ref_count h
      then let h = h\<lparr>ref_count := ref_count h - 1\<rparr> in if ref_count h = 0 then Cleanup h else h
      else h)"

section \<open>A transport\<close>

text \<open>
  A buffer with the memory and the memory region it holds; its address is null or that of the
  pool's memory.
\<close>

record pool_buffer = rdma_buffer +
  buf_memory :: "nat option"
  buf_region :: "nat option"

record RdmaResources =
  res_cq :: "nat option"
  res_qp :: "nat option"
  res_channel :: "nat option"
  res_buffers :: "pool_buffer list"
  res_posted :: "(nat \<times> (addr \<times> nat) list) list"
  local_gid_index :: int
  remote_qpn :: "32 word"
  remote_lid :: "16 word"
  remote_gid :: bytes
  remote_gid_index :: int

record TransportRdma =
  rdma_res :: "RdmaResources option"
  tcp_sock_fd :: int
  tcp_listen_fd :: int
  rdma_listen_port :: "16 word"
  rdma_connected :: bool
  shared_resources_acquired :: bool
  busy_polling :: bool
  zero_copy :: bool
  buffer_size :: nat
  buffer_count :: nat

definition new_RdmaResources :: RdmaResources where
  "new_RdmaResources =
     \<lparr>res_cq = None, res_qp = None, res_channel = None, res_buffers = [], res_posted = [], local_gid_index = 0,
      remote_qpn = 0, remote_lid = 0, remote_gid = replicate 16 0, remote_gid_index = 0\<rparr>"

definition new_TransportRdma :: TransportRdma where
  "new_TransportRdma =
     \<lparr>rdma_res = None, tcp_sock_fd = -1, tcp_listen_fd = -1, rdma_listen_port = 0, rdma_connected = False,
      shared_resources_acquired = False, busy_polling = True, zero_copy = False,
      buffer_size = 16 * 1024 * 1024, buffer_count = 16\<rparr>"

definition SetBusyPolling :: "bool \<Rightarrow> TransportRdma \<Rightarrow> TransportRdma" where
  "SetBusyPolling enabled t = t\<lparr>busy_polling := enabled\<rparr>"

definition SetZeroCopy :: "bool \<Rightarrow> TransportRdma \<Rightarrow> TransportRdma" where
  "SetZeroCopy enabled t = t\<lparr>zero_copy := enabled\<rparr>"

definition SetBufferPoolConfig :: "nat \<Rightarrow> nat \<Rightarrow> TransportRdma \<Rightarrow> TransportRdma" where
  "SetBufferPoolConfig sz count t = t\<lparr>buffer_size := sz, buffer_count := count\<rparr>"

section \<open>The buffer pool\<close>

definition no_buffer :: pool_buffer where
  "no_buffer = \<lparr>buf_data = Null, buf_size = 0, buf_mr = False, buf_id = -1, buf_in_use = False,
     buf_memory = None, buf_region = None\<rparr>"

text \<open>Both the destructor and the error path of \<open>InitBufferPool\<close> go over buffers like this.\<close>

primrec free_buffers :: "pool_buffer list \<Rightarrow> host \<Rightarrow> host" where
  "free_buffers [] h = h"
| "free_buffers (b # bs) h =
     free_buffers bs (destroy_if Memory (buf_memory b) (destroy_if MemoryRegion (buf_region b) h))"

primrec init_buffers :: "nat \<Rightarrow> nat list \<Rightarrow> pool_buffer list \<Rightarrow> host \<Rightarrow> bool \<times> pool_buffer list \<times> host" where
  "init_buffers sz [] bufs h = (True, bufs, h)"
| "init_buffers sz (i # is) bufs h =
     (let buf = no_buffer\<lparr>buf_id := int i, buf_size := sz\<rparr>;
          (mem, h) = new_obj Memory h in
      case mem of
        None \<Rightarrow> (False, bufs[i := buf], free_buffers (take i bufs) h)
      | Some m \<Rightarrow>
          let (mr, h) = new_obj MemoryRegion h in
          (case mr of
             None \<Rightarrow> (False, bufs[i := buf], free_buffers (take i bufs) (destroy Memory m h))
           | Some r \<Rightarrow>
               init_buffers sz is
                 (bufs[i := buf\<lparr>buf_data := Pool i, buf_mr := True, buf_memory := Some m, buf_region := Some r\<rparr>]) h))"

definition InitBufferPool :: "nat \<Rightarrow> nat \<Rightarrow> RdmaResources \<Rightarrow> host \<Rightarrow> bool \<times> RdmaResources \<times> host" where
  "InitBufferPool sz n r h =
     (let (ok, bufs, h) = init_buffers sz [0..<n] (replicate n no_buffer) h in (ok, r\<lparr>res_buffers := bufs\<rparr>, h))"

text \<open>\<open>~RdmaResources\<close>\<close>

definition delete_resources :: "RdmaResources option \<Rightarrow> host \<Rightarrow> host" where
  "delete_resources res h =
     (case res of None \<Rightarrow> h
      | Some r \<Rightarrow>
          destroy_if Channel (res_channel r)
            (destroy_if CompletionQueue (res_cq r)
              (destroy_if QueuePair (res_qp r) (free_buffers (res_buffers r) h))))"

text \<open>The end of \<open>InitRdmaResources\<close> after a \<open>break\<close>.\<close>

definition give_up :: "RdmaResources \<Rightarrow> TransportRdma \<Rightarrow> host \<Rightarrow> bool \<times> TransportRdma \<times> host" where
  "give_up r t h =
     (let h = delete_resources (Some r) h; t = t\<lparr>rdma_res := None\<rparr> in
      if shared_resources_acquired t then (False, t\<lparr>shared_resources_acquired := False\<rparr>, Release h) else (False, t, h))"

definition InitRdmaResources :: "TransportRdma \<Rightarrow> host \<Rightarrow> bool \<times> TransportRdma \<times> host" where
  "InitRdmaResources t h =
     (let h = delete_resources (rdma_res t) h; r = new_RdmaResources;
          (ok, h) = Acquire h in
      if \<not> ok then (False, t\<lparr>rdma_res := None\<rparr>, h)
      else
        let t = t\<lparr>shared_resources_acquired := True\<rparr>; (ok, h) = answer h in
        if \<not> ok then give_up r t h
        else
          let (channel, h) = new_obj Channel h; r = r\<lparr>res_channel := channel\<rparr> in
          if channel = None then give_up r t h
          else
            let (cq, h) = new_obj CompletionQueue h; r = r\<lparr>res_cq := cq\<rparr> in
            if cq = None then give_up r t h
            else
              let (qp, h) = new_obj QueuePair h; r = r\<lparr>res_qp := qp\<rparr> in
              case qp of None \<Rightarrow> give_up r t h
              | Some q \<Rightarrow>
                  let h = h\<lparr>qp_states := (qp_states h)(q := Reset)\<rparr>;
                      (ok, r, h) = InitBufferPool (buffer_size t) (buffer_count t) r h in
                  if ok then (True, t\<lparr>rdma_res := Some r\<rparr>, h) else give_up r t h)"

definition RDMA_Close :: "TransportRdma \<Rightarrow> host \<Rightarrow> TransportRdma \<times> host" where
  "RDMA_Close t h =
     (let (t, h) = (if 0 \<le> tcp_sock_fd t
            then (t\<lparr>tcp_sock_fd := -1\<rparr>, h\<lparr>sockets := sys_close (tcp_sock_fd t) (sockets h)\<rparr>) else (t, h));
          (t, h) = (if 0 \<le> tcp_listen_fd t
            then (t\<lparr>tcp_listen_fd := -1\<rparr>, h\<lparr>sockets := sys_close (tcp_listen_fd t) (sockets h)\<rparr>) else (t, h));
          (t, h) = (t\<lparr>rdma_res := None\<rparr>, delete_resources (rdma_res t) h);
          (t, h) = (if shared_resources_acquired t then (t\<lparr>shared_resources_acquired := False\<rparr>, Release h) else (t, h)) in
      (t\<lparr>rdma_connected := False\<rparr>, h))"

section \<open>Connecting\<close>

definition modify_qp :: "nat \<Rightarrow> qp_state \<Rightarrow> qp_state list \<Rightarrow> host \<Rightarrow> bool \<times> host" where
  "modify_qp q new olds h =
     (let (ok, h) = answer h in
      if ok \<and> qp_states h q \<in> set olds then (True, h\<lparr>qp_states := (qp_states h)(q := new)\<rparr>) else (False, h))"

definition ModifyQPToInit :: "RdmaResources \<Rightarrow> host \<Rightarrow> bool \<times> host" where
  "ModifyQPToInit r h = modify_qp (the (res_qp r)) Init [Reset, Init] h"

definition ModifyQPToRTR :: "RdmaResources \<Rightarrow> host \<Rightarrow> bool \<times> host" where
  "ModifyQPToRTR r h =
     (let q = the (res_qp r); (ok, h) = answer h in
      if \<not> ok then (False, h)
      else
        let attr = \<lparr>dest_qp_num = remote_qpn r, dlid = remote_lid r, is_global = ethernet h,
                    dgid = (if ethernet h then remote_gid r else replicate 16 0),
                    sgid_index = (if ethernet h then local_gid_index r else 0)\<rparr>;
            (ok, h) = modify_qp q Rtr [Init] h in
        if ok then (True, h\<lparr>qp_attrs := (qp_attrs h)(q := Some attr)\<rparr>) else (False, h))"

definition ModifyQPToRTS :: "RdmaResources \<Rightarrow> host \<Rightarrow> bool \<times> host" where
  "ModifyQPToRTS r h = modify_qp (the (res_qp r)) Rts [Rtr] h"

definition local_qp_info :: "RdmaResources \<Rightarrow> host \<Rightarrow> RdmaQpInfo" where
  "local_qp_info r h =
     (case FindBestGidIndex (gid_table h) of (i, g) \<Rightarrow>
        \<lparr>qpn = qp_num h (the (res_qp r)), lid = port_lid h, gid = g, gid_index = word_of_int i\<rparr>)"

text \<open>What is done with the peer's message.\<close>

definition save_remote :: "bytes \<Rightarrow> RdmaResources \<Rightarrow> host \<Rightarrow> RdmaResources \<times> host" where
  "save_remote recv_buffer r h =
     (case DecodeQpInfo recv_buffer 0 of
        Inl _ \<Rightarrow> (r, h\<lparr>bad_reads := Suc (bad_reads h)\<rparr>)
      | Inr (q, _) \<Rightarrow>
          (r\<lparr>remote_qpn := qpn q, remote_lid := lid q, remote_gid := gid q, remote_gid_index := sint (gid_index q)\<rparr>, h))"

text \<open>
  The exchange as a conversation: what is said, what is heard and when, each followed by what the
  code does with the outcome of the call. \<open>run_talk\<close> holds it over a socket of a process, with
  \<open>SendAll\<close> and \<open>RecvAll\<close>; theory \<open>RdmaConnections\<close> lets two of them talk to each other.
\<close>

datatype 'a talk =
    Return 'a
  | Say bytes "bool \<Rightarrow> 'a talk"
  | Hear "bool \<Rightarrow> bytes \<Rightarrow> 'a talk"

primrec run_talk :: "'a talk \<Rightarrow> int \<Rightarrow> os \<Rightarrow> 'a \<times> os" where
  "run_talk (Return a) fd s = (a, s)"
| "run_talk (Say data k) fd s = (let (ok, s) = SendAll fd data s in run_talk (k ok) fd s)"
| "run_talk (Hear k) fd s = (let (ok, data, s) = RecvAll fd s in run_talk (k ok data) fd s)"

definition qp_talk :: "bool \<Rightarrow> RdmaResources \<Rightarrow> host \<Rightarrow> (bool \<times> RdmaResources \<times> host) talk" where
  "qp_talk is_initiator r h =
     (let (ok, h) = answer h in
      if \<not> ok then Return (False, r, h)
      else
        let r = r\<lparr>local_gid_index := fst (FindBestGidIndex (gid_table h))\<rparr>;
            send_buffer = EncodeQpInfo (local_qp_info r h) [] in
        if is_initiator
        then
          Say send_buffer (\<lambda>ok.
            if \<not> ok then Return (False, r, h)
            else Hear (\<lambda>ok recv_buffer.
              if \<not> ok then Return (False, r, h) else Return (True, save_remote recv_buffer r h)))
        else
          Hear (\<lambda>ok recv_buffer.
            if \<not> ok then Return (False, r, h)
            else Say send_buffer (\<lambda>ok.
              if \<not> ok then Return (False, r, h) else Return (True, save_remote recv_buffer r h))))"

definition ExchangeQPInfo :: "int \<Rightarrow> bool \<Rightarrow> RdmaResources \<Rightarrow> host \<Rightarrow> bool \<times> RdmaResources \<times> host" where
  "ExchangeQPInfo tcp_sock is_initiator r h =
     (case run_talk (qp_talk is_initiator r h) tcp_sock (sockets h) of
        ((ok, r, h), s) \<Rightarrow> (ok, r, h\<lparr>sockets := s\<rparr>))"

text \<open>On a socket, in one piece.\<close>

lemma ExchangeQPInfo_calls:
  "ExchangeQPInfo tcp_sock is_initiator r h =
     (let (ok, h) = answer h in
      if \<not> ok then (False, r, h)
      else
        let r = r\<lparr>local_gid_index := fst (FindBestGidIndex (gid_table h))\<rparr>;
            send_buffer = EncodeQpInfo (local_qp_info r h) [] in
        if is_initiator
        then
          let (ok, s) = SendAll tcp_sock send_buffer (sockets h) in
          if \<not> ok then (False, r, h\<lparr>sockets := s\<rparr>)
          else
            let (ok, recv_buffer, s) = RecvAll tcp_sock s in
            if \<not> ok then (False, r, h\<lparr>sockets := s\<rparr>)
            else let (r, h) = save_remote recv_buffer r (h\<lparr>sockets := s\<rparr>) in (True, r, h)
        else
          let (ok, recv_buffer, s) = RecvAll tcp_sock (sockets h) in
          if \<not> ok then (False, r, h\<lparr>sockets := s\<rparr>)
          else
            let (ok, s) = SendAll tcp_sock send_buffer s in
            if \<not> ok then (False, r, h\<lparr>sockets := s\<rparr>)
            else let (r, h) = save_remote recv_buffer r (h\<lparr>sockets := s\<rparr>) in (True, r, h))"
proof -
  have save: "save_remote bs r (h\<lparr>sockets := s\<rparr>) = (case save_remote bs r h of (r, h) \<Rightarrow> (r, h\<lparr>sockets := s\<rparr>))" for bs r h s
    by (simp add: save_remote_def split: sum.split prod.split)
  obtain ok h1 where h1: "answer h = (ok, h1)"
    by fastforce
  then have s: "sockets h1 = sockets h" "h1\<lparr>sockets := sockets h\<rparr> = h1"
    by (auto simp: answer_def split: list.splits)
  show ?thesis
    by (cases ok; cases is_initiator; simp only: ExchangeQPInfo_def qp_talk_def h1 Let_def prod.case if_True if_False
        not_True_eq_False not_False_eq_True run_talk.simps s)
      (simp_all add: s save split: prod.split)
qed

text \<open>
  The endpoint of the data path that a transport and its queue pair make up when the connection
  has just come up: nothing has been sent or received on it, so no completion is waiting.
\<close>

definition endpoint_of :: "(addr \<Rightarrow> bytes) \<Rightarrow> TransportRdma \<Rightarrow> host \<Rightarrow> endpoint" where
  "endpoint_of mem t h =
     \<lparr>is_connected = rdma_connected t, enable_zero_copy = zero_copy t, enable_busy_polling = busy_polling t,
      buffer_size_config = buffer_size t,
      buffers = (case rdma_res t of None \<Rightarrow> [] | Some r \<Rightarrow> map rdma_buffer.truncate (res_buffers r)),
      heap = mem, live_mrs = [], cq = [],
      recv_queue = (case rdma_res t of None \<Rightarrow> [] | Some r \<Rightarrow> res_posted r),
      unacked = [], inbox = [], outbox = [], schedule = [], calls = answers h\<rparr>"

text \<open>\<open>PostRecvWRsForBufferPool\<close> on the transport's pool.\<close>

definition post_pool :: "TransportRdma \<Rightarrow> host \<Rightarrow> bool \<times> TransportRdma \<times> host" where
  "post_pool t h =
     (let (ok, e) = PostRecvWRsForBufferPool (endpoint_of (\<lambda>_. []) t h) in
      (ok, t\<lparr>rdma_res := map_option (\<lambda>r. r\<lparr>res_posted := recv_queue e\<rparr>) (rdma_res t)\<rparr>, h\<lparr>answers := calls e\<rparr>))"

text \<open>A failure anywhere in \<open>Connect\<close> or \<open>Accept\<close> closes the transport.\<close>

definition close_false :: "TransportRdma \<Rightarrow> host \<Rightarrow> bool \<times> TransportRdma \<times> host" where
  "close_false t h = (False, RDMA_Close t h)"

text \<open>What \<open>Connect\<close> and \<open>Accept\<close> both do once they have a TCP connection.\<close>

definition bring_up :: "bool \<Rightarrow> TransportRdma \<Rightarrow> host \<Rightarrow> bool \<times> TransportRdma \<times> host" where
  "bring_up is_initiator t h =
     (case rdma_res t of None \<Rightarrow> close_false t h
      | Some r \<Rightarrow>
          let (ok, h) = ModifyQPToInit r h in
          if \<not> ok then close_false t h
          else
            let (ok, r, h) = ExchangeQPInfo (tcp_sock_fd t) is_initiator r h; t = t\<lparr>rdma_res := Some r\<rparr> in
            if \<not> ok then close_false t h
            else
              let (ok, h) = ModifyQPToRTR r h in
              if \<not> ok then close_false t h
              else
                let (ok, h) = ModifyQPToRTS r h in
                if \<not> ok then close_false t h
                else
                  let (ok, t, h) = (if zero_copy t then (True, t, h) else post_pool t h) in
                  if \<not> ok then close_false t h else (True, t\<lparr>rdma_connected := True\<rparr>, h))"

definition RDMA_Connect :: "TransportRdma \<Rightarrow> host \<Rightarrow> bool \<times> TransportRdma \<times> host" where
  "RDMA_Connect t h =
     (let (ok, t, h) = InitRdmaResources t h in
      if \<not> ok then (False, t, h)
      else
        let (fd, s) = CreateConnectSocket 1 (sockets h); t = t\<lparr>tcp_sock_fd := fd\<rparr>; h = h\<lparr>sockets := s\<rparr> in
        if fd < 0 then close_false t h else bring_up True t h)"

definition RDMA_Listen :: "TransportRdma \<Rightarrow> host \<Rightarrow> bool \<times> TransportRdma \<times> host" where
  "RDMA_Listen t h =
     (let (fd, port, s) = CreateListenSocket True (sockets h) in
      (0 \<le> fd,
       t\<lparr>tcp_listen_fd := fd, rdma_listen_port := case port of None \<Rightarrow> rdma_listen_port t | Some p \<Rightarrow> p\<rparr>,
       h\<lparr>sockets := s\<rparr>))"

definition RDMA_Accept :: "TransportRdma \<Rightarrow> host \<Rightarrow> bool \<times> TransportRdma \<times> host" where
  "RDMA_Accept t h =
     (if tcp_listen_fd t < 0 then (False, t, h)
      else
        let (ok, t, h) = InitRdmaResources t h in
        if \<not> ok then (False, t, h)
        else
          let (fd, s) = AcceptConnection (tcp_listen_fd t) (sockets h); t = t\<lparr>tcp_sock_fd := fd\<rparr>; h = h\<lparr>sockets := s\<rparr> in
          if fd < 0 then close_false t h else bring_up False t h)"

text \<open>A transport that could not be accepted goes out of scope, which closes it once more.\<close>

definition RDMA_CreateAcceptedConnection :: "TransportRdma \<Rightarrow> host \<Rightarrow> TransportRdma option \<times> host" where
  "RDMA_CreateAcceptedConnection t h =
     (if tcp_listen_fd t < 0 then (None, h)
      else
        let (ok, u, h) = RDMA_Accept (new_TransportRdma\<lparr>tcp_listen_fd := tcp_listen_fd t\<rparr>) h in
        if ok then (Some u, h) else (None, snd (RDMA_Close u h)))"

end
