(* ===== verification/RdmaOwnership.thy ===== *)
theory RdmaOwnership
  imports RdmaSetup "HOL-Library.Multiset"
begin

text \<open>
  Who owns what: the objects of the verbs library that are alive in a process are those its
  transports hold, with one context and one protection domain for all, there exactly as long as
  a transport uses them.
\<close>

section \<open>Objects\<close>

abbreviation opt_obj :: "obj \<Rightarrow> nat option \<Rightarrow> (obj \<times> nat) multiset" where
  "opt_obj k p \<equiv> (case p of None \<Rightarrow> {#} | Some n \<Rightarrow> {#(k, n)#})"

definition buffer_objs :: "pool_buffer list \<Rightarrow> (obj \<times> nat) multiset" where
  "buffer_objs bs = sum_list (map (\<lambda>b. opt_obj MemoryRegion (buf_region b) + opt_obj Memory (buf_memory b)) bs)"

lemma buffer_objs_simps [simp]:
  "buffer_objs [] = {#}"
  "buffer_objs (b # bs) = opt_obj MemoryRegion (buf_region b) + opt_obj Memory (buf_memory b) + buffer_objs bs"
  "buffer_objs (bs @ cs) = buffer_objs bs + buffer_objs cs"
  by (simp_all add: buffer_objs_def)

lemma buffer_objs_unused [simp]: "buffer_objs (replicate n no_buffer) = {#}"
  by (induction n) (simp_all add: no_buffer_def)

definition res_objs :: "RdmaResources \<Rightarrow> (obj \<times> nat) multiset" where
  "res_objs r = opt_obj Channel (res_channel r) + opt_obj CompletionQueue (res_cq r) + opt_obj QueuePair (res_qp r) +
     buffer_objs (res_buffers r)"

definition held :: "TransportRdma \<Rightarrow> (obj \<times> nat) multiset" where
  "held t = (case rdma_res t of None \<Rightarrow> {#} | Some r \<Rightarrow> res_objs r)"

text \<open>
  A host whose transports hold \<open>X\<close> and have acquired the shared resources \<open>n\<close> times. Memory can
  be had (see \<open>RDMA_pool_double_free\<close> for when it cannot).
\<close>

definition owned :: "(obj \<times> nat) multiset \<Rightarrow> nat \<Rightarrow> host \<Rightarrow> bool" where
  "owned X n h \<longleftrightarrow> bad_destroys h = [] \<and> mem_answers h = [] \<and> ref_count h = n \<and>
     mset (live h) = opt_obj Context (shared_ctx h) + opt_obj ProtectionDomain (shared_pd h) + X \<and>
     (if n = 0 then shared_ctx h = None \<and> shared_pd h = None else shared_ctx h \<noteq> None \<and> shared_pd h \<noteq> None)"

lemma owned_other [simp]:
  "owned X n (h\<lparr>sockets := s\<rparr>) = owned X n h"
  "owned X n (h\<lparr>answers := bs\<rparr>) = owned X n h"
  "owned X n (h\<lparr>qp_states := st\<rparr>) = owned X n h"
  "owned X n (h\<lparr>qp_attrs := at\<rparr>) = owned X n h"
  "owned X n (h\<lparr>bad_reads := k\<rparr>) = owned X n h"
  by (simp_all add: owned_def)

lemma owned_answer: "answer h = (ok, h') \<Longrightarrow> owned X n h' = owned X n h"
  by (auto simp: answer_def split: list.splits)

section \<open>Making and destroying\<close>

lemma new_obj_fields:
  assumes "new_obj k h = (p, h')"
  shows "mset (live h') = mset (live h) + opt_obj k p" "bad_destroys h' = bad_destroys h" "ref_count h' = ref_count h"
    "shared_ctx h' = shared_ctx h" "shared_pd h' = shared_pd h" "mem_answers h = [] \<Longrightarrow> mem_answers h' = []"
    "k = Memory \<or> k = MemoryRegion \<Longrightarrow> mem_answers h = [] \<Longrightarrow> p \<noteq> None"
  using assms by (auto simp: new_obj_def mem_answer_def answer_def split: if_splits list.splits prod.splits)

lemma owned_new_obj:
  assumes "new_obj k h = (p, h')" "owned X n h"
  shows "owned (X + opt_obj k p) n h' \<and> (k = Memory \<or> k = MemoryRegion \<longrightarrow> p \<noteq> None)"
  using new_obj_fields [OF assms(1)] assms(2) by (simp add: owned_def ac_simps)

lemma owned_destroy:
  assumes "owned (X + {#(k, m)#}) n h" "k \<noteq> ProtectionDomain" "k \<noteq> Context"
  shows "owned X n (destroy k m h)"
proof -
  have "(k, m) \<in># mset (live h)"
    using assms(1) by (simp add: owned_def)
  then have "(k, m) \<in> set (live h)"
    by (simp only: set_mset_mset)
  moreover have "\<not> in_use k h"
    using assms(2,3) by (cases k) (simp_all add: in_use_def)
  ultimately show ?thesis
    using assms(1) by (simp add: destroy_def owned_def)
qed

lemma owned_destroy_if:
  "owned (X + opt_obj k p) n h \<Longrightarrow> k \<noteq> ProtectionDomain \<Longrightarrow> k \<noteq> Context \<Longrightarrow> owned X n (destroy_if k p h)"
  by (cases p) (simp_all add: destroy_if_def owned_destroy)

lemma owned_free_buffers: "owned (X + buffer_objs bs) n h \<Longrightarrow> owned X n (free_buffers bs h)"
proof (induction bs arbitrary: h)
  case (Cons b bs)
  have "owned (X + buffer_objs bs + opt_obj Memory (buf_memory b) + opt_obj MemoryRegion (buf_region b)) n h"
    using Cons.prems by (simp add: ac_simps)
  then have "owned (X + buffer_objs bs) n (destroy_if Memory (buf_memory b) (destroy_if MemoryRegion (buf_region b) h))"
    by (intro owned_destroy_if) simp_all
  then show ?case
    by (simp add: Cons.IH)
qed simp

lemma owned_delete_resources: "owned (X + res_objs r) n h \<Longrightarrow> owned X n (delete_resources (Some r) h)"
  unfolding delete_resources_def res_objs_def option.case
  by (intro owned_destroy_if owned_free_buffers) (simp_all add: ac_simps)

text \<open>The pool, as far as it has been set up.\<close>

definition pool_upto :: "nat \<Rightarrow> pool_buffer list \<Rightarrow> bool" where
  "pool_upto sz bufs \<longleftrightarrow> (\<forall>i<length bufs. rdma_buffer.truncate (bufs ! i) =
     \<lparr>buf_data = Pool i, buf_size = sz, buf_mr = True, buf_id = int i, buf_in_use = False\<rparr>)"

lemma init_buffers_ok:
  assumes "init_buffers sz [k..<k + m] (bufs @ replicate m no_buffer) h = (ok, bufs', h')"
    and "length bufs = k" "owned (X + buffer_objs bufs) n h" "pool_upto sz bufs"
  shows "ok \<and> length bufs' = k + m \<and> owned (X + buffer_objs bufs') n h' \<and> pool_upto sz bufs'"
  using assms
proof (induction m arbitrary: k bufs h)
  case (Suc m)
  obtain mem h1 where 1: "new_obj Memory h = (mem, h1)"
    by fastforce
  obtain mr h2 where 2: "new_obj MemoryRegion h1 = (mr, h2)"
    by fastforce
  obtain a where a: "mem = Some a" "owned (X + buffer_objs bufs + {#(Memory, a)#}) n h1"
    using owned_new_obj [OF 1 Suc.prems(3)] by auto
  obtain b where b: "mr = Some b" and o: "owned (X + buffer_objs bufs + {#(Memory, a)#} + {#(MemoryRegion, b)#}) n h2"
    using owned_new_obj [OF 2 a(2)] by (auto simp: add_mset_commute)
  let ?b = "no_buffer\<lparr>buf_id := int k, buf_size := sz, buf_data := Pool k, buf_mr := True, buf_memory := Some a, buf_region := Some b\<rparr>"
  have "[k..<k + Suc m] = k # [Suc k..<Suc k + m]"
    by (simp add: upt_rec)
  moreover have "(bufs @ replicate (Suc m) no_buffer)[k := ?b] = (bufs @ [?b]) @ replicate m no_buffer"
    using Suc.prems(2) by (simp add: list_update_append)
  ultimately have "init_buffers sz [Suc k..<Suc k + m] ((bufs @ [?b]) @ replicate m no_buffer) h2 = (ok, bufs', h')"
    using Suc.prems(1) 1 2 a(1) b by (simp del: upt_Suc)
  moreover have "owned (X + buffer_objs (bufs @ [?b])) n h2"
    using o by (simp add: add_mset_commute)
  moreover have "pool_upto sz (bufs @ [?b])"
    using Suc.prems(2,4) by (auto simp: pool_upto_def nth_append less_Suc_eq rdma_buffer.truncate_def no_buffer_def)
  ultimately show ?case
    using Suc.IH [of "Suc k" "bufs @ [?b]" h2] Suc.prems(2) by simp
qed simp

lemma InitBufferPool_ok:
  assumes "InitBufferPool sz m r h = (ok, r', h')" "owned (X + res_objs r) n h" "res_buffers r = []"
  shows "ok \<and> owned (X + res_objs r') n h' \<and> res_buffers r' \<noteq> [] = (m \<noteq> 0) \<and>
    length (res_buffers r') = m \<and> pool_upto sz (res_buffers r') \<and> r' = r\<lparr>res_buffers := res_buffers r'\<rparr>"
proof -
  obtain bufs where i: "init_buffers sz [0..<m] (replicate m no_buffer) h = (ok, bufs, h')" and r': "r' = r\<lparr>res_buffers := bufs\<rparr>"
    using assms(1) by (auto simp: InitBufferPool_def split: prod.splits)
  have "ok \<and> length bufs = 0 + m \<and> owned (X + res_objs r + buffer_objs bufs) n h' \<and> pool_upto sz bufs"
    by (rule init_buffers_ok [where k = 0 and bufs = "[]" and h = h]) (use i assms(2) in \<open>simp_all add: pool_upto_def\<close>)
  then show ?thesis
    using assms(3) r' by (auto simp: res_objs_def ac_simps)
qed

section \<open>The shared resources\<close>

lemma owned_Initialize:
  assumes "Initialize h = (ok, h')" "owned {#} 0 h"
  shows "if ok then owned {#} 1 (h'\<lparr>ref_count := 1\<rparr>) \<and> ref_count h' = 0 else owned {#} 0 h'"
proof -
  obtain found h1 where 1: "answer h = (found, h1)"
    by fastforce
  obtain ctx h2 where 2: "new_obj Context h1 = (ctx, h2)"
    by fastforce
  obtain pd h3 where 3: "new_obj ProtectionDomain (h2\<lparr>shared_ctx := ctx\<rparr>) = (pd, h3)"
    by fastforce
  have o: "owned {#} 0 h1"
    using assms(2) owned_answer [OF 1] by simp
  consider "\<not> found" | "found" "ctx = None" | c where "found" "ctx = Some c" "pd = None" | c p where "found" "ctx = Some c" "pd = Some p"
    by fastforce
  then show ?thesis
  proof cases
    case 1
    then show ?thesis
      using assms o \<open>answer h = (found, h1)\<close> by (simp add: Initialize_def)
  next
    case 2
    then show ?thesis
      using assms o \<open>answer h = (found, h1)\<close> \<open>new_obj Context h1 = (ctx, h2)\<close> new_obj_fields [OF \<open>new_obj Context h1 = (ctx, h2)\<close>]
      by (auto simp: Initialize_def owned_def)
  next
    case (3 c)
    have "live h3 = [(Context, c)]"
      using new_obj_fields(1) [OF \<open>new_obj Context h1 = (ctx, h2)\<close>] 3 o
        new_obj_fields(1) [OF \<open>new_obj ProtectionDomain _ = (pd, h3)\<close>] by (simp add: owned_def)
    then show ?thesis
      using assms o 1 2 \<open>new_obj ProtectionDomain _ = (pd, h3)\<close> 3 new_obj_fields(2-6) [OF 2]
        new_obj_fields(2-6) [OF \<open>new_obj ProtectionDomain _ = (pd, h3)\<close>]
      by (auto simp: Initialize_def owned_def destroy_if_def destroy_def in_use_def)
  next
    case (4 c p)
    then show ?thesis
      using assms o 1 2 3 new_obj_fields(1-6) [OF 2] new_obj_fields(1-6) [OF 3]
      by (auto simp: Initialize_def owned_def add_mset_commute)
  qed
qed

lemma owned_Acquire:
  assumes "Acquire h = (ok, h')" "owned X n h" "n = 0 \<Longrightarrow> X = {#}"
  shows "owned X (if ok then Suc n else n) h'"
proof (cases "n = 0")
  case True
  then show ?thesis
    using assms owned_Initialize [of h] by (auto simp: Acquire_def owned_def split: prod.splits if_splits)
next
  case False
  then show ?thesis
    using assms by (auto simp: Acquire_def owned_def)
qed

lemma owned_Release:
  assumes "owned X (Suc n) h" "n = 0 \<Longrightarrow> X = {#}"
  shows "owned X n (Release h)"
proof (cases "n = 0")
  case True
  then obtain c p where cp: "shared_ctx h = Some c" "shared_pd h = Some p" "mset (live h) = {#(Context, c), (ProtectionDomain, p)#}"
      "ref_count h = 1" "bad_destroys h = []" "mem_answers h = []"
    using assms by (auto simp: owned_def)
  then have "set (live h) = {(Context, c), (ProtectionDomain, p)}"
    by (simp flip: set_mset_mset)
  moreover have "mset (remove1 (ProtectionDomain, p) (live h)) = {#(Context, c)#}"
    using cp by simp
  then have "remove1 (ProtectionDomain, p) (live h) = [(Context, c)]"
    by (rule mset_single_iff [THEN iffD1])
  ultimately show ?thesis
    using cp True assms(2) by (simp add: Release_def Cleanup_def destroy_if_def destroy_def in_use_def list_ex_iff owned_def)
next
  case False
  then show ?thesis
    using assms(1) by (simp add: Release_def owned_def)
qed

section \<open>A transport among others\<close>

text \<open>The others hold \<open>X\<close> and have acquired the shared resources \<open>n\<close> times.\<close>

definition owns :: "(obj \<times> nat) multiset \<Rightarrow> nat \<Rightarrow> TransportRdma \<Rightarrow> host \<Rightarrow> bool" where
  "owns X n t h \<longleftrightarrow> (rdma_res t \<noteq> None) = shared_resources_acquired t \<and> (n = 0 \<longrightarrow> X = {#}) \<and>
     owned (X + held t) (if shared_resources_acquired t then Suc n else n) h"

lemma owns_give_up:
  assumes "give_up r t h = (ok, t', h')" "owned (X + res_objs r) (Suc n) h" "shared_resources_acquired t" "n = 0 \<longrightarrow> X = {#}"
  shows "\<not> ok \<and> owns X n t' h' \<and> \<not> shared_resources_acquired t'"
  using assms owned_Release [OF owned_delete_resources [OF assms(2)]]
  by (auto simp: give_up_def owns_def held_def)

lemma owned_Release_X: "owned X (Suc n) h \<Longrightarrow> n = 0 \<longrightarrow> X = {#} \<Longrightarrow> owned X n (Release h)"
  by (rule owned_Release) simp_all

lemma owns_Close:
  assumes "RDMA_Close t h = (t', h')" "owns X n t h"
  shows "owns X n t' h' \<and> rdma_res t' = None \<and> \<not> shared_resources_acquired t'"
proof -
  have "owned (X + res_objs r) n h \<Longrightarrow> owned X n (delete_resources (Some r) h)" for r n h
    by (rule owned_delete_resources)
  then show ?thesis
    using assms
    by (cases "rdma_res t") (auto simp: RDMA_Close_def owns_def held_def Let_def delete_resources_def [of None]
        intro!: owned_Release_X split: if_splits)
qed

text \<open>Resources whose pool has been set up.\<close>

definition pool_ready :: "TransportRdma \<Rightarrow> RdmaResources \<Rightarrow> bool" where
  "pool_ready t r \<longleftrightarrow> res_qp r \<noteq> None \<and> length (res_buffers r) = buffer_count t \<and>
     pool_upto (buffer_size t) (res_buffers r) \<and> res_posted r = []"

lemma owns_InitRdmaResources:
  assumes "InitRdmaResources t h = (ok, t', h')" "owns X n t h" "\<not> shared_resources_acquired t"
  shows "owns X n t' h' \<and> ok = shared_resources_acquired t' \<and>
    t' = t\<lparr>rdma_res := rdma_res t', shared_resources_acquired := shared_resources_acquired t'\<rparr> \<and>
    (ok \<longrightarrow> (\<exists>r. rdma_res t' = Some r \<and> pool_ready t r))"
proof -
  have t: "rdma_res t = None" "owned X n h" "n = 0 \<longrightarrow> X = {#}"
    using assms(2,3) by (auto simp: owns_def held_def)
  obtain ok1 h1 where 1: "Acquire h = (ok1, h1)"
    by fastforce
  have o1: "owned X (if ok1 then Suc n else n) h1"
    by (rule owned_Acquire [OF 1 t(2)]) (use t(3) in simp)
  let ?t = "t\<lparr>shared_resources_acquired := True\<rparr>"
  have fail: "give_up r ?t g = (ok, t', h') \<Longrightarrow> owned (X + res_objs r) (Suc n) g \<Longrightarrow> ?thesis" for r g
    using owns_give_up [of r ?t g ok t' h' X n] t(3) assms(3) by (auto simp: give_up_def)
  show ?thesis
  proof (cases ok1)
    case False
    then show ?thesis
      using assms 1 o1 t by (auto simp: InitRdmaResources_def delete_resources_def owns_def held_def)
  next
    case True
    obtain ok2 h2 where 2: "answer h1 = (ok2, h2)"
      by fastforce
    obtain ch h3 where 3: "new_obj Channel h2 = (ch, h3)"
      by fastforce
    obtain cq h4 where 4: "new_obj CompletionQueue h3 = (cq, h4)"
      by fastforce
    obtain qp h5 where 5: "new_obj QueuePair h4 = (qp, h5)"
      by fastforce
    let ?r = "new_RdmaResources\<lparr>res_channel := ch, res_cq := cq, res_qp := qp\<rparr>"
    have o2: "owned X (Suc n) h2"
      using o1 True owned_answer [OF 2] by simp
    have o3: "owned (X + opt_obj Channel ch) (Suc n) h3"
      using owned_new_obj [OF 3 o2] by simp
    have o4: "owned (X + opt_obj Channel ch + opt_obj CompletionQueue cq) (Suc n) h4"
      using owned_new_obj [OF 4 o3] by simp
    have o5: "owned (X + opt_obj Channel ch + opt_obj CompletionQueue cq + opt_obj QueuePair qp) (Suc n) h5"
      using owned_new_obj [OF 5 o4] by simp
    have steps: "InitRdmaResources t h =
      (if \<not> ok2 then give_up new_RdmaResources ?t h2
       else if ch = None then give_up (new_RdmaResources\<lparr>res_channel := ch\<rparr>) ?t h3
       else if cq = None then give_up (new_RdmaResources\<lparr>res_channel := ch, res_cq := cq\<rparr>) ?t h4
       else (case qp of None \<Rightarrow> give_up ?r ?t h5
         | Some q \<Rightarrow> (case InitBufferPool (buffer_size t) (buffer_count t) ?r (h5\<lparr>qp_states := (qp_states h5)(q := Reset)\<rparr>) of
             (ok, r, h) \<Rightarrow> if ok then (True, ?t\<lparr>rdma_res := Some r\<rparr>, h) else give_up r ?t h)))"
      using 1 2 3 4 5 True t(1) by (simp add: InitRdmaResources_def delete_resources_def Let_def split: option.splits)
    note res = res_objs_def new_RdmaResources_def
    consider "\<not> ok2" | "ok2" "ch = None" | "ok2" "ch \<noteq> None" "cq = None" | "ok2" "ch \<noteq> None" "cq \<noteq> None" "qp = None"
      | q where "ok2" "ch \<noteq> None" "cq \<noteq> None" "qp = Some q"
      by (cases qp) auto
    then show ?thesis
    proof cases
      case 1
      then show ?thesis
        using assms(1) steps o2 by (intro fail [of new_RdmaResources h2]) (simp_all add: res)
    next
      case 2
      then show ?thesis
        using assms(1) steps o3 by (intro fail [of "new_RdmaResources\<lparr>res_channel := ch\<rparr>" h3]) (simp_all add: res)
    next
      case 3
      then show ?thesis
        using assms(1) steps o4
        by (intro fail [of "new_RdmaResources\<lparr>res_channel := ch, res_cq := cq\<rparr>" h4]) (auto simp: res)
    next
      case 4
      then show ?thesis
        using assms(1) steps o5 by (intro fail [of ?r h5]) (auto simp: res ac_simps)
    next
      case (5 q)
      let ?h = "h5\<lparr>qp_states := (qp_states h5)(q := Reset)\<rparr>"
      obtain ok3 r h6 where 6: "InitBufferPool (buffer_size t) (buffer_count t) ?r ?h = (ok3, r, h6)"
        by (metis surj_pair)
      have "owned (X + res_objs ?r) (Suc n) ?h"
        using o5 by (simp add: res ac_simps)
      then have i: "ok3" "owned (X + res_objs r) (Suc n) h6" "length (res_buffers r) = buffer_count t"
          "pool_upto (buffer_size t) (res_buffers r)" "r = ?r\<lparr>res_buffers := res_buffers r\<rparr>"
        using InitBufferPool_ok [OF 6, of X "Suc n"] by (simp_all add: new_RdmaResources_def)
      have "res_posted r = []" "res_qp r = Some q"
        using 5 by (subst i(5), simp add: new_RdmaResources_def)+
      then show ?thesis
        using assms(1) steps 5 6 t(3) i(1-4) by (auto simp: owns_def held_def pool_ready_def)
    qed
  qed
qed

section \<open>The operations of a transport\<close>

lemma owned_modify_qp: "modify_qp q st olds h = (ok, h') \<Longrightarrow> owned X n h' = owned X n h"
  by (auto simp: modify_qp_def owned_answer [symmetric] split: prod.splits if_splits)

lemma owned_ModifyQP:
  "ModifyQPToInit r h = (ok, h') \<Longrightarrow> owned X n h' = owned X n h"
  "ModifyQPToRTR r h = (ok, h') \<Longrightarrow> owned X n h' = owned X n h"
  "ModifyQPToRTS r h = (ok, h') \<Longrightarrow> owned X n h' = owned X n h"
  by (auto simp: ModifyQPToInit_def ModifyQPToRTR_def ModifyQPToRTS_def Let_def owned_modify_qp owned_answer
      split: prod.splits if_splits)

lemma owned_save_remote:
  "save_remote m r h = (r', h') \<Longrightarrow> owned X n h' = owned X n h \<and> res_objs r' = res_objs r"
  by (auto simp: save_remote_def res_objs_def split: sum.splits prod.splits)

lemma owned_ExchangeQPInfo:
  assumes "ExchangeQPInfo sock ini r h = (ok, r', h')"
  shows "owned X n h' = owned X n h \<and> res_objs r' = res_objs r"
proof -
  have "res_objs (r\<lparr>local_gid_index := i\<rparr>) = res_objs r" for i
    by (simp add: res_objs_def)
  then show ?thesis
    using assms
    by (auto simp: ExchangeQPInfo_calls Let_def owned_answer dest: owned_save_remote [where X = X and n = n]
        split: prod.splits if_splits)
qed

lemma post_pool_owns:
  assumes "post_pool t h = (ok, t', h')"
  shows "owned X n h' = owned X n h \<and> held t' = held t \<and> (rdma_res t' = None) = (rdma_res t = None) \<and>
    shared_resources_acquired t' = shared_resources_acquired t"
  using assms by (cases "rdma_res t") (auto simp: post_pool_def held_def res_objs_def split: prod.splits)

lemma owns_same:
  assumes "owns X n t h" "owned (X + held t) (if shared_resources_acquired t then Suc n else n) h' =
      owned (X + held t) (if shared_resources_acquired t then Suc n else n) h"
    and "held t' = held t" "(rdma_res t' = None) = (rdma_res t = None)"
    "shared_resources_acquired t' = shared_resources_acquired t"
  shows "owns X n t' h'"
  using assms by (simp add: owns_def)

lemma owns_close_false: "close_false t h = (ok, t', h') \<Longrightarrow> owns X n t h \<Longrightarrow> owns X n t' h'"
  using owns_Close [of t h t' h' X n] by (auto simp: close_false_def)

lemma owns_bring_up:
  assumes "bring_up ini t h = (ok, t', h')" "owns X n t h"
  shows "owns X n t' h'"
proof (cases "rdma_res t")
  case None
  then show ?thesis
    using assms owns_close_false by (simp add: bring_up_def)
next
  case (Some r)
  obtain ok1 h1 where 1: "ModifyQPToInit r h = (ok1, h1)"
    by fastforce
  obtain ok2 r2 h2 where 2: "ExchangeQPInfo (tcp_sock_fd t) ini r h1 = (ok2, r2, h2)"
    by (metis surj_pair)
  let ?t = "t\<lparr>rdma_res := Some r2\<rparr>"
  obtain ok3 h3 where 3: "ModifyQPToRTR r2 h2 = (ok3, h3)"
    by fastforce
  obtain ok4 h4 where 4: "ModifyQPToRTS r2 h3 = (ok4, h4)"
    by fastforce
  obtain ok5 t5 h5 where 5: "(if zero_copy ?t then (True, ?t, h4) else post_pool ?t h4) = (ok5, t5, h5)"
    by (metis surj_pair)
  have o1: "owns X n t h1"
    using assms(2) owned_ModifyQP(1) [OF 1] by (auto simp: owns_def)
  have o2: "owns X n ?t h2"
    using o1 owned_ExchangeQPInfo [OF 2] Some by (auto simp: owns_def held_def)
  have o3: "owns X n ?t h3"
    using o2 owned_ModifyQP(2) [OF 3] by (auto simp: owns_def)
  have o4: "owns X n ?t h4"
    using o3 owned_ModifyQP(3) [OF 4] by (auto simp: owns_def)
  have o5: "owns X n t5 h5"
  proof (cases "zero_copy ?t")
    case False
    then have "post_pool ?t h4 = (ok5, t5, h5)"
      using 5 by simp
    from post_pool_owns [OF this] show ?thesis
      using owns_same [OF o4] by blast
  qed (use 5 o4 in auto)
  have o6: "owns X n (t5\<lparr>rdma_connected := True\<rparr>) h5"
    by (rule owns_same [OF o5]) (simp_all add: held_def)
  have "(if \<not> ok1 then close_false t h1 else if \<not> ok2 then close_false ?t h2 else if \<not> ok3 then close_false ?t h3
      else if \<not> ok4 then close_false ?t h4 else if \<not> ok5 then close_false t5 h5
      else (True, t5\<lparr>rdma_connected := True\<rparr>, h5)) = (ok, t', h')"
    using assms(1) by (simp only: bring_up_def Some option.case 1 2 3 4 5 Let_def prod.case cong: if_cong)
  then show ?thesis
    using o1 o2 o3 o4 o5 o6 owns_close_false by (auto split: if_splits)
qed

lemma owns_tcp:
  "owns X n (t\<lparr>tcp_sock_fd := fd\<rparr>) (h\<lparr>sockets := s\<rparr>) = owns X n t h"
  "owns X n (t\<lparr>tcp_listen_fd := fd, rdma_listen_port := p\<rparr>) (h\<lparr>sockets := s\<rparr>) = owns X n t h"
  by (simp_all add: owns_def held_def)

lemma owns_Connect:
  assumes "RDMA_Connect t h = (ok, t', h')" "owns X n t h" "\<not> shared_resources_acquired t"
  shows "owns X n t' h'"
proof -
  obtain ok1 t1 h1 where 1: "InitRdmaResources t h = (ok1, t1, h1)"
    by (metis surj_pair)
  have o1: "owns X n t1 h1"
    using owns_InitRdmaResources [OF 1 assms(2,3)] by simp
  then show ?thesis
    using assms(1) 1 owns_bring_up owns_close_false owns_tcp(1)
    by (auto simp: RDMA_Connect_def Let_def split: prod.splits if_splits)
qed

lemma owns_Accept:
  assumes "RDMA_Accept t h = (ok, t', h')" "owns X n t h" "\<not> shared_resources_acquired t"
  shows "owns X n t' h'"
proof -
  obtain ok1 t1 h1 where 1: "InitRdmaResources t h = (ok1, t1, h1)"
    by (metis surj_pair)
  have o1: "owns X n t1 h1"
    using owns_InitRdmaResources [OF 1 assms(2,3)] by simp
  then show ?thesis
    using assms 1 owns_bring_up owns_close_false owns_tcp(1)
    by (auto simp: RDMA_Accept_def Let_def split: prod.splits if_splits)
qed

lemma owns_Listen: "RDMA_Listen t h = (ok, t', h') \<Longrightarrow> owns X n t h \<Longrightarrow> owns X n t' h'"
  by (auto simp: RDMA_Listen_def owns_tcp split: prod.splits)

lemma owns_new: "owned X n h \<Longrightarrow> n = 0 \<longrightarrow> X = {#} \<Longrightarrow> owns X n (new_TransportRdma\<lparr>tcp_listen_fd := fd\<rparr>) h"
  by (simp add: owns_def held_def new_TransportRdma_def)

lemma owned_spawn:
  assumes "RDMA_CreateAcceptedConnection t h = (u, h')" "owned X n h" "n = 0 \<longrightarrow> X = {#}"
  shows "case u of None \<Rightarrow> owned X n h' | Some v \<Rightarrow> owns X n v h'"
proof (cases "tcp_listen_fd t < 0")
  case False
  let ?v = "new_TransportRdma\<lparr>tcp_listen_fd := tcp_listen_fd t\<rparr>"
  obtain ok v h1 where 1: "RDMA_Accept ?v h = (ok, v, h1)"
    by (metis surj_pair)
  have o: "owns X n v h1"
    by (rule owns_Accept [OF 1 owns_new [OF assms(2,3)]]) (simp add: new_TransportRdma_def)
  obtain w h2 where 2: "RDMA_Close v h1 = (w, h2)"
    by fastforce
  then show ?thesis
    using assms(1) False 1 o owns_Close [OF 2 o]
    by (auto simp: RDMA_CreateAcceptedConnection_def owns_def held_def split: if_splits)
qed (use assms in \<open>simp add: RDMA_CreateAcceptedConnection_def split: option.splits\<close>)

section \<open>The transports of a process\<close>

record rdma_proc =
  transports :: "TransportRdma list"
  host :: host

abbreviation put_tr :: "nat \<Rightarrow> TransportRdma \<Rightarrow> host \<Rightarrow> rdma_proc \<Rightarrow> rdma_proc" where
  "put_tr i t h p \<equiv> p\<lparr>transports := (transports p)[i := t], host := h\<rparr>"

text \<open>
  What a process does with its transports. It connects or accepts on one only when it has no
  connection yet, as \<open>Communicator::Init\<close> does; a destroyed transport is closed first.
\<close>

inductive rdma_step :: "rdma_proc \<Rightarrow> rdma_proc \<Rightarrow> bool" where
  new: "rdma_step p (p\<lparr>transports := transports p @ [new_TransportRdma]\<rparr>)"
| config: "i < length (transports p) \<Longrightarrow> t = transports p ! i \<Longrightarrow>
    rdma_step p (put_tr i (SetBufferPoolConfig sz n (SetZeroCopy z (SetBusyPolling b t))) (host p) p)"
| listen: "i < length (transports p) \<Longrightarrow> RDMA_Listen (transports p ! i) (host p) = (ok, t, h) \<Longrightarrow> rdma_step p (put_tr i t h p)"
| connect: "i < length (transports p) \<Longrightarrow> \<not> shared_resources_acquired (transports p ! i) \<Longrightarrow>
    RDMA_Connect (transports p ! i) (host p) = (ok, t, h) \<Longrightarrow> rdma_step p (put_tr i t h p)"
| accept: "i < length (transports p) \<Longrightarrow> \<not> shared_resources_acquired (transports p ! i) \<Longrightarrow>
    RDMA_Accept (transports p ! i) (host p) = (ok, t, h) \<Longrightarrow> rdma_step p (put_tr i t h p)"
| spawn: "i < length (transports p) \<Longrightarrow> RDMA_CreateAcceptedConnection (transports p ! i) (host p) = (u, h) \<Longrightarrow>
    rdma_step p (p\<lparr>transports := transports p @ (case u of None \<Rightarrow> [] | Some t \<Rightarrow> [t]), host := h\<rparr>)"
| close: "i < length (transports p) \<Longrightarrow> RDMA_Close (transports p ! i) (host p) = (t, h) \<Longrightarrow> rdma_step p (put_tr i t h p)"
| destroyed: "i < length (transports p) \<Longrightarrow> RDMA_Close (transports p ! i) (host p) = (t, h) \<Longrightarrow>
    rdma_step p (p\<lparr>transports := take i (transports p) @ drop (Suc i) (transports p), host := h\<rparr>)"

inductive rdma_reachable :: "rdma_proc \<Rightarrow> rdma_proc \<Rightarrow> bool" for p where
  start: "rdma_reachable p p"
| more: "rdma_reachable p q \<Longrightarrow> rdma_step q r \<Longrightarrow> rdma_reachable p r"

definition all_held :: "TransportRdma list \<Rightarrow> (obj \<times> nat) multiset" where
  "all_held ts = sum_list (map held ts)"

definition refs :: "TransportRdma list \<Rightarrow> nat" where
  "refs ts = length (filter shared_resources_acquired ts)"

text \<open>
  What is alive is what the transports hold, with a context and a protection domain exactly when
  a transport uses them, counted as often as transports do; and nothing has been destroyed that
  was not there or still in use.
\<close>

definition rdma_inv :: "rdma_proc \<Rightarrow> bool" where
  "rdma_inv p \<longleftrightarrow> owned (all_held (transports p)) (refs (transports p)) (host p) \<and>
     (\<forall>t\<in>set (transports p). (rdma_res t \<noteq> None) = shared_resources_acquired t)"

lemma all_held_simps [simp]: "all_held (xs @ ys) = all_held xs + all_held ys" "all_held (t # ts) = held t + all_held ts" "all_held [] = {#}"
  by (simp_all add: all_held_def)

lemma refs_simps [simp]: "refs (xs @ ys) = refs xs + refs ys"
  "refs (t # ts) = (if shared_resources_acquired t then Suc (refs ts) else refs ts)" "refs [] = 0"
  by (simp_all add: refs_def)

lemma refs_0:
  assumes "\<forall>t\<in>set ts. (rdma_res t \<noteq> None) = shared_resources_acquired t" "refs ts = 0"
  shows "all_held ts = {#}"
  using assms by (induction ts) (auto simp: held_def split: if_splits)

lemma rdma_inv_split:
  assumes "transports p = xs @ t # ys"
  shows "rdma_inv p \<longleftrightarrow> owns (all_held (xs @ ys)) (refs (xs @ ys)) t (host p) \<and>
    (\<forall>t\<in>set (xs @ ys). (rdma_res t \<noteq> None) = shared_resources_acquired t)"
  using assms refs_0 [of "xs @ ys"] by (auto simp: rdma_inv_def owns_def ac_simps)

abbreviation others :: "nat \<Rightarrow> rdma_proc \<Rightarrow> TransportRdma list" where
  "others i p \<equiv> take i (transports p) @ drop (Suc i) (transports p)"

lemma rdma_inv_at:
  assumes "i < length (transports p)" "rdma_inv p"
  shows "owns (all_held (others i p)) (refs (others i p)) (transports p ! i) (host p)"
    "\<forall>t\<in>set (others i p). (rdma_res t \<noteq> None) = shared_resources_acquired t"
    "owns (all_held (others i p)) (refs (others i p)) t h \<Longrightarrow> rdma_inv (put_tr i t h p)"
proof -
  have s: "transports p = take i (transports p) @ transports p ! i # drop (Suc i) (transports p)"
    using assms(1) by (rule id_take_nth_drop)
  show "owns (all_held (others i p)) (refs (others i p)) (transports p ! i) (host p)"
    and o: "\<forall>t\<in>set (others i p). (rdma_res t \<noteq> None) = shared_resources_acquired t"
    using rdma_inv_split [OF s] assms(2) by blast+
  have u: "transports (put_tr i t h p) = take i (transports p) @ t # drop (Suc i) (transports p)"
    using assms(1) by (simp add: upd_conv_take_nth_drop)
  show "owns (all_held (others i p)) (refs (others i p)) t h \<Longrightarrow> rdma_inv (put_tr i t h p)"
    using rdma_inv_split [OF u] o by simp
qed

lemma rdma_step_inv: "rdma_step p q \<Longrightarrow> rdma_inv p \<Longrightarrow> rdma_inv q"
proof (induction rule: rdma_step.induct)
  case (new p)
  then show ?case
    by (auto simp: rdma_inv_def new_TransportRdma_def held_def)
next
  case (config i p t sz n z b)
  let ?u = "SetBufferPoolConfig sz n (SetZeroCopy z (SetBusyPolling b t))"
  have "held ?u = held t" "rdma_res ?u = rdma_res t" "shared_resources_acquired ?u = shared_resources_acquired t"
    by (simp_all add: SetBufferPoolConfig_def SetZeroCopy_def SetBusyPolling_def held_def)
  then have "owns X n t h \<Longrightarrow> owns X n ?u h" for X n h
    by (simp add: owns_def)
  then show ?case
    using rdma_inv_at(1,3) [OF config(1,3)] config(2) by blast
next
  case (listen i p ok t h)
  then show ?case
    using rdma_inv_at(1,3) [OF listen(1,3)] listen(2,3) owns_Listen by blast
next
  case (connect i p ok t h)
  then show ?case
    using rdma_inv_at(1,3) [OF connect(1,4)] connect(2,3) owns_Connect by blast
next
  case (accept i p ok t h)
  then show ?case
    using rdma_inv_at(1,3) [OF accept(1,4)] accept(2,3) owns_Accept by blast
next
  case (spawn i p u h)
  let ?X = "all_held (transports p)" and ?n = "refs (transports p)"
  have o: "owned ?X ?n (host p)" "?n = 0 \<longrightarrow> ?X = {#}"
    using spawn(3) refs_0 by (auto simp: rdma_inv_def)
  from owned_spawn [OF spawn(2) o] show ?case
    using spawn(3) by (cases u) (auto simp: rdma_inv_def owns_def)
next
  case (close i p t h)
  then show ?case
    using rdma_inv_at(1,3) [OF close(1,3)] close(2,3) owns_Close by blast
next
  case (destroyed i p t h)
  have "owned (all_held (others i p)) (refs (others i p)) h"
    using owns_Close [OF destroyed(2) rdma_inv_at(1) [OF destroyed(1,3)]] by (auto simp: owns_def held_def)
  then show ?case
    using rdma_inv_at(2) [OF destroyed(1,3)] by (simp add: rdma_inv_def)
qed

text \<open>
  C11: Whatever a process does with its RDMA transports, and whichever calls of the verbs and
  socket libraries fail on the way, no object is destroyed twice and none while it is in use, no
  object is lost, and the context and the protection domain that the transports share are there
  exactly as long as one of them has acquired them. This is as long as memory can be had and
  registered for the buffer pools (neither \<open>malloc\<close> nor \<open>ibv_reg_mr\<close> fails;
  \<open>RDMA_pool_double_free\<close> shows what happens otherwise), and as long as the process does not connect
  or accept on a transport that has a connection.
\<close>

theorem RDMA_resources_owned:
  assumes "rdma_reachable \<lparr>transports = [], host = h\<rparr> p"
    and "live h = []" "bad_destroys h = []" "mem_answers h = []" "ref_count h = 0" "shared_ctx h = None" "shared_pd h = None"
  shows "rdma_inv p"
  using assms(1)
proof (induction rule: rdma_reachable.induct)
  case start
  show ?case
    using assms by (simp add: rdma_inv_def owned_def)
next
  case (more q r)
  then show ?case
    using rdma_step_inv by blast
qed

text \<open>A host on which nothing has been done with the adapter.\<close>

definition some_host :: host where
  "some_host = \<lparr>live = [], next_obj = 0, bad_destroys = [], bad_reads = 0, answers = [], mem_answers = [],
     qp_states = (\<lambda>_. Reset), qp_attrs = (\<lambda>_. None), qp_num = of_nat, port_lid = 7, ethernet = True,
     gid_table = (\<lambda>i. if i = 1 then Some (replicate 15 0 @ [1]) else None),
     sockets = \<lparr>open_fds = [0, 1, 2], bad_closes = [], options = [], wire_out = (\<lambda>_. []), wire_in = (\<lambda>_. []), replies = [1, 1, 1, 0]\<rparr>,
     shared_ctx = None, shared_pd = None, ref_count = 0\<rparr>"

lemma RDMA_resources_owned_witness:
  "\<exists>p ok t h. rdma_reachable \<lparr>transports = [], host = some_host\<rparr> p \<and>
     RDMA_Connect new_TransportRdma some_host = (ok, t, h) \<and> p = \<lparr>transports = [t], host = h\<rparr> \<and> rdma_inv p"
proof -
  let ?p = "\<lparr>transports = [], host = some_host\<rparr>" and ?q = "\<lparr>transports = [new_TransportRdma], host = some_host\<rparr>"
  obtain ok t h where c: "RDMA_Connect new_TransportRdma some_host = (ok, t, h)"
    by (metis surj_pair)
  have "rdma_step ?p ?q"
    using rdma_step.new [of ?p] by simp
  moreover have "rdma_step ?q \<lparr>transports = [t], host = h\<rparr>"
    using rdma_step.connect [of 0 ?q ok t h] c by (simp add: new_TransportRdma_def)
  ultimately have r: "rdma_reachable ?p \<lparr>transports = [t], host = h\<rparr>"
    by (meson rdma_reachable.intros)
  moreover have "rdma_inv \<lparr>transports = [t], host = h\<rparr>"
    by (rule RDMA_resources_owned [OF r]) (simp_all add: some_host_def)
  ultimately show ?thesis
    using c by blast
qed

section \<open>When memory runs out\<close>

lemma destroy_gone: "(k, n) \<notin> set (live h) \<Longrightarrow> bad_destroys (destroy k n h) = (k, n) # bad_destroys h"
  by (simp add: destroy_def)

lemma destroy_if_mono: "set (bad_destroys h) \<subseteq> set (bad_destroys (destroy_if k p h))"
  by (auto simp: destroy_if_def destroy_def split: option.splits)

lemma free_buffers_mono: "set (bad_destroys h) \<subseteq> set (bad_destroys (free_buffers bs h))"
proof (induction bs arbitrary: h)
  case (Cons b bs)
  have "set (bad_destroys h) \<subseteq> set (bad_destroys (destroy_if Memory (buf_memory b) (destroy_if MemoryRegion (buf_region b) h)))"
    using destroy_if_mono subset_trans by meson
  then show ?case
    using subset_trans [OF _ Cons.IH] by (simp only: free_buffers.simps)
qed simp

lemma delete_resources_mono:
  "set (bad_destroys (free_buffers (res_buffers r) h)) \<subseteq> set (bad_destroys (delete_resources (Some r) h))"
  unfolding delete_resources_def option.case using destroy_if_mono subset_trans by meson

text \<open>
  C38: When memory runs out after the first buffer of a pool has been set up, the code frees that
  buffer but leaves its pointers in place, and the destructor of the resources, which runs next,
  frees it a second time.
\<close>

theorem RDMA_pool_double_free:
  assumes "mem_answers h = [True, True, False]" "2 \<le> n" "\<forall>x\<in>set (live h). snd x < next_obj h" "res_buffers r = []"
  shows "\<exists>r' h'. InitBufferPool sz n r h = (False, r', h') \<and>
    (MemoryRegion, Suc (next_obj h)) \<in> set (bad_destroys (delete_resources (Some r') h'))"
proof -
  obtain m where n: "n = Suc (Suc m)"
    using le_Suc_ex [OF assms(2)] by auto
  then have up: "[0..<n] = 0 # 1 # [2..<n]"
    by (simp add: upt_conv_Cons numeral_2_eq_2)
  have rep: "replicate n no_buffer = no_buffer # no_buffer # replicate m no_buffer"
    using n by simp
  let ?b0 = "no_buffer\<lparr>buf_id := 0, buf_size := sz, buf_data := Pool 0, buf_mr := True,
    buf_memory := Some (next_obj h), buf_region := Some (Suc (next_obj h))\<rparr>"
  let ?b1 = "no_buffer\<lparr>buf_id := 1, buf_size := sz\<rparr>"
  have fresh: "(k, next_obj h) \<notin> set (live h)" "(k, Suc (next_obj h)) \<notin> set (live h)" for k
    using assms(3) by fastforce+
  let ?h = "h\<lparr>mem_answers := [], next_obj := next_obj h + 2\<rparr>"
  have "init_buffers sz [0..<n] (replicate n no_buffer) h = (False, ?b0 # ?b1 # replicate m no_buffer, ?h)"
    unfolding up rep using assms(1) fresh
    by (simp add: new_obj_def mem_answer_def destroy_if_def destroy_def in_use_def)
  then have "InitBufferPool sz n r h = (False, r\<lparr>res_buffers := ?b0 # ?b1 # replicate m no_buffer\<rparr>, ?h)"
    by (simp add: InitBufferPool_def)
  note pool = this
  have "(MemoryRegion, Suc (next_obj h)) \<in> set (bad_destroys (free_buffers (?b0 # bs) ?h))" for bs
  proof -
    have "(MemoryRegion, Suc (next_obj h)) \<in> set (bad_destroys (destroy_if MemoryRegion (buf_region ?b0) ?h))"
      using destroy_gone [of MemoryRegion "Suc (next_obj h)" ?h] fresh by (simp add: destroy_if_def)
    then show ?thesis
      using destroy_if_mono free_buffers_mono by (simp only: free_buffers.simps) blast
  qed
  moreover have "res_buffers (r\<lparr>res_buffers := bs\<rparr>) = bs" for bs
    by simp
  ultimately have "(MemoryRegion, Suc (next_obj h)) \<in> set (bad_destroys (free_buffers (res_buffers (r\<lparr>res_buffers := ?b0 # bs\<rparr>)) ?h))" for bs
    by (simp only:)
  then have "(MemoryRegion, Suc (next_obj h)) \<in> set (bad_destroys (delete_resources (Some (r\<lparr>res_buffers := ?b0 # bs\<rparr>)) ?h))" for bs
    using delete_resources_mono by blast
  then show ?thesis
    using pool by blast
qed

lemma RDMA_pool_double_free_witness:
  "\<exists>r' h'. InitBufferPool 64 4 new_RdmaResources (some_host\<lparr>mem_answers := [True, True, False]\<rparr>) = (False, r', h') \<and>
    (MemoryRegion, Suc 0) \<in> set (bad_destroys (delete_resources (Some r') h'))"
  using RDMA_pool_double_free [of "some_host\<lparr>mem_answers := [True, True, False]\<rparr>" 4 new_RdmaResources 64]
  by (simp add: some_host_def new_RdmaResources_def)

end
