(* ===== verification/RdmaMessages.thy ===== *)
theory RdmaMessages
  imports RdmaEndpoint Transports
begin

text \<open>
  \<open>TransportRdma::Send\<close> and \<open>Recv\<close>: a message goes in chunks that fit the pool's buffers, each
  with its size in front. One direction at a time this works; when messages cross, the
  completion queue that both directions share defeats it.
\<close>

section \<open>The operations\<close>

lemma PollCompletion_shorter: "PollCompletion e = Some (ok, i, e') \<Longrightarrow> length (schedule e') < length (schedule e)"
proof (induction e rule: PollCompletion.induct)
  case (1 e)
  obtain r wc e1 where p: "poll_cq e = Some (r, wc, e1)"
    using "1.prems" by (auto simp: PollCompletion.simps [of e] split: option.splits)
  note short = poll_cq_shorter [OF p]
  show ?case
  proof (cases "r < 0 \<or> wc \<noteq> None")
    case True
    then show ?thesis
      using "1.prems" p short by (auto simp: PollCompletion.simps [of e] split: if_splits)
  next
    case False
    then have n: "\<not> r < 0" "wc = None" by (cases wc; simp)+
    show ?thesis
    proof (cases "enable_busy_polling e1")
      case True
      then have "PollCompletion e1 = Some (ok, i, e')"
        using "1.prems" p n by (simp add: PollCompletion.simps [of e])
      then show ?thesis
        using "1.IH"(1) [OF p refl refl n True] short by simp
    next
      case idle: False
      obtain b e2 where v: "verbs_call e1 = (b, e2)"
        by fastforce
      show ?thesis
      proof (cases b)
        case False
        then show ?thesis
          using "1.prems" p n idle v short verbs_call_schedule [OF v] by (simp add: PollCompletion.simps [of e])
      next
        case True
        then obtain r' wc' e3 where q: "poll_cq e2 = Some (r', wc', e3)"
          using "1.prems" p n idle v by (auto simp: PollCompletion.simps [of e] split: option.splits)
        obtain b' e4 where v': "verbs_call e3 = (b', e4)"
          by fastforce
        have "length (schedule e3) < length (schedule e)"
          using short poll_cq_shorter [OF q] verbs_call_schedule [OF v] by simp
        moreover have "PollCompletion e4 = Some (ok, i, e')" if "wc' = None" b'
          using "1.prems" p n idle v True q v' that by (simp add: PollCompletion.simps [of e])
        ultimately show ?thesis
          using "1.prems" p n idle v True q v' verbs_call_schedule [OF v']
            "1.IH"(2) [OF p refl refl n idle v [symmetric] _ q refl refl _ v' [symmetric]]
          by (cases wc'; cases b') (auto simp: PollCompletion.simps [of e])
      qed
    qed
  qed
qed

lemma ReleaseBuffer_schedule [simp]: "schedule (ReleaseBuffer i e) = schedule e"
  by (simp add: ReleaseBuffer_def)

lemma SendBufferPoolInternal_shorter:
  assumes "SendBufferPoolInternal data e = Some (True, e')"
  shows "length (schedule e') < length (schedule e)"
proof -
  have "schedule (write_mem a bs e) = schedule e" for a bs e
    by (simp add: write_mem_def)
  moreover have "PostSendWR a n s e = (ok, e') \<Longrightarrow> schedule e' = schedule e" for a n s e ok e'
    using verbs_call_schedule [of e] by (auto simp: PostSendWR_def Let_def split: prod.splits if_splits)
  moreover have "AllocateBuffer e = (i, e') \<Longrightarrow> schedule e' = schedule e" for e i e'
    by (auto simp: AllocateBuffer_def split: option.splits)
  ultimately show ?thesis
    using assms unfolding SendBufferPoolInternal_def Let_def
    by (auto split: prod.splits if_splits option.splits dest!: PollCompletion_shorter)
qed

lemma RecvBufferPoolInternal_shorter:
  assumes "RecvBufferPoolInternal n e = Some (True, bs, e')"
  shows "length (schedule e') < length (schedule e)"
proof -
  have "post_recv w s e = (ok, e') \<Longrightarrow> schedule e' = schedule e" for w s e ok e'
    using verbs_call_schedule [of e] by (auto simp: post_recv_def Let_def split: prod.splits if_splits)
  then show ?thesis
    using assms unfolding RecvBufferPoolInternal_def Let_def
    by (auto split: prod.splits if_splits option.splits dest!: PollCompletion_shorter)
qed

text \<open>
  The loops over the chunks. Each round waits for a completion, so a loop can only go on as long
  as the schedule does.
\<close>

function send_chunks :: "nat \<Rightarrow> bytes \<Rightarrow> nat \<Rightarrow> endpoint \<Rightarrow> (bool \<times> endpoint) option" where
  "send_chunks max_payload data offset e =
     (if offset < length data
      then let chunk_size = min (length data - offset) max_payload in
        (case SendBufferPoolInternal (take chunk_size (drop offset data)) e of
           None \<Rightarrow> None
         | Some (ok, e') \<Rightarrow> if ok then send_chunks max_payload data (offset + chunk_size) e' else Some (False, e'))
      else Some (True, e))"
  by pat_completeness auto
termination
  by (relation "measure (\<lambda>(mp, data, offset, e). length (schedule e))") (auto dest: SendBufferPoolInternal_shorter)

function recv_chunks :: "nat \<Rightarrow> nat \<Rightarrow> bytes \<Rightarrow> nat \<Rightarrow> endpoint \<Rightarrow> (bool \<times> bytes \<times> endpoint) option" where
  "recv_chunks max_payload sz got offset e =
     (if offset < sz
      then let chunk_size = min (sz - offset) max_payload in
        (case RecvBufferPoolInternal chunk_size e of
           None \<Rightarrow> None
         | Some (ok, bs, e') \<Rightarrow>
             if ok then recv_chunks max_payload sz (got @ bs) (offset + chunk_size) e' else Some (False, got @ bs, e'))
      else Some (True, got, e))"
  by pat_completeness auto
termination
  by (relation "measure (\<lambda>(mp, sz, got, offset, e). length (schedule e))") (auto dest: RecvBufferPoolInternal_shorter)

declare send_chunks.simps [simp del] recv_chunks.simps [simp del]

definition RDMA_Send :: "bytes \<Rightarrow> endpoint \<Rightarrow> (bool \<times> endpoint) option" where
  "RDMA_Send data e =
     (if \<not> is_connected e then Some (False, e)
      else if enable_zero_copy e then SendZeroCopyInternal data e
      else
        let max_payload = size_sub (buffer_size_config e) 8 in
        if length data \<le> max_payload then SendBufferPoolInternal data e
        else send_chunks max_payload data 0 e)"

definition RDMA_Recv :: "nat \<Rightarrow> endpoint \<Rightarrow> (bool \<times> bytes \<times> endpoint) option" where
  "RDMA_Recv sz e =
     (if \<not> is_connected e then Some (False, [], e)
      else if enable_zero_copy e then RecvZeroCopyInternal sz e
      else
        let max_payload = size_sub (buffer_size_config e) 8 in
        if sz \<le> max_payload then RecvBufferPoolInternal sz e
        else recv_chunks max_payload sz [] 0 e)"

definition SendZeroCopy :: "bytes \<Rightarrow> endpoint \<Rightarrow> (bool \<times> endpoint) option" where
  "SendZeroCopy data e = (if \<not> is_connected e then Some (False, e) else SendZeroCopyInternal data e)"

definition RecvZeroCopy :: "nat \<Rightarrow> endpoint \<Rightarrow> (bool \<times> bytes \<times> endpoint) option" where
  "RecvZeroCopy sz e = (if \<not> is_connected e then Some (False, [], e) else RecvZeroCopyInternal sz e)"

section \<open>Waiting for a completion\<close>

text \<open>
  What \<open>PollCompletion\<close> computes as long as polls and calls succeed: it lets the adapter act
  until a poll finds a completion, and takes the first one. Whether the code polls all the time
  or waits for events between two polls makes no difference (\<open>PollCompletion_awaits\<close>).
\<close>

fun await :: "nic_event list \<Rightarrow> endpoint \<Rightarrow> (bool \<times> int \<times> endpoint) option" where
  "await [] e = None"
| "await (Deliver # evs) e = await evs (deliver e)"
| "await (Complete ok # evs) e = await evs (complete ok e)"
| "await (PollError # evs) e = Some (False, -1, e\<lparr>schedule := evs\<rparr>)"
| "await (Poll # evs) e =
     (case cq e of [] \<Rightarrow> await evs e
      | (status, wr) # wcs \<Rightarrow> Some (status, if status then low32 wr else -1, e\<lparr>cq := wcs, schedule := evs\<rparr>))"

lemma deliver_schedule [simp]: "deliver (e\<lparr>schedule := evs\<rparr>) = (deliver e)\<lparr>schedule := evs\<rparr>"
  by (auto simp: deliver_def split: list.splits)

lemma complete_schedule [simp]: "complete ok (e\<lparr>schedule := evs\<rparr>) = (complete ok e)\<lparr>schedule := evs\<rparr>"
  by (auto simp: complete_def split: list.splits)

lemma deliver_keeps [simp]: "calls (deliver e) = calls e" "enable_busy_polling (deliver e) = enable_busy_polling e"
  by (auto simp: deliver_def split: list.splits)

lemma complete_keeps [simp]: "calls (complete ok e) = calls e" "enable_busy_polling (complete ok e) = enable_busy_polling e"
  by (auto simp: complete_def split: list.splits)

lemma await_schedule [simp]: "await evs (e\<lparr>schedule := x\<rparr>) = await evs e"
  by (induction evs e arbitrary: x rule: await.induct) (auto split: list.splits)

lemma poll_cq_awaits:
  assumes "PollError \<notin> set (schedule e)"
  shows "await (schedule e) e =
      (case poll_cq e of None \<Rightarrow> None
       | Some (r, wc, e') \<Rightarrow>
           (case wc of None \<Rightarrow> await (schedule e') e'
            | Some (status, wr) \<Rightarrow> Some (status, if status then low32 wr else -1, e')))"
    "poll_cq e = Some (r, wc, e') \<Longrightarrow> \<not> r < 0 \<and> calls e' = calls e \<and> PollError \<notin> set (schedule e')"
  using assms
proof (induction e rule: poll_cq.induct)
  case (1 e)
  {
    case 1
    then show ?case
      using "1.IH" by (cases "schedule e" rule: list.exhaust; cases "hd (schedule e)")
        (auto simp: poll_cq.simps [of e] split: list.splits)
  next
    case 2
    then show ?case
      using "1.IH" by (cases "schedule e" rule: list.exhaust; cases "hd (schedule e)")
        (auto simp: poll_cq.simps [of e] split: list.splits)
  }
qed

lemma PollCompletion_awaits:
  "PollError \<notin> set (schedule e) \<Longrightarrow> calls e = [] \<Longrightarrow> PollCompletion e = await (schedule e) e"
proof (induction e rule: PollCompletion.induct)
  case (1 e)
  show ?case
  proof (cases "poll_cq e")
    case None
    then show ?thesis
      using poll_cq_awaits(1) [OF "1.prems"(1)] by (simp add: PollCompletion.simps [of e])
  next
    case (Some x)
    then obtain r wc e1 where p: "poll_cq e = Some (r, wc, e1)"
      by (cases x) auto
    note e1 = poll_cq_awaits(2) [OF "1.prems"(1) p] poll_cq_awaits(1) [OF "1.prems"(1)]
    show ?thesis
    proof (cases wc)
      case (Some y)
      then show ?thesis
        using p e1 by (cases y) (simp add: PollCompletion.simps [of e])
    next
      case wc: None
      show ?thesis
      proof (cases "enable_busy_polling e1")
        case True
        then show ?thesis
          using p e1 wc "1.IH"(1) [OF p refl refl _ wc True] "1.prems"(2) by (simp add: PollCompletion.simps [of e])
      next
        case idle: False
        have v: "verbs_call e1 = (True, e1)"
          using e1(1) "1.prems"(2) by (simp add: verbs_call_def)
        have a: "PollCompletion e = (case poll_cq e1 of None \<Rightarrow> None
            | Some (ret, wc, e2) \<Rightarrow> (case wc of
                Some (status, wr) \<Rightarrow> Some (status, if status then low32 wr else -1, e2)
              | None \<Rightarrow> (case verbs_call e2 of (got, e3) \<Rightarrow> if got then PollCompletion e3 else Some (False, -1, e3))))"
          using p e1(1) wc idle v by (simp add: PollCompletion.simps [of e])
        show ?thesis
        proof (cases "poll_cq e1")
          case None
          then show ?thesis
            using a p wc e1 poll_cq_awaits(1) [of e1] by simp
        next
          case (Some x)
          then obtain r' wc' e2 where q: "poll_cq e1 = Some (r', wc', e2)"
            by (cases x) auto
          have e2: "calls e2 = []" "PollError \<notin> set (schedule e2)" "\<not> r < 0"
            using poll_cq_awaits(2) [OF _ q] e1(1) "1.prems"(2) by auto
          have v2: "verbs_call e2 = (True, e2)"
            using e2(1) by (simp add: verbs_call_def)
          have "PollCompletion e2 = await (schedule e2) e2" if "wc' = None"
            by (rule "1.IH"(2) [OF p refl refl e2(3) wc idle v [symmetric] _ q refl refl that v2 [symmetric]]) (use e2 in simp_all)
          then show ?thesis
            using a p q wc e1 v2 poll_cq_awaits(1) [of e1] by (cases wc') auto
        qed
      qed
    qed
  qed
qed

text \<open>An adapter without errors, and how many times it acts (\<open>ev\<close>) and is then polled, in turn.\<close>

definition error_free :: "nic_event list \<Rightarrow> bool" where
  "error_free evs \<longleftrightarrow> PollError \<notin> set evs \<and> Complete False \<notin> set evs"

fun turns :: "nic_event \<Rightarrow> bool \<Rightarrow> nic_event list \<Rightarrow> nat" where
  "turns ev acted [] = 0"
| "turns ev False (x # evs) = turns ev (x = ev) evs"
| "turns ev True (x # evs) = (if x = Poll then Suc (turns ev False evs) else turns ev True evs)"

abbreviation rounds :: "nic_event \<Rightarrow> nic_event list \<Rightarrow> nat" where
  "rounds ev \<equiv> turns ev False"

lemma error_free_simps [simp]:
  "error_free []" "error_free (ev # evs) \<longleftrightarrow> ev \<noteq> PollError \<and> ev \<noteq> Complete False \<and> error_free evs"
  by (auto simp: error_free_def)

lemma turns_mono: "ev \<noteq> Poll \<Longrightarrow> turns ev False evs \<le> turns ev True evs"
proof (induction evs)
  case (Cons a evs)
  then show ?case by (cases "a = ev") auto
qed simp

section \<open>One message in one direction\<close>

text \<open>The pool as \<open>InitBufferPool\<close> leaves it, with buffers of \<open>bs\<close> bytes.\<close>

definition pool_ok :: "nat \<Rightarrow> endpoint \<Rightarrow> bool" where
  "pool_ok bs e \<longleftrightarrow> length (buffers e) < 2 ^ 31 \<and>
     (\<forall>i<length (buffers e). buf_data (buffers e ! i) = Pool i \<and> buf_size (buffers e ! i) = bs \<and>
        buf_id (buffers e ! i) = int i \<and> length (heap e (Pool i)) = bs)"

text \<open>
  An endpoint in pool mode that waits for nothing, on a library whose calls succeed; a quiet one
  has no completion to read either.
\<close>

definition idle :: "nat \<Rightarrow> endpoint \<Rightarrow> bool" where
  "idle bs e \<longleftrightarrow> is_connected e \<and> \<not> enable_zero_copy e \<and> buffer_size_config e = bs \<and> pool_ok bs e \<and>
     unacked e = [] \<and> calls e = []"

definition quiet :: "nat \<Rightarrow> endpoint \<Rightarrow> bool" where
  "quiet bs e \<longleftrightarrow> idle bs e \<and> cq e = []"

text \<open>The receive requests are for buffers of the pool, each for another one.\<close>

definition request :: "nat \<Rightarrow> nat \<Rightarrow> nat \<times> (addr \<times> nat) list" where
  "request bs i = (recv_wr_id (int i), [(Pool i, bs)])"

definition posted :: "nat \<Rightarrow> endpoint \<Rightarrow> bool" where
  "posted bs e \<longleftrightarrow> (\<exists>is. recv_queue e = map (request bs) is \<and> is \<noteq> [] \<and> distinct is \<and> set is \<subseteq> {..<length (buffers e)})"

lemma first_free_Some: "first_free bs = Some i \<Longrightarrow> i < length bs \<and> \<not> buf_in_use (bs ! i)"
  by (induction bs arbitrary: i) (auto split: if_splits)

lemma low32_recv_wr_id: "i < 2 ^ 31 \<Longrightarrow> low32 (recv_wr_id (int i)) = int i"
proof -
  assume i: "i < 2 ^ 31"
  have "recv_wr_id (int i) = 2 * 2 ^ 32 + i"
    using i by (simp add: recv_wr_id_def)
  moreover have "(of_nat (2 * 2 ^ 32 + i) :: 32 word) = of_nat i"
    by (simp add: word_of_nat_eq_iff take_bit_eq_mod)
  ultimately have "low32 (recv_wr_id (int i)) = sint (of_nat i :: 32 word)"
    by (simp only: low32_def)
  then show ?thesis
    using i by (simp add: signed_of_nat signed_take_bit_int_eq_self)
qed

lemma header_size_header: "n < 2 ^ 64 \<Longrightarrow> header_size (size_header n @ bs) = n"
  by (simp add: header_size_def size_header_def unat_of_nat)

lemma length_size_header [simp]: "length (size_header n) = 8"
  by (simp add: size_header_def)

text \<open>What goes over the wire for a chunk.\<close>

definition framed :: "bytes \<Rightarrow> bytes" where
  "framed data = size_header (length data) @ data"

lemma length_framed [simp]: "length (framed data) = length data + 8"
  by (simp add: framed_def)

text \<open>What an operation may have changed in an endpoint.\<close>

lemma idle_cong:
  assumes "idle bs e" "is_connected e' = is_connected e" "enable_zero_copy e' = enable_zero_copy e"
    "buffer_size_config e' = buffer_size_config e" "buffers e' = buffers e" "unacked e' = []" "calls e' = []"
    "\<And>i. i < length (buffers e) \<Longrightarrow> length (heap e' (Pool i)) = length (heap e (Pool i))"
  shows "idle bs e'"
  using assms unfolding idle_def pool_ok_def by metis

text \<open>A send that has been posted from buffer \<open>i\<close>.\<close>

definition in_flight :: "nat \<Rightarrow> bytes \<Rightarrow> endpoint \<Rightarrow> endpoint" where
  "in_flight i data e = e\<lparr>buffers := (buffers e)[i := (buffers e ! i)\<lparr>buf_in_use := True\<rparr>],
     heap := (heap e)(Pool i := framed data @ drop (8 + length data) (heap e (Pool i))),
     outbox := outbox e @ [framed data], unacked := [1]\<rparr>"

lemma SendBufferPool_posts:
  assumes q: "quiet bs e" and bs: "bs < 2 ^ 32" and free: "first_free (buffers e) = Some i" and fits: "length data + 8 \<le> bs"
  shows "SendBufferPoolInternal data e =
    (case PollCompletion (in_flight i data e) of None \<Rightarrow> None | Some (ok, _, e') \<Rightarrow> Some (ok, ReleaseBuffer (int i) e'))"
proof -
  have i: "i < length (buffers e)"
    using first_free_Some [OF free] by simp
  have b: "buf_data (buffers e ! i) = Pool i" "buf_size (buffers e ! i) = bs" "buf_id (buffers e ! i) = int i"
    and e: "unacked e = []" "calls e = []"
    using q i by (auto simp: quiet_def idle_def pool_ok_def)
  show ?thesis
    using i b e free fits bs
    by (simp add: SendBufferPoolInternal_def AllocateBuffer_def write_mem_def PostSendWR_def verbs_call_def framed_def in_flight_def)
qed

lemma ReleaseBuffer_in_flight:
  assumes "first_free (buffers e) = Some i" "buffers e' = buffers (in_flight i data e)"
  shows "ReleaseBuffer (int i) e' = e'\<lparr>buffers := buffers e\<rparr>"
proof -
  have i: "i < length (buffers e)" and unused: "\<not> buf_in_use (buffers e ! i)"
    using first_free_Some [OF assms(1)] by simp_all
  have "(buffers e)[i := (buffers e ! i)\<lparr>buf_in_use := False\<rparr>] = buffers e"
    using unused by (simp add: list_update_same_conv i)
  then show ?thesis
    using i assms(2) by (simp add: ReleaseBuffer_def in_flight_def)
qed

text \<open>A sender that can send \<open>n\<close> more frames; nothing is on its way to it.\<close>

definition sendable :: "nat \<Rightarrow> nat \<Rightarrow> endpoint \<Rightarrow> bool" where
  "sendable n bs e \<longleftrightarrow> quiet bs e \<and> first_free (buffers e) \<noteq> None \<and> inbox e = [] \<and>
     error_free (schedule e) \<and> n \<le> rounds (Complete True) (schedule e)"

lemma await_taken:
  assumes "error_free evs" "inbox e = []" "cq e = [(True, wr)]" "unacked e = []" "Suc n \<le> turns (Complete True) True evs"
  shows "\<exists>evs'. await evs e = Some (True, low32 wr, e\<lparr>cq := [], schedule := evs'\<rparr>) \<and>
    error_free evs' \<and> n \<le> rounds (Complete True) evs'"
  using assms
proof (induction evs)
  case (Cons ev evs)
  then show ?case
    by (cases ev) (auto simp: deliver_def complete_def)
qed simp

lemma await_sent:
  assumes "error_free evs" "inbox e = []" "cq e = []" "unacked e = [wr]" "Suc n \<le> rounds (Complete True) evs"
  shows "\<exists>evs'. await evs e = Some (True, low32 wr, e\<lparr>unacked := [], schedule := evs'\<rparr>) \<and>
    error_free evs' \<and> n \<le> rounds (Complete True) evs'"
  using assms
proof (induction evs)
  case (Cons ev evs)
  show ?case
  proof (cases ev)
    case (Complete ok)
    have eq: "e\<lparr>unacked := [], cq := [], schedule := x\<rparr> = e\<lparr>unacked := [], schedule := x\<rparr>" for x
      by (rule endpoint.equality) (simp_all add: Cons.prems(3))
    show ?thesis
      using Complete await_taken [of evs "e\<lparr>unacked := [], cq := [(True, wr)]\<rparr>" wr n] Cons.prems
      by (simp add: complete_def eq)
  qed (use Cons.IH Cons.prems in \<open>simp_all add: deliver_def\<close>)
qed simp

lemma SendBufferPool_ok:
  assumes r: "sendable (Suc n) bs e" and bs: "bs < 2 ^ 32" and fits: "length data + 8 \<le> bs"
  shows "\<exists>e'. SendBufferPoolInternal data e = Some (True, e') \<and> outbox e' = outbox e @ [framed data] \<and> sendable n bs e'"
proof -
  obtain i where free: "first_free (buffers e) = Some i"
    using r by (auto simp: sendable_def)
  let ?f = "in_flight i data e"
  have q: "quiet bs e" and i: "i < length (buffers e)" and e: "inbox e = []" "error_free (schedule e)" "cq e = []"
      "unacked e = []" "calls e = []" and n: "Suc n \<le> rounds (Complete True) (schedule e)"
    using r first_free_Some [OF free] by (auto simp: sendable_def quiet_def idle_def)
  obtain evs where a: "await (schedule ?f) ?f = Some (True, low32 1, ?f\<lparr>unacked := [], schedule := evs\<rparr>)"
      "error_free evs" "n \<le> rounds (Complete True) evs"
    using await_sent [of "schedule ?f" ?f 1 n] e n by (auto simp: in_flight_def)
  let ?e' = "e\<lparr>heap := heap ?f, outbox := outbox e @ [framed data], schedule := evs\<rparr>"
  have "PollCompletion ?f = Some (True, low32 1, ?f\<lparr>unacked := [], schedule := evs\<rparr>)"
    using PollCompletion_awaits [of ?f] a(1) e by (simp add: in_flight_def error_free_def)
  moreover have "ReleaseBuffer (int i) (?f\<lparr>unacked := [], schedule := evs\<rparr>) = ?e'"
    by (subst ReleaseBuffer_in_flight [OF free, where data = data]) (simp_all add: in_flight_def e(4) [symmetric])
  ultimately have "SendBufferPoolInternal data e = Some (True, ?e')"
    by (simp add: SendBufferPool_posts [OF q bs free fits])
  moreover have "length (heap e (Pool i)) = bs"
    using q i by (simp add: quiet_def idle_def pool_ok_def)
  then have len: "length (heap ?f (Pool j)) = length (heap e (Pool j))" for j
    using fits by (simp add: in_flight_def)
  have "idle bs ?e'"
    by (rule idle_cong [of bs e]) (use q e len in \<open>simp_all add: quiet_def\<close>)
  then have "sendable n bs ?e'"
    using free a e by (simp add: sendable_def quiet_def)
  ultimately show ?thesis
    by (intro exI [of _ ?e']) simp
qed

text \<open>
  A receiver that has posted its buffers. Messages may have arrived before it looks for them:
  then their buffers wait in the completion queue, ahead of what the adapter has not delivered.
\<close>

definition frame_in :: "endpoint \<Rightarrow> nat \<Rightarrow> bytes" where
  "frame_in e wr = (let mem = heap e (Pool (nat (low32 wr))) in take (8 + header_size mem) mem)"

definition unread_frames :: "endpoint \<Rightarrow> bytes list" where
  "unread_frames e = map (\<lambda>(_, wr). frame_in e wr) (cq e) @ inbox e"

definition arrived :: "nat \<Rightarrow> bool \<times> nat" where
  "arrived k = (True, recv_wr_id (int k))"

definition stocked_with :: "nat \<Rightarrow> nat list \<Rightarrow> nat list \<Rightarrow> endpoint \<Rightarrow> bool" where
  "stocked_with bs ks is e \<longleftrightarrow> idle bs e \<and> cq e = map arrived ks \<and> recv_queue e = map (request bs) is \<and>
     distinct (ks @ is) \<and> ks @ is \<noteq> [] \<and> set (ks @ is) \<subseteq> {..<length (buffers e)} \<and>
     (\<forall>k\<in>set ks. \<exists>d r. heap e (Pool k) = framed d @ r) \<and> (\<forall>m\<in>set (inbox e). length m \<le> bs \<and> (\<exists>d. m = framed d))"

definition stocked :: "nat \<Rightarrow> endpoint \<Rightarrow> bool" where
  "stocked bs e \<longleftrightarrow> (\<exists>ks is. stocked_with bs ks is e)"

lemma header_size_framed: "length d < 2 ^ 64 \<Longrightarrow> header_size (framed d @ r) = length d"
  using header_size_header [of "length d" "d @ r"] by (simp add: framed_def)

lemma drop_framed [simp]: "drop 8 (framed d @ r) = d @ r" "drop 8 (framed d) = d"
  by (simp_all add: framed_def)

lemma framed_inject [simp]: "framed d = framed d' \<longleftrightarrow> d = d'"
  by (metis drop_framed(2))

lemma stocked_low32:
  assumes "stocked_with bs ks is e" "k \<in> set (ks @ is)"
  shows "low32 (recv_wr_id (int k)) = int k" "k < length (buffers e)" "length (heap e (Pool k)) = bs"
proof -
  show k: "k < length (buffers e)"
    using assms unfolding stocked_with_def by blast
  then show "low32 (recv_wr_id (int k)) = int k" "length (heap e (Pool k)) = bs"
    using assms(1) by (auto simp: stocked_with_def idle_def pool_ok_def intro!: low32_recv_wr_id)
qed

lemma frame_in_framed:
  assumes "stocked_with bs ks is e" "k \<in> set (ks @ is)" "heap e (Pool k) = framed d @ r" "bs < 2 ^ 32"
  shows "frame_in e (recv_wr_id (int k)) = framed d" "header_size (heap e (Pool k)) = length d"
proof -
  have "length d < 2 ^ 64"
    using stocked_low32(3) [OF assms(1,2)] assms(3,4) by simp
  then show "header_size (heap e (Pool k)) = length d"
    by (simp add: assms(3) header_size_framed)
  then show "frame_in e (recv_wr_id (int k)) = framed d"
    using stocked_low32(1) [OF assms(1,2)] by (simp add: frame_in_def assms(3) add.commute)
qed

lemma deliver_stocked_with:
  assumes s: "stocked_with bs ks (i # is) e" and m: "inbox e = m # ms" and bs: "bs < 2 ^ 32"
  shows "stocked_with bs (ks @ [i]) is (deliver e)" "unread_frames (deliver e) = unread_frames e"
    "cq (deliver e) \<noteq> []"
proof -
  obtain d where d: "m = framed d" "length m \<le> bs"
    using s m by (auto simp: stocked_with_def)
  let ?h = "(heap e)(Pool i := framed d @ drop (length d + 8) (heap e (Pool i)))"
  let ?e = "e\<lparr>inbox := ms, recv_queue := map (request bs) is, heap := ?h, cq := cq e @ [arrived i]\<rparr>"
  have e: "deliver e = ?e"
    using s d m by (simp add: deliver_def stocked_with_def request_def arrived_def)
  have i: "i \<notin> set ks" "length (heap e (Pool i)) = bs"
    using s stocked_low32(3) [OF s, of i] by (auto simp: stocked_with_def)
  have "idle bs ?e"
    by (rule idle_cong [of bs e]) (use s d i in \<open>simp_all add: stocked_with_def idle_def\<close>)
  then show s': "stocked_with bs (ks @ [i]) is (deliver e)"
    using s m i unfolding e by (auto simp: stocked_with_def)
  have "frame_in ?e (recv_wr_id (int k)) = frame_in e (recv_wr_id (int k))" if "k \<in> set ks" for k
    using that i stocked_low32(1) [OF s, of k] by (auto simp: frame_in_def)
  moreover have "frame_in ?e (recv_wr_id (int i)) = framed d"
    using frame_in_framed(1) [OF s', of i d] bs unfolding e by simp
  ultimately show "unread_frames (deliver e) = unread_frames e"
    using s m d unfolding e by (simp add: unread_frames_def stocked_with_def arrived_def)
  show "cq (deliver e) \<noteq> []"
    unfolding e by simp
qed

lemma deliver_stocked:
  assumes "stocked bs e" "bs < 2 ^ 32"
  shows "stocked bs (deliver e)" "unread_frames (deliver e) = unread_frames e"
    "unread_frames e \<noteq> [] \<Longrightarrow> cq (deliver e) \<noteq> []"
proof -
  obtain ks "is" where s: "stocked_with bs ks is e"
    using assms(1) by (auto simp: stocked_def)
  have "stocked bs (deliver e) \<and> unread_frames (deliver e) = unread_frames e \<and> (unread_frames e \<noteq> [] \<longrightarrow> cq (deliver e) \<noteq> [])"
  proof (cases "is = [] \<or> inbox e = []")
    case True
    then have "deliver e = e"
      using s by (auto simp: deliver_def stocked_with_def split: list.splits)
    moreover have "unread_frames e \<noteq> [] \<longrightarrow> cq e \<noteq> []"
      using True s by (auto simp: unread_frames_def stocked_with_def)
    ultimately show ?thesis
      using assms(1) by simp
  next
    case False
    then obtain i is' m ms where "is = i # is'" "inbox e = m # ms"
      by (auto simp: neq_Nil_conv)
    then show ?thesis
      using deliver_stocked_with [of bs ks i is' e m ms] s assms(2) by (auto simp: stocked_def)
  qed
  then show "stocked bs (deliver e)" "unread_frames (deliver e) = unread_frames e"
    "unread_frames e \<noteq> [] \<Longrightarrow> cq (deliver e) \<noteq> []"
    by simp_all
qed

lemma await_arrives:
  assumes "error_free evs" "stocked bs e" "bs < 2 ^ 32" "unread_frames e \<noteq> []" "Suc n \<le> turns Deliver (cq e \<noteq> []) evs"
  shows "\<exists>e' k ks is evs'. await evs e = Some (True, int k, e'\<lparr>cq := map arrived ks, schedule := evs'\<rparr>) \<and>
    stocked_with bs (k # ks) is e' \<and> unread_frames e' = unread_frames e \<and> error_free evs' \<and> n \<le> rounds Deliver evs'"
  using assms
proof (induction evs arbitrary: e)
  case (Cons ev evs)
  obtain ks "is" where s: "stocked_with bs ks is e"
    using Cons.prems(2) by (auto simp: stocked_def)
  show ?case
  proof (cases ev)
    case Deliver
    have "turns Deliver (cq e \<noteq> []) (Deliver # evs) = turns Deliver True evs"
      by (cases "cq e = []") simp_all
    then show ?thesis
      using Cons.IH [of "deliver e"] Cons.prems Deliver deliver_stocked [OF Cons.prems(2,3)] by simp
  next
    case (Complete ok)
    have "complete ok e = e"
      using s by (simp add: complete_def stocked_with_def idle_def)
    moreover have "turns Deliver (cq e \<noteq> []) (Complete ok # evs) = turns Deliver (cq e \<noteq> []) evs"
      by (cases "cq e = []") simp_all
    ultimately show ?thesis
      using Cons.IH [of e] Cons.prems Complete by simp
  next
    case Poll
    show ?thesis
    proof (cases ks)
      case Nil
      then have "cq e = []"
        using s by (simp add: stocked_with_def)
      then show ?thesis
        using Cons.IH [of e] Cons.prems Poll by simp
    next
      case (Cons k ks')
      then have "cq e = arrived k # map arrived ks'"
        using s by (simp add: stocked_with_def)
      moreover have "low32 (recv_wr_id (int k)) = int k"
        using stocked_low32(1) [OF s, of k] Cons by simp
      ultimately show ?thesis
        using Poll Cons.prems s Cons
        by (intro exI [of _ e] exI [of _ k] exI [of _ ks'] exI [of _ "is"] exI [of _ evs]) (simp add: arrived_def)
    qed
  qed (use Cons.prems in simp)
qed simp

text \<open>A receiver that can receive \<open>n\<close> more frames.\<close>

definition recvable :: "nat \<Rightarrow> nat \<Rightarrow> endpoint \<Rightarrow> bool" where
  "recvable n bs e \<longleftrightarrow> stocked bs e \<and> error_free (schedule e) \<and> n \<le> turns Deliver (cq e \<noteq> []) (schedule e)"

lemma RecvBufferPool_ok:
  assumes r: "recvable (Suc n) bs e" and bs: "bs < 2 ^ 32" and u: "unread_frames e = framed data # rest"
  shows "\<exists>e'. RecvBufferPoolInternal (length data) e = Some (True, data, e') \<and> unread_frames e' = rest \<and> recvable n bs e'"
proof -
  obtain ks0 is0 where s0: "stocked_with bs ks0 is0 e"
    using r by (auto simp: recvable_def stocked_def)
  obtain e1 k ks "is" evs where a: "await (schedule e) e = Some (True, int k, e1\<lparr>cq := map arrived ks, schedule := evs\<rparr>)"
      and s: "stocked_with bs (k # ks) is e1" and u1: "unread_frames e1 = framed data # rest"
      and evs: "error_free evs" "n \<le> rounds Deliver evs"
    using await_arrives [of "schedule e" bs e n] r bs u by (auto simp: recvable_def)
  note k = stocked_low32 [OF s, of k, simplified]
  obtain d x where d: "heap e1 (Pool k) = framed d @ x"
    using s by (auto simp: stocked_with_def)
  have "data = d" and rest: "map (\<lambda>(_, wr). frame_in e1 wr) (map arrived ks) @ inbox e1 = rest"
    using u1 s frame_in_framed(1) [OF s _ d bs] by (auto simp: unread_frames_def stocked_with_def arrived_def)
  then have size: "header_size (framed data @ x) = length data" and d: "heap e1 (Pool k) = framed data @ x"
    using frame_in_framed(2) [OF s _ d bs] d by simp_all
  have b: "buf_data (buffers e1 ! k) = Pool k" "buf_size (buffers e1 ! k) = bs" "buf_id (buffers e1 ! k) = int k" "calls e1 = []"
    using s k(2) by (auto simp: stocked_with_def idle_def pool_ok_def)
  let ?e2 = "e1\<lparr>cq := map arrived ks, schedule := evs, recv_queue := map (request bs) (is @ [k])\<rparr>"
  have "PollCompletion e = Some (True, int k, e1\<lparr>cq := map arrived ks, schedule := evs\<rparr>)"
    using PollCompletion_awaits [of e] a r s0 by (simp add: recvable_def error_free_def stocked_with_def idle_def)
  then have "RecvBufferPoolInternal (length data) e = Some (True, data, ?e2)"
    using b k(2) size d bs s
    by (simp add: RecvBufferPoolInternal_def post_recv_def verbs_call_def stocked_with_def request_def)
  moreover have s2: "stocked_with bs ks (is @ [k]) ?e2"
    using s by (auto simp: stocked_with_def idle_def pool_ok_def)
  moreover have "frame_in ?e2 wr = frame_in e1 wr" for wr
    by (simp add: frame_in_def)
  then have "unread_frames ?e2 = rest"
    using rest by (simp add: unread_frames_def)
  moreover have "n \<le> turns Deliver (ks \<noteq> []) evs"
    using evs(2) turns_mono [of Deliver evs] by (cases "ks = []") simp_all
  then have "recvable n bs ?e2"
    using s2 evs(1) by (auto simp: recvable_def stocked_def)
  ultimately show ?thesis
    by blast
qed

text \<open>The chunks of a message.\<close>

fun chop :: "nat \<Rightarrow> bytes \<Rightarrow> bytes list" where
  "chop mp xs = (if length xs \<le> mp \<or> mp = 0 then [xs] else take mp xs # chop mp (drop mp xs))"

declare chop.simps [simp del]

lemma concat_chop [simp]: "concat (chop mp xs) = xs"
  by (induction mp xs rule: chop.induct) (simp add: chop.simps)

lemma chop_not_Nil [simp]: "chop mp xs \<noteq> []"
  by (simp add: chop.simps)

lemma chop_step:
  assumes "0 < mp" "n = min (length data - offset) mp" "offset < length data"
  shows "chop mp (drop offset data) =
    take n (drop offset data) # (if offset + n < length data then chop mp (drop (offset + n) data) else [])"
  using assms by (subst chop.simps) (auto simp: min_def add.commute)

lemma send_chunks_ok:
  assumes "sendable (length (chop (bs - 8) (drop offset data)) + n) bs e" "bs < 2 ^ 32" "8 < bs" "offset < length data"
  shows "\<exists>e'. send_chunks (bs - 8) data offset e = Some (True, e') \<and>
    outbox e' = outbox e @ map framed (chop (bs - 8) (drop offset data)) \<and> sendable n bs e'"
  using assms
proof (induction "length data - offset" arbitrary: e offset rule: less_induct)
  case less
  define k where "k = min (length data - offset) (bs - 8)"
  define cs where "cs = (if offset + k < length data then chop (bs - 8) (drop (offset + k) data) else [])"
  have chop: "chop (bs - 8) (drop offset data) = take k (drop offset data) # cs"
    unfolding cs_def by (rule chop_step) (use less.prems in \<open>simp_all add: k_def\<close>)
  have k: "0 < k" "offset + k \<le> length data" "length (take k (drop offset data)) + 8 \<le> bs"
    using less.prems by (simp_all add: k_def)
  obtain e1 where s: "SendBufferPoolInternal (take k (drop offset data)) e = Some (True, e1)"
      and e1: "outbox e1 = outbox e @ [framed (take k (drop offset data))]" "sendable (length cs + n) bs e1"
    using SendBufferPool_ok [of "length cs + n" bs e "take k (drop offset data)"] less.prems(1,2) k(3) chop by auto
  have step: "send_chunks (bs - 8) data offset e = send_chunks (bs - 8) data (offset + k) e1"
    using s less.prems(4) by (simp add: send_chunks.simps [of _ _ offset] Let_def k_def)
  show ?case
  proof (cases "offset + k < length data")
    case True
    then show ?thesis
      using less.hyps [of "offset + k" e1] less.prems(2,3) k e1 step chop by (auto simp: cs_def)
  next
    case False
    then show ?thesis
      using e1 step chop k(2) by (auto simp: cs_def send_chunks.simps [of _ _ "length data"])
  qed
qed

lemma recv_chunks_ok:
  assumes "recvable (length (chop (bs - 8) (drop offset data)) + n) bs e" "bs < 2 ^ 32" "8 < bs" "offset < length data"
    and "unread_frames e = map framed (chop (bs - 8) (drop offset data)) @ rest"
  shows "\<exists>e'. recv_chunks (bs - 8) (length data) (take offset data) offset e = Some (True, data, e') \<and>
    unread_frames e' = rest \<and> recvable n bs e'"
  using assms
proof (induction "length data - offset" arbitrary: e offset rule: less_induct)
  case less
  define k where "k = min (length data - offset) (bs - 8)"
  define cs where "cs = (if offset + k < length data then chop (bs - 8) (drop (offset + k) data) else [])"
  have chop: "chop (bs - 8) (drop offset data) = take k (drop offset data) # cs"
    unfolding cs_def by (rule chop_step) (use less.prems in \<open>simp_all add: k_def\<close>)
  have k: "0 < k" "offset + k \<le> length data" "length (take k (drop offset data)) = k"
    using less.prems by (simp_all add: k_def)
  obtain e1 where s: "RecvBufferPoolInternal k e = Some (True, take k (drop offset data), e1)"
      and e1: "unread_frames e1 = map framed cs @ rest" "recvable (length cs + n) bs e1"
    using RecvBufferPool_ok [of "length cs + n" bs e "take k (drop offset data)"] less.prems(1,2,5) k(3) chop by auto
  have "take offset data @ take k (drop offset data) = take (offset + k) data"
    by (simp only: take_add)
  then have step: "recv_chunks (bs - 8) (length data) (take offset data) offset e =
      recv_chunks (bs - 8) (length data) (take (offset + k) data) (offset + k) e1"
    using s less.prems(4) by (simp add: recv_chunks.simps [of _ _ _ offset] Let_def k_def)
  show ?case
  proof (cases "offset + k < length data")
    case True
    then show ?thesis
      using less.hyps [of "offset + k" e1] less.prems(2,3) k e1 step chop by (auto simp: cs_def)
  next
    case False
    then show ?thesis
      using e1 step chop k(2) by (auto simp: cs_def recv_chunks.simps [of _ _ _ "length data"])
  qed
qed

lemma RDMA_Send_true:
  assumes r: "sendable (length (chop (bs - 8) data) + n) bs e" and bs: "bs < 2 ^ 32" "8 < bs"
  shows "\<exists>e'. RDMA_Send data e = Some (True, e') \<and> outbox e' = outbox e @ map framed (chop (bs - 8) data) \<and> sendable n bs e'"
proof -
  have e: "is_connected e" "\<not> enable_zero_copy e" "size_sub (buffer_size_config e) 8 = bs - 8"
    using r bs by (simp_all add: sendable_def quiet_def idle_def size_sub_le)
  show ?thesis
  proof (cases "length data \<le> bs - 8")
    case True
    then show ?thesis
      using SendBufferPool_ok [of n bs e data] r bs e by (auto simp: RDMA_Send_def chop.simps)
  next
    case False
    then have "data \<noteq> []"
      by auto
    with False show ?thesis
      using send_chunks_ok [of bs 0 data n e] r bs e by (auto simp: RDMA_Send_def Let_def)
  qed
qed

lemma RDMA_Recv_true:
  assumes r: "recvable (length (chop (bs - 8) data) + n) bs e" and bs: "bs < 2 ^ 32" "8 < bs"
    and u: "unread_frames e = map framed (chop (bs - 8) data) @ rest"
  shows "\<exists>e'. RDMA_Recv (length data) e = Some (True, data, e') \<and> unread_frames e' = rest \<and> recvable n bs e'"
proof -
  have e: "is_connected e" "\<not> enable_zero_copy e" "size_sub (buffer_size_config e) 8 = bs - 8"
    using r bs by (auto simp: recvable_def stocked_def stocked_with_def idle_def size_sub_le)
  show ?thesis
  proof (cases "length data \<le> bs - 8")
    case True
    then show ?thesis
      using RecvBufferPool_ok [of n bs e data rest] r bs e u by (auto simp: RDMA_Recv_def chop.simps)
  next
    case False
    then have "data \<noteq> []"
      by auto
    with False show ?thesis
      using recv_chunks_ok [of bs 0 data n e rest] r bs e u by (auto simp: RDMA_Recv_def Let_def)
  qed
qed

section \<open>Messages in one direction\<close>

abbreviation frames :: "nat \<Rightarrow> bytes \<Rightarrow> bytes list" where
  "frames bs data \<equiv> map framed (chop (bs - 8) data)"

definition frame_count :: "nat \<Rightarrow> bytes list \<Rightarrow> nat" where
  "frame_count bs ms = length (concat (map (frames bs) ms))"

lemma frame_count_Cons: "frame_count bs (m # ms) = length (chop (bs - 8) m) + frame_count bs ms"
  by (simp add: frame_count_def)

lemma length_chop_le: "0 < mp \<Longrightarrow> c \<in> set (chop mp xs) \<Longrightarrow> length c \<le> mp"
proof (induction mp xs rule: chop.induct)
  case (1 mp xs)
  then show ?case
    by (auto simp: chop.simps [of mp xs] split: if_splits)
qed

definition rdma_ready :: "nat \<Rightarrow> bytes list \<Rightarrow> endpoint \<Rightarrow> bool" where
  "rdma_ready bs ms e \<longleftrightarrow> 8 < bs \<and> bs < 2 ^ 32 \<and> sendable (frame_count bs ms) bs e"

definition rdma_expecting :: "nat \<Rightarrow> bytes list \<Rightarrow> endpoint \<Rightarrow> bool" where
  "rdma_expecting bs ms e \<longleftrightarrow> 8 < bs \<and> bs < 2 ^ 32 \<and> recvable (frame_count bs ms) bs e"

interpretation rdma_link: message_link RDMA_Send RDMA_Recv "frames bs" outbox unread_frames "rdma_ready bs" "rdma_expecting bs"
  for bs
proof
  fix m ms e
  assume "rdma_ready bs (m # ms) e"
  then show "\<exists>e'. RDMA_Send m e = Some (True, e') \<and> outbox e' = outbox e @ frames bs m \<and> rdma_ready bs ms e'"
    using RDMA_Send_true [of bs m "frame_count bs ms" e] by (auto simp: rdma_ready_def frame_count_Cons)
next
  fix m ms e rest
  assume "rdma_expecting bs (m # ms) e" "unread_frames e = frames bs m @ rest"
  then show "\<exists>e'. RDMA_Recv (length m) e = Some (True, m, e') \<and> unread_frames e' = rest \<and> rdma_expecting bs ms e'"
    using RDMA_Recv_true [of bs m "frame_count bs ms" e rest] by (auto simp: rdma_expecting_def frame_count_Cons)
qed

lemma posted_recvable:
  assumes "quiet bs b" "posted bs b" "8 < bs" "error_free (schedule b)" "n \<le> rounds Deliver (schedule b)"
    and "ws = concat (map (frames bs) ms)"
  shows "recvable n bs (b\<lparr>inbox := ws\<rparr>)" "unread_frames (b\<lparr>inbox := ws\<rparr>) = ws"
proof -
  obtain "is" where "recv_queue b = map (request bs) is" "is \<noteq> []" "distinct is" "set is \<subseteq> {..<length (buffers b)}"
    using assms(2) by (auto simp: posted_def)
  moreover have "length c + 8 \<le> bs" if "c \<in> set (chop (bs - 8) m)" for c m
    using length_chop_le [of "bs - 8" c m] that assms(3) by simp
  ultimately have "stocked_with bs [] is (b\<lparr>inbox := ws\<rparr>)"
    using assms(1,6) by (auto simp: stocked_with_def quiet_def idle_def pool_ok_def)
  then show "recvable n bs (b\<lparr>inbox := ws\<rparr>)"
    using assms(1,4,5) by (auto simp: recvable_def stocked_def quiet_def)
  show "unread_frames (b\<lparr>inbox := ws\<rparr>) = ws"
    using assms(1) by (simp add: unread_frames_def quiet_def)
qed

text \<open>
  C10: With a pool of buffers of more than eight bytes, messages of any sizes that go in one
  direction over an RDMA connection arrive as they were sent, in order. Each is cut into frames
  that fit a buffer; the receiver joins them again and puts every buffer it has read back in the
  receive queue, so the pool never runs dry. This holds for busy polling and for waiting on
  events, on either side, and whenever the adapter acts between two polls: completions may be
  late, and messages may come in before the receiver asks for them and queue up in its completion
  queue. What is assumed: nothing goes the other way (nothing is on its way to the sender, and no
  send of the receiver is pending), polls, sends and library calls succeed, and the adapter gets
  far enough: for each frame it completes the send, or delivers a frame, and is polled afterwards.
\<close>

theorem RDMA_messages_roundtrip:
  assumes "8 < bs" "bs < 2 ^ 32" "quiet bs a" "first_free (buffers a) \<noteq> None" "outbox a = []" "inbox a = []"
    and "error_free (schedule a)" "frame_count bs ms \<le> rounds (Complete True) (schedule a)"
    and "quiet bs b" "posted bs b" "error_free (schedule b)" "frame_count bs ms \<le> rounds Deliver (schedule b)"
  shows "\<exists>a'. send_messages RDMA_Send ms a = Some (True, a') \<and>
    (\<exists>b'. recv_messages RDMA_Recv (map length ms) (b\<lparr>inbox := outbox a'\<rparr>) = Some (True, ms, b') \<and> unread_frames b' = [])"
proof (rule rdma_link.carries [where put = "\<lambda>w b. b\<lparr>inbox := w\<rparr>" and bs = bs])
  show "rdma_ready bs ms a"
    using assms(1-8) by (simp add: rdma_ready_def sendable_def)
  fix ws assume "ws = concat (map (frames bs) ms)"
  then show "unread_frames (b\<lparr>inbox := ws\<rparr>) = ws" "rdma_expecting bs ms (b\<lparr>inbox := ws\<rparr>)"
    using posted_recvable [OF assms(9,10,1,11,12)] assms(1,2) by (simp_all add: rdma_expecting_def)
qed (rule assms(5))

text \<open>An endpoint as the code sets it up, with a pool of \<open>n\<close> buffers.\<close>

definition some_endpoint :: "nat \<Rightarrow> nat \<Rightarrow> nic_event list \<Rightarrow> endpoint" where
  "some_endpoint n bs evs =
     \<lparr>is_connected = True, enable_zero_copy = False, enable_busy_polling = True, buffer_size_config = bs,
      buffers = map (\<lambda>i. \<lparr>buf_data = Pool i, buf_size = bs, buf_mr = True, buf_id = int i, buf_in_use = False\<rparr>) [0..<n],
      heap = (\<lambda>_. replicate bs 0), live_mrs = [], cq = [],
      recv_queue = map (\<lambda>i. (recv_wr_id (int i), [(Pool i, bs)])) [0..<n],
      unacked = [], inbox = [], outbox = [], schedule = evs, calls = []\<rparr>"

lemma some_endpoint_quiet: "n < 2 ^ 31 \<Longrightarrow> quiet bs (some_endpoint n bs evs)"
  by (simp add: quiet_def idle_def pool_ok_def some_endpoint_def)

lemma some_endpoint_posted: "0 < n \<Longrightarrow> posted bs (some_endpoint n bs evs)"
  by (auto simp: posted_def request_def some_endpoint_def intro!: exI [of _ "[0..<n]"])

text \<open>Three messages in four frames: the sender waits for events; two frames come in early.\<close>

lemma RDMA_messages_roundtrip_witness:
  "\<exists>a'. send_messages RDMA_Send [[1, 2, 3], [], [4]] ((some_endpoint 2 10
        [Complete True, Poll, Poll, Poll, Complete True, Complete True, Poll, Complete True, Poll, Poll, Complete True, Poll])
        \<lparr>enable_busy_polling := False\<rparr>) = Some (True, a') \<and>
    (\<exists>b'. recv_messages RDMA_Recv (map length [[1, 2, 3], [], [4 :: byte]])
        ((some_endpoint 2 10 [Poll, Deliver, Deliver, Poll, Deliver, Poll, Deliver, Poll, Poll, Deliver, Poll])\<lparr>inbox := outbox a'\<rparr>) =
          Some (True, [[1, 2, 3], [], [4]], b') \<and> unread_frames b' = [])"
proof (rule RDMA_messages_roundtrip [of 10])
  let ?a = "(some_endpoint 2 10
      [Complete True, Poll, Poll, Poll, Complete True, Complete True, Poll, Complete True, Poll, Poll, Complete True, Poll])
      \<lparr>enable_busy_polling := False\<rparr>"
  show "quiet 10 ?a"
    using some_endpoint_quiet [of 2 10] by (simp add: quiet_def idle_def pool_ok_def)
  show "first_free (buffers ?a) \<noteq> None"
    by (simp add: some_endpoint_def upt_rec)
  have "frame_count 10 [[1, 2, 3], [], [4]] = 4"
    by (simp add: frame_count_def chop.simps)
  then show "frame_count 10 [[1, 2, 3], [], [4]] \<le> rounds (Complete True) (schedule ?a)"
    "frame_count 10 [[1, 2, 3], [], [4]] \<le> rounds Deliver
       (schedule (some_endpoint 2 10 [Poll, Deliver, Deliver, Poll, Deliver, Poll, Deliver, Poll, Poll, Deliver, Poll]))"
    by (simp_all add: some_endpoint_def)
qed (simp_all add: some_endpoint_quiet some_endpoint_posted, simp_all add: some_endpoint_def)

section \<open>When it fails\<close>

text \<open>
  C13: Two ends that send to each other first and receive afterwards can both fail, with nothing
  lost on the wire. \<open>Send\<close> waits for any completion: it takes that of the message that has just
  arrived for its own. The completion of the send then looks to \<open>Recv\<close> like a message in buffer
  number one, where there is none.
\<close>

theorem RDMA_crossing_fails:
  assumes "length data + 8 \<le> bs" "length data' + 8 \<le> bs" "bs < 2 ^ 32" "0 < length data'" "1 < n" "n < 2 ^ 31"
  shows "\<exists>e. RDMA_Send data ((some_endpoint n bs [Deliver, Poll, Complete True, Poll])\<lparr>inbox := [framed data']\<rparr>) =
      Some (True, e) \<and> outbox e = [framed data] \<and> (\<exists>e'. RDMA_Recv (length data') e = Some (False, [], e'))"
proof -
  let ?e = "(some_endpoint n bs [Deliver, Poll, Complete True, Poll])\<lparr>inbox := [framed data']\<rparr>"
  let ?f = "in_flight 0 data ?e"
  have up: "[0..<n] = 0 # 1 # [2..<n]"
    using assms(5) by (simp add: upt_rec numeral_2_eq_2)
  have q: "quiet bs ?e"
    using some_endpoint_quiet [OF assms(6)] by (simp add: quiet_def idle_def pool_ok_def)
  have free: "first_free (buffers ?e) = Some 0"
    by (simp add: some_endpoint_def up)
  obtain wr rq where rq: "recv_queue ?f = (wr, [(Pool 0, bs)]) # rq"
    by (simp add: in_flight_def some_endpoint_def up)
  let ?g = "?f\<lparr>heap := scatter [(Pool 0, bs)] (framed data') (heap ?f), recv_queue := rq, inbox := [], schedule := [Complete True, Poll]\<rparr>"
  let ?e1 = "?g\<lparr>buffers := buffers ?e\<rparr>"
  have "PollCompletion ?f = Some (True, low32 wr, ?g)"
    using rq assms by (subst PollCompletion_awaits) (simp_all add: in_flight_def some_endpoint_def deliver_def add.commute)
  moreover have "ReleaseBuffer (int 0) ?g = ?e1"
    by (rule ReleaseBuffer_in_flight [OF free, where data = data]) simp
  ultimately have "SendBufferPoolInternal data ?e = Some (True, ?e1)"
    by (simp add: SendBufferPool_posts [OF q assms(3) free assms(1)])
  moreover have conn: "is_connected ?e" "\<not> enable_zero_copy ?e" "size_sub (buffer_size_config ?e) 8 = bs - 8"
    using assms(1,3) by (simp_all add: some_endpoint_def size_sub_le)
  moreover have le: "length data \<le> bs - 8" "length data' \<le> bs - 8"
    using assms(1,2) by simp_all
  ultimately have send: "RDMA_Send data ?e = Some (True, ?e1)"
    by (simp only: RDMA_Send_def Let_def if_True if_False not_True_eq_False)
  have "PollCompletion ?e1 = Some (True, low32 1, ?e1\<lparr>unacked := [], schedule := []\<rparr>)"
    by (subst PollCompletion_awaits) (simp_all add: in_flight_def some_endpoint_def complete_def)
  moreover have "low32 1 = 1"
    by (simp add: low32_def)
  moreover have "of_le (replicate k 0) = (0 :: 64 word)" for k
    by (induction k) auto
  then have "header_size (heap ?e1 (Pool 1)) = 0"
    by (simp add: header_size_def of_be_def in_flight_def some_endpoint_def)
  moreover have "buf_data (buffers ?e1 ! 1) = Pool 1" "length (buffers ?e1) = n"
    using assms(5) by (simp_all add: some_endpoint_def up)
  ultimately have "RecvBufferPoolInternal (length data') ?e1 = Some (False, [], ?e1\<lparr>unacked := [], schedule := []\<rparr>)"
    using assms(4,5) by (simp add: RecvBufferPoolInternal_def)
  then have "RDMA_Recv (length data') ?e1 = Some (False, [], ?e1\<lparr>unacked := [], schedule := []\<rparr>)"
    using conn le(2) by (simp add: RDMA_Recv_def in_flight_def Let_def)
  then show ?thesis
    using send by (auto simp: in_flight_def some_endpoint_def)
qed

lemma RDMA_crossing_fails_witness:
  "\<exists>e. RDMA_Send [1, 2] ((some_endpoint 4 16 [Deliver, Poll, Complete True, Poll])\<lparr>inbox := [framed [3, 4]]\<rparr>) =
      Some (True, e) \<and> outbox e = [framed [1, 2]] \<and> (\<exists>e'. RDMA_Recv (length [3, 4 :: byte]) e = Some (False, [], e'))"
  by (rule RDMA_crossing_fails) simp_all

lemma send_chunks_0: "offset < length data \<Longrightarrow> send_chunks 0 data offset e \<noteq> Some (True, e')"
proof (induction "0 :: nat" data offset e rule: send_chunks.induct)
  case (1 data offset e)
  then show ?case
    by (auto simp: send_chunks.simps [of _ _ offset e] split: option.splits)
qed

text \<open>
  With buffers of eight bytes, which leave no room for a payload, \<open>Send\<close> of a message that is
  not empty never returns true: it sends empty frames for as long as they complete.
\<close>

theorem RDMA_Send_buffer_size_8:
  assumes "buffer_size_config e = 8" "\<not> enable_zero_copy e" "data \<noteq> []"
  shows "RDMA_Send data e \<noteq> Some (True, e')"
  using send_chunks_0 [of 0 data] assms by (simp add: RDMA_Send_def size_sub_le)

lemma RDMA_Send_buffer_size_8_witness:
  "RDMA_Send [1] (some_endpoint 2 8 [Complete True, Poll, Complete True, Poll, Complete True, Poll]) \<noteq> Some (True, some_endpoint 2 8 [])"
  by (rule RDMA_Send_buffer_size_8) (simp_all add: some_endpoint_def)

end
