(* ===== verification/RdmaConnections.thy ===== *)
theory RdmaConnections
  imports RdmaOwnership RdmaMessages Bootstrap
begin

text \<open>
  What \<open>Connect\<close> and \<open>Accept\<close> achieve: the two ends know each other's queue pair, and an
  established connection is ready for messages. And a defect: accepted connections close the
  listener they came from.
\<close>

section \<open>Exchanging queue pair information\<close>

definition on_wire :: "bytes \<Rightarrow> bytes" where
  "on_wire data = be_bytes 4 (of_nat (length data) :: 32 word) @ data"

lemma SendAll_on_wire:
  assumes "replies s = r # rs" "4 \<le> r" "willing (length data + m) (s\<lparr>replies := rs\<rparr>)"
  shows "\<exists>s'. SendAll fd data s = (True, s') \<and> wire_out s' = (wire_out s)(fd := wire_out s fd @ on_wire data) \<and>
    wire_in s' = wire_in s \<and> willing m s'"
proof -
  let ?hdr = "be_bytes 4 (of_nat (length data) :: 32 word)"
  let ?s = "s\<lparr>replies := rs, wire_out := (wire_out s)(fd := wire_out s fd @ ?hdr)\<rparr>"
  have hdr: "sys_send fd ?hdr s = (4, ?s)"
  proof -
    have "min (nat r) 4 = 4"
      using assms(2) by simp
    then show ?thesis
      using assms(1,2) by (simp add: sys_send_def sys_reply_def)
  qed
  obtain s' where s': "send_loop fd data 0 ?s = (True, s')" "willing m s'"
    using send_loop_true [of data 0 m ?s fd] assms(3) by (auto simp: willing_def)
  have "wire_out s' = (wire_out s)(fd := wire_out s fd @ on_wire data)" "wire_in s' = wire_in s"
    using send_loop_wires [OF s'(1)] by (auto simp: on_wire_def)
  then show ?thesis
    using hdr s' by (simp add: SendAll_def)
qed

lemma RecvAll_on_wire:
  assumes "replies s = r1 # r2 # rs" "0 < r1" "0 < r2" "wire_in s fd = on_wire data @ rest"
    and "0 < length data" "length data < 2 ^ 32"
  shows "RecvAll fd s = (True, data, s\<lparr>replies := rs, wire_in := (wire_in s)(fd := rest)\<rparr>)"
proof -
  let ?hdr = "be_bytes 4 (of_nat (length data) :: 32 word)"
  let ?s = "s\<lparr>replies := r2 # rs, wire_in := (wire_in s)(fd := data @ rest)\<rparr>"
  have "sys_recv True fd 4 s = (4, ?hdr, ?s)"
    using assms(1,2,4) by (simp add: sys_recv_def sys_reply_def on_wire_def)
  moreover have "sys_recv True fd (length data) ?s =
      (int (length data), data, s\<lparr>replies := rs, wire_in := (wire_in s)(fd := rest)\<rparr>)"
    using assms(3) by (simp add: sys_recv_def sys_reply_def)
  ultimately show ?thesis
    using assms(5,6) by (simp add: RecvAll_def unat_of_nat recv_loop.simps [of _ _ _ "[]"] recv_loop.simps [of _ _ _ data])
qed

text \<open>What a transport has to know of its peer.\<close>

definition knows :: "RdmaResources \<Rightarrow> RdmaQpInfo \<Rightarrow> bool" where
  "knows r q \<longleftrightarrow> remote_qpn r = qpn q \<and> remote_lid r = lid q \<and> remote_gid r = gid q \<and>
     remote_gid_index r = sint (gid_index q)"

text \<open>A host whose port can be asked, with addresses of the right size.\<close>

definition good_port :: "host \<Rightarrow> bool" where
  "good_port h \<longleftrightarrow> answers h = [] \<and> (\<forall>i g. gid_table h i = Some g \<longrightarrow> length g = 16)"

lemma local_qp_info_ok: "good_port h \<Longrightarrow> qp_info_ok (local_qp_info r h)"
proof -
  assume g: "good_port h"
  have "length (snd (find_gid q xs b)) = 16" if "\<forall>i g. q i = Some g \<longrightarrow> length g = 16" "length (snd b) = 16" for q xs b
    using that by (induction xs arbitrary: b) (auto split: option.splits)
  from this [of "gid_table h" "(-1, replicate 16 0)" "[0..<16]"] show ?thesis
    using g by (auto simp: qp_info_ok_def local_qp_info_def FindBestGidIndex_def good_port_def split: prod.splits option.splits)
qed

lemma save_remote_knows:
  "qp_info_ok q \<Longrightarrow> save_remote (EncodeQpInfo q []) r h = (r', h') \<Longrightarrow> knows r' q \<and> h' = h \<and> res_qp r' = res_qp r"
  using DecodeQpInfo_EncodeQpInfo [of q "[]" "[]"] by (auto simp: save_remote_def knows_def)

text \<open>System calls that work, and take a header in one piece.\<close>

definition prompt :: "os \<Rightarrow> bool" where
  "prompt s \<longleftrightarrow> 29 \<le> length (replies s) \<and> (\<forall>r\<in>set (replies s). 4 \<le> r)"

lemma exchange_message:
  assumes "good_port h"
  shows "length (EncodeQpInfo (local_qp_info r h) []) = 26"
  using length_EncodeQpInfo [OF local_qp_info_ok [OF assms]] by simp

lemma prompt_replies: "prompt s \<Longrightarrow> \<exists>r1 r2 r3 rs. replies s = r1 # r2 # r3 # rs \<and> 4 \<le> r1 \<and> 4 \<le> r2 \<and> 4 \<le> r3 \<and>
  26 \<le> length rs \<and> (\<forall>r\<in>set rs. 0 < r)"
  by (cases "replies s"; cases "tl (replies s)"; cases "tl (tl (replies s))") (force simp: prompt_def)+

lemma ExchangeQPInfo_initiator:
  assumes "good_port h" "qp_info_ok q" "prompt (sockets h)" "wire_in (sockets h) fd = on_wire (EncodeQpInfo q [])"
  shows "\<exists>r' h'. ExchangeQPInfo fd True r h = (True, r', h') \<and> knows r' q \<and>
    wire_out (sockets h') fd = wire_out (sockets h) fd @ on_wire (EncodeQpInfo (local_qp_info r h) [])"
proof -
  let ?m = "EncodeQpInfo (local_qp_info r h) []"
  let ?r = "r\<lparr>local_gid_index := fst (FindBestGidIndex (gid_table h))\<rparr>"
  obtain r1 rs where rs: "replies (sockets h) = r1 # rs" "4 \<le> r1" "28 \<le> length rs" "\<forall>r\<in>set rs. 0 < r"
    using prompt_replies [OF assms(3)] by fastforce
  have "willing (length ?m + 2) (sockets h\<lparr>replies := rs\<rparr>)"
    using rs exchange_message [OF assms(1)] by (simp add: willing_def)
  then obtain s1 where s1: "SendAll fd ?m (sockets h) = (True, s1)" "wire_in s1 = wire_in (sockets h)" "willing 2 s1"
      "wire_out s1 = (wire_out (sockets h))(fd := wire_out (sockets h) fd @ on_wire ?m)"
    using SendAll_on_wire [OF rs(1,2)] by blast
  obtain r2 r3 rs' where "replies s1 = r2 # r3 # rs'" "0 < r2" "0 < r3"
    using s1(3) by (cases "replies s1"; cases "tl (replies s1)") (auto simp: willing_def)
  then obtain s2 where s2: "RecvAll fd s1 = (True, EncodeQpInfo q [], s2)" "wire_out s2 = wire_out s1"
    using RecvAll_on_wire [of s1 r2 r3 rs' fd "EncodeQpInfo q []" "[]"] s1(2) assms(4) length_EncodeQpInfo [OF assms(2), of "[]"]
    by simp
  obtain r' h' where "save_remote (EncodeQpInfo q []) ?r (h\<lparr>sockets := s2\<rparr>) = (r', h')"
    by fastforce
  moreover from this have "knows r' q" "h' = h\<lparr>sockets := s2\<rparr>"
    using save_remote_knows [OF assms(2)] by blast+
  moreover have "local_qp_info ?r h = local_qp_info r h"
    by (simp add: local_qp_info_def)
  ultimately show ?thesis
    using assms(1) s1 s2 by (simp add: ExchangeQPInfo_calls good_port_def answer_def)
qed

lemma ExchangeQPInfo_acceptor:
  assumes "good_port h" "qp_info_ok q" "prompt (sockets h)" "wire_in (sockets h) fd = on_wire (EncodeQpInfo q [])"
  shows "\<exists>r' h'. ExchangeQPInfo fd False r h = (True, r', h') \<and> knows r' q \<and>
    wire_out (sockets h') fd = wire_out (sockets h) fd @ on_wire (EncodeQpInfo (local_qp_info r h) [])"
proof -
  let ?m = "EncodeQpInfo (local_qp_info r h) []" and ?s = "sockets h"
  let ?r = "r\<lparr>local_gid_index := fst (FindBestGidIndex (gid_table h))\<rparr>"
  obtain r1 r2 r3 rs where rs: "replies ?s = r1 # r2 # r3 # rs" "4 \<le> r1" "4 \<le> r2" "4 \<le> r3" "26 \<le> length rs" "\<forall>r\<in>set rs. 0 < r"
    using prompt_replies [OF assms(3)] by blast
  let ?s1 = "?s\<lparr>replies := r3 # rs, wire_in := (wire_in ?s)(fd := [])\<rparr>"
  have recv: "RecvAll fd ?s = (True, EncodeQpInfo q [], ?s1)"
    by (rule RecvAll_on_wire) (use rs assms(4) length_EncodeQpInfo [OF assms(2), of "[]"] in auto)
  have "willing (length ?m + 0) (?s1\<lparr>replies := rs\<rparr>)"
    using rs exchange_message [OF assms(1)] by (simp add: willing_def)
  then obtain s2 where s2: "SendAll fd ?m ?s1 = (True, s2)" "wire_out s2 = (wire_out ?s1)(fd := wire_out ?s1 fd @ on_wire ?m)"
    using SendAll_on_wire [of ?s1 r3 rs ?m 0 fd] rs(4) by auto
  obtain r' h' where "save_remote (EncodeQpInfo q []) ?r (h\<lparr>sockets := s2\<rparr>) = (r', h')"
    by fastforce
  moreover from this have "knows r' q" "h' = h\<lparr>sockets := s2\<rparr>"
    using save_remote_knows [OF assms(2)] by blast+
  moreover have "local_qp_info ?r h = local_qp_info r h"
    by (simp add: local_qp_info_def)
  ultimately show ?thesis
    using assms(1) recv s2 by (simp add: ExchangeQPInfo_calls good_port_def answer_def)
qed

text \<open>
  The two ends of a connection run the same conversation at the same time: rank zero is the
  initiator, rank one the acceptor. \<open>talk_io\<close> makes a conversation a program of the network
  (theory \<open>Network\<close>), where a call to \<open>RecvAll\<close> blocks until the other end has sent.
\<close>

primrec talk_io :: "'a talk \<Rightarrow> int \<Rightarrow> 'a io" where
  "talk_io (Return a) peer = io_return a"
| "talk_io (Say data k) peer = bind_prog (io_send_all peer data) (\<lambda>r. talk_io (k (\<exists>u. r = Inr u)) peer)"
| "talk_io (Hear k) peer = bind_prog (io_recv_all peer)
     (\<lambda>r. case r of Inl _ \<Rightarrow> talk_io (k False []) peer | Inr data \<Rightarrow> talk_io (k True data) peer)"

definition qp_end :: "(int \<Rightarrow> RdmaResources) \<Rightarrow> (int \<Rightarrow> host) \<Rightarrow> int \<Rightarrow> (bool \<times> RdmaResources \<times> host) io" where
  "qp_end res h r = talk_io (qp_talk (r = 0) (res r) (h r)) (1 - r)"

text \<open>What an end has saved when it has heard of \<open>q\<close>.\<close>

definition introduced :: "RdmaQpInfo \<Rightarrow> RdmaResources \<Rightarrow> host \<Rightarrow> RdmaResources" where
  "introduced q r h = r\<lparr>local_gid_index := fst (FindBestGidIndex (gid_table h)), remote_qpn := qpn q,
     remote_lid := lid q, remote_gid := gid q, remote_gid_index := sint (gid_index q)\<rparr>"

lemma save_remote_introduced:
  "qp_info_ok q \<Longrightarrow> save_remote (EncodeQpInfo q []) (r\<lparr>local_gid_index := fst (FindBestGidIndex (gid_table h))\<rparr>) h' =
     (introduced q r h, h')"
  using DecodeQpInfo_EncodeQpInfo [of q "[]" "[]"] by (simp add: save_remote_def introduced_def)

lemma knows_introduced [simp]: "knows (introduced q r h) q"
  by (simp add: knows_def introduced_def)

lemma local_qp_info_gid_index [simp]: "local_qp_info (r\<lparr>local_gid_index := i\<rparr>) h = local_qp_info r h"
  by (simp add: local_qp_info_def)

lemma qp_talk_initiator:
  assumes "good_port h"
  shows "\<exists>k. qp_talk True r h = Say (EncodeQpInfo (local_qp_info r h) []) k \<and>
    (\<exists>k'. k True = Hear k' \<and> (\<forall>q. qp_info_ok q \<longrightarrow> k' True (EncodeQpInfo q []) = Return (True, introduced q r h, h)))"
  using assms by (simp add: qp_talk_def good_port_def answer_def save_remote_introduced Let_def)

lemma qp_talk_acceptor:
  assumes "good_port h"
  shows "\<exists>k. qp_talk False r h = Hear k \<and> (\<forall>q. qp_info_ok q \<longrightarrow>
    (\<exists>k'. k True (EncodeQpInfo q []) = Say (EncodeQpInfo (local_qp_info r h) []) k' \<and> k' True = Return (True, introduced q r h, h)))"
  using assms by (simp add: qp_talk_def good_port_def answer_def save_remote_introduced Let_def)

lemma syncs_said:
  assumes "f a = talk_io (Say data k) b" "f b = talk_io (Hear k') a" "a \<noteq> b" "healthy N" "length data = 26"
  shows "syncs N f (f(a := talk_io (k True) b, b := talk_io (k' True data) a))"
proof -
  have "data \<noteq> []"
    using assms(5) by auto
  then show ?thesis
    using syncs_message_result [of f a b data "\<lambda>r. talk_io (k (\<exists>u. r = Inr u)) b" _ N, OF _ assms(2) [unfolded talk_io.simps]] assms
    by simp
qed

text \<open>
  C34: When the initiator and the acceptor of a connection exchange their queue pair information
  over a TCP connection that works, both return true and each knows the number, LID, GID and GID
  index of the other's queue pair, however the bytes are scheduled and even if the connection
  takes no more than one byte at a time: neither waits for ever, because one of them sends first
  and the other receives first.
\<close>

theorem ExchangeQPInfo_delivers:
  assumes "healthy N" "good_port (h 0)" "good_port (h 1)"
  shows "\<exists>res'. delivers N 2 (qp_end res h) (\<lambda>r. Inr (True, res' r, h r)) \<and>
    knows (res' 0) (local_qp_info (res 1) (h 1)) \<and> knows (res' 1) (local_qp_info (res 0) (h 0))"
proof (intro exI conjI)
  let ?q = "\<lambda>r. local_qp_info (res r) (h r)"
  let ?res' = "\<lambda>r. introduced (?q (1 - r)) (res r) (h r)"
  let ?f = "world 2 (qp_end res h)"
  show "knows (?res' 0) (?q 1)" "knows (?res' 1) (?q 0)"
    by simp_all
  have q: "qp_info_ok (?q 0)" "qp_info_ok (?q 1)" and len: "length (EncodeQpInfo (?q 0) []) = 26" "length (EncodeQpInfo (?q 1) []) = 26"
    using assms local_qp_info_ok exchange_message by blast+
  obtain ki ki' where i: "?f 0 = talk_io (Say (EncodeQpInfo (?q 0) []) ki) 1" "ki True = Hear ki'"
      "ki' True (EncodeQpInfo (?q 1) []) = Return (True, ?res' 0, h 0)"
    using qp_talk_initiator [OF assms(2), of "res 0"] q(2) by (auto simp: qp_end_def)
  obtain ka ka' where a: "?f 1 = talk_io (Hear ka) 0" "ka True (EncodeQpInfo (?q 0) []) = Say (EncodeQpInfo (?q 1) []) ka'"
      "ka' True = Return (True, ?res' 1, h 1)"
    using qp_talk_acceptor [OF assms(3), of "res 1"] q(1) by (auto simp: qp_end_def)
  let ?f1 = "?f(0 := talk_io (Hear ki') 1, 1 := talk_io (Say (EncodeQpInfo (?q 1) []) ka') 0)"
  have "syncs N ?f ?f1"
    using syncs_said [OF i(1) a(1) _ assms(1) len(1)] i(2) a(2) by simp
  moreover have "syncs N ?f1 (?f1(1 := talk_io (ka' True) 0, 0 := talk_io (ki' True (EncodeQpInfo (?q 1) [])) 1))"
    by (rule syncs_said) (use assms(1) len(2) in simp_all)
  ultimately have "syncs N ?f (?f1(1 := talk_io (ka' True) 0, 0 := talk_io (ki' True (EncodeQpInfo (?q 1) [])) 1))"
    by (rule syncs_trans)
  moreover have "?f1(1 := talk_io (ka' True) 0, 0 := talk_io (ki' True (EncodeQpInfo (?q 1) [])) 1) =
      world 2 (\<lambda>r. Ret (Inr (True, ?res' r, h r)))"
    unfolding a(3) i(3) by (auto simp: world_def fun_eq_iff)
  ultimately show "delivers N 2 (qp_end res h) (\<lambda>r. Inr (True, ?res' r, h r))"
    by (simp only: delivers_by_schedule)
qed

text \<open>A host whose port has the given LID.\<close>

definition port_host :: "16 word \<Rightarrow> host" where
  "port_host l = some_host\<lparr>port_lid := l\<rparr>"

lemma ExchangeQPInfo_delivers_witness:
  "\<exists>res'. delivers tight_net 2
      (qp_end (\<lambda>r. new_RdmaResources\<lparr>res_qp := Some (5 + nat r)\<rparr>) (\<lambda>r. port_host (1 + of_int r)))
      (\<lambda>r. Inr (True, res' r, port_host (1 + of_int r))) \<and>
    knows (res' 0) (local_qp_info (new_RdmaResources\<lparr>res_qp := Some 6\<rparr>) (port_host 2)) \<and>
    knows (res' 1) (local_qp_info (new_RdmaResources\<lparr>res_qp := Some 5\<rparr>) (port_host 1))"
  using ExchangeQPInfo_delivers [of tight_net "\<lambda>r. port_host (1 + of_int r)" "\<lambda>r. new_RdmaResources\<lparr>res_qp := Some (5 + nat r)\<rparr>"]
  by (simp add: port_host_def some_host_def good_port_def)

section \<open>An established connection\<close>

lemma post_all_true:
  "post_all bs e = (True, e') \<Longrightarrow> recv_queue e' = recv_queue e @
     map (\<lambda>b. (recv_wr_id (buf_id b), [(buf_data b, sge_length (buf_size b))])) bs"
proof (induction bs arbitrary: e)
  case (Cons b bs)
  obtain e1 where e1: "post_recv (recv_wr_id (buf_id b)) [(buf_data b, sge_length (buf_size b))] e = (True, e1)" "post_all bs e1 = (True, e')"
    using Cons.prems by (auto split: prod.splits if_splits)
  then have "recv_queue e1 = recv_queue e @ [(recv_wr_id (buf_id b), [(buf_data b, sge_length (buf_size b))])]"
    by (auto simp: post_recv_def verbs_call_def split: prod.splits if_splits list.splits)
  then show ?case
    using Cons.IH [OF e1(2)] by simp
qed simp

lemma modify_qp_true: "modify_qp q st olds h = (True, h') \<Longrightarrow> qp_states h' q = st"
  by (auto simp: modify_qp_def split: prod.splits if_splits)

lemma ExchangeQPInfo_keeps:
  "ExchangeQPInfo sock ini r h = (ok, r', h') \<Longrightarrow>
   res_qp r' = res_qp r \<and> res_buffers r' = res_buffers r \<and> res_posted r' = res_posted r"
  by (auto simp: ExchangeQPInfo_calls save_remote_def Let_def split: prod.splits if_splits sum.splits)

lemma post_pool_true:
  assumes "post_pool t h = (True, t', h')" "rdma_res t = Some r"
  shows "t' = t\<lparr>rdma_res := Some (r\<lparr>res_posted := res_posted r @
      map (\<lambda>b. (recv_wr_id (buf_id b), [(buf_data b, sge_length (buf_size b))])) (map rdma_buffer.truncate (res_buffers r))\<rparr>)\<rparr>"
    "qp_states h' = qp_states h"
  using assms post_all_true [of "map rdma_buffer.truncate (res_buffers r)"]
  by (auto simp: post_pool_def PostRecvWRsForBufferPool_def endpoint_of_def split: prod.splits)

text \<open>An established connection in pool mode.\<close>

definition established :: "TransportRdma \<Rightarrow> host \<Rightarrow> bool" where
  "established t h \<longleftrightarrow> rdma_connected t \<and> (\<exists>r q. rdma_res t = Some r \<and> res_qp r = Some q \<and> qp_states h q = Rts \<and>
     length (res_buffers r) = buffer_count t \<and> pool_upto (buffer_size t) (res_buffers r) \<and>
     res_posted r = map (\<lambda>b. (recv_wr_id (buf_id b), [(buf_data b, sge_length (buf_size b))]))
       (map rdma_buffer.truncate (res_buffers r)))"

lemma bring_up_established:
  assumes "bring_up ini t h = (True, t', h')" "rdma_res t = Some r" "pool_ready t r" "\<not> zero_copy t"
  shows "established t' h' \<and> (\<exists>r'. t' = t\<lparr>rdma_res := Some r', rdma_connected := True\<rparr>)"
proof -
  obtain h1 r2 h2 h3 h4 t5 where 1: "ModifyQPToInit r h = (True, h1)"
    and 2: "ExchangeQPInfo (tcp_sock_fd t) ini r h1 = (True, r2, h2)"
    and 3: "ModifyQPToRTR r2 h2 = (True, h3)" and 4: "ModifyQPToRTS r2 h3 = (True, h4)"
    and 5: "post_pool (t\<lparr>rdma_res := Some r2\<rparr>) h4 = (True, t5, h')" and t': "t' = t5\<lparr>rdma_connected := True\<rparr>"
    using assms(1,2,4)
    by (auto simp: bring_up_def Let_def close_false_def split: prod.splits if_splits)
  obtain q where q: "res_qp r = Some q"
    using assms(3) by (auto simp: pool_ready_def)
  note keep = ExchangeQPInfo_keeps [OF 2]
  note post = post_pool_true [OF 5, of r2]
  have "qp_states h4 q = Rts"
    using modify_qp_true [OF 4 [unfolded ModifyQPToRTS_def]] keep q by simp
  then show ?thesis
    using post t' keep q assms(3) by (auto simp: established_def pool_ready_def)
qed

lemma established_ready:
  assumes "established t h" "\<not> zero_copy t" "buffer_size t < 2 ^ 32" "0 < buffer_count t" "buffer_count t < 2 ^ 31"
    and "\<And>i. i < buffer_count t \<Longrightarrow> length (mem (Pool i)) = buffer_size t"
  shows "quiet (buffer_size t) ((endpoint_of mem t h)\<lparr>calls := []\<rparr>)" "posted (buffer_size t) ((endpoint_of mem t h)\<lparr>calls := []\<rparr>)"
    "first_free (buffers (endpoint_of mem t h)) = Some 0"
proof -
  obtain r q where r: "rdma_res t = Some r" "rdma_connected t" "length (res_buffers r) = buffer_count t"
      "pool_upto (buffer_size t) (res_buffers r)"
      "res_posted r = map (\<lambda>b. (recv_wr_id (buf_id b), [(buf_data b, sge_length (buf_size b))])) (map rdma_buffer.truncate (res_buffers r))"
    using assms(1) by (auto simp: established_def)
  let ?bufs = "map rdma_buffer.truncate (res_buffers r)"
  have b: "?bufs ! i = \<lparr>buf_data = Pool i, buf_size = buffer_size t, buf_mr = True, buf_id = int i, buf_in_use = False\<rparr>"
    if "i < length ?bufs" for i
    using r(4) that by (simp add: pool_upto_def)
  show "quiet (buffer_size t) ((endpoint_of mem t h)\<lparr>calls := []\<rparr>)"
    using r(1-3) b assms by (simp add: quiet_def idle_def pool_ok_def endpoint_of_def)
  have "res_posted r = map (request (buffer_size t)) [0..<length ?bufs]"
    unfolding r(5) by (rule nth_equalityI) (use b assms(3) in \<open>simp_all add: request_def\<close>)
  then show "posted (buffer_size t) ((endpoint_of mem t h)\<lparr>calls := []\<rparr>)"
    using r(1,3) assms(4) by (auto simp: posted_def endpoint_of_def intro!: exI [of _ "[0..<length ?bufs]"])
  show "first_free (buffers (endpoint_of mem t h)) = Some 0"
    using b [of 0] r(1,3) assms(4) by (cases "res_buffers r") (simp_all add: endpoint_of_def)
qed

text \<open>
  C12: When \<open>Connect\<close> or \<open>Accept\<close> returns true in pool mode, the queue pair is ready to send, the
  pool has as many buffers as configured, each registered, free and posted to receive, and the
  endpoint polls as it was told to: the connection is in the state from which
  \<open>RDMA_messages_roundtrip\<close> shows that messages arrive.
\<close>

theorem RDMA_Connect_ready:
  assumes "rdma_inv p" "i < length (transports p)" "t = transports p ! i" "\<not> shared_resources_acquired t"
    and "RDMA_Connect t (host p) = (True, t', h) \<or> RDMA_Accept t (host p) = (True, t', h)"
    and "\<not> zero_copy t" "buffer_size t < 2 ^ 32" "0 < buffer_count t" "buffer_count t < 2 ^ 31"
    and "\<And>i. i < buffer_count t \<Longrightarrow> length (mem (Pool i)) = buffer_size t"
  shows "quiet (buffer_size t) ((endpoint_of mem t' h)\<lparr>calls := []\<rparr>) \<and> posted (buffer_size t) ((endpoint_of mem t' h)\<lparr>calls := []\<rparr>) \<and>
    first_free (buffers (endpoint_of mem t' h)) = Some 0 \<and> enable_busy_polling (endpoint_of mem t' h) = busy_polling t \<and>
    established t' h"
proof -
  obtain t1 h1 where 1: "InitRdmaResources t (host p) = (True, t1, h1)"
    and up: "\<exists>fd s ini. bring_up ini (t1\<lparr>tcp_sock_fd := fd\<rparr>) (h1\<lparr>sockets := s\<rparr>) = (True, t', h)"
    using assms(5) by (auto simp: RDMA_Connect_def RDMA_Accept_def Let_def close_false_def split: prod.splits if_splits)
  note own = rdma_inv_at(1) [OF assms(2,1), folded assms(3)]
  obtain r where r: "rdma_res t1 = Some r" "pool_ready t r"
      "t1 = t\<lparr>rdma_res := rdma_res t1, shared_resources_acquired := shared_resources_acquired t1\<rparr>"
    using owns_InitRdmaResources [OF 1 own assms(4)] by blast
  have same: "buffer_count t1 = buffer_count t" "buffer_size t1 = buffer_size t" "zero_copy t1 = zero_copy t" "busy_polling t1 = busy_polling t"
    by (subst r(3), simp)+
  have "established t' h \<and> buffer_count t' = buffer_count t \<and> buffer_size t' = buffer_size t \<and>
      zero_copy t' = zero_copy t \<and> busy_polling t' = busy_polling t"
    using up bring_up_established [of _ "t1\<lparr>tcp_sock_fd := _\<rparr>" _ t' h r] r(1,2) same assms(6)
    by (fastforce simp: pool_ready_def)
  then show ?thesis
    using established_ready [of t' h mem] assms(6-10) by (simp add: endpoint_of_def)
qed

text \<open>Nothing goes wrong where no call fails.\<close>

lemma init_buffers_true:
  "mem_answers h = [] \<Longrightarrow> \<exists>bufs' h'. init_buffers sz is bufs h = (True, bufs', h') \<and> sockets h' = sockets h \<and>
     answers h' = answers h \<and> gid_table h' = gid_table h \<and> qp_states h' = qp_states h"
proof (induction "is" arbitrary: bufs h)
  case (Cons i "is")
  obtain mem h1 where 1: "new_obj Memory h = (mem, h1)"
    by fastforce
  obtain mr h2 where 2: "new_obj MemoryRegion h1 = (mr, h2)"
    by fastforce
  obtain a b where "mem = Some a" "mr = Some b" "mem_answers h2 = []" "sockets h2 = sockets h" "answers h2 = answers h"
      "gid_table h2 = gid_table h" "qp_states h2 = qp_states h"
    using 1 2 Cons.prems by (auto simp: new_obj_def mem_answer_def)
  then show ?case
    using 1 2 Cons.IH [of h2] by simp
qed simp

lemma InitRdmaResources_true:
  assumes "answers h = []" "mem_answers h = []" "rdma_res t = None"
  shows "\<exists>t' h' r q. InitRdmaResources t h = (True, t', h') \<and> sockets h' = sockets h \<and> answers h' = [] \<and>
     gid_table h' = gid_table h \<and> tcp_listen_fd t' = tcp_listen_fd t \<and>
     rdma_res t' = Some r \<and> res_qp r = Some q \<and> qp_states h' q = Reset"
proof -
  obtain h1 where 1: "Acquire h = (True, h1)" "answers h1 = []" "mem_answers h1 = []" "sockets h1 = sockets h" "gid_table h1 = gid_table h"
    using assms by (cases "ref_count h = 0") (auto simp: Acquire_def Initialize_def answer_def new_obj_def)
  let ?h = "h1\<lparr>live := (QueuePair, next_obj h1 + 2) # (CompletionQueue, next_obj h1 + 1) # (Channel, next_obj h1) # live h1,
    next_obj := next_obj h1 + 3, qp_states := (qp_states h1)(next_obj h1 + 2 := Reset)\<rparr>"
  let ?r = "new_RdmaResources\<lparr>res_channel := Some (next_obj h1), res_cq := Some (next_obj h1 + 1), res_qp := Some (next_obj h1 + 2)\<rparr>"
  obtain bufs h' where 2: "init_buffers (buffer_size t) [0..<buffer_count t] (replicate (buffer_count t) no_buffer) ?h = (True, bufs, h')"
      "sockets h' = sockets h1" "answers h' = []" "gid_table h' = gid_table h1" "qp_states h' (next_obj h1 + 2) = Reset"
    using init_buffers_true [of ?h "buffer_size t" "[0..<buffer_count t]"] 1(2,3) by force
  then have "InitRdmaResources t h = (True, t\<lparr>shared_resources_acquired := True, rdma_res := Some (?r\<lparr>res_buffers := bufs\<rparr>)\<rparr>, h')"
    using assms(3) 1
    by (simp add: InitRdmaResources_def delete_resources_def answer_def new_obj_def InitBufferPool_def numeral_2_eq_2 numeral_3_eq_3)
  then show ?thesis
    using 1 2 by simp
qed

text \<open>The connection comes up when no call of the verbs library fails and the exchange succeeds.\<close>

lemma ExchangeQPInfo_verbs:
  "ExchangeQPInfo sock ini r h = (ok, r', h') \<Longrightarrow> answers h = [] \<Longrightarrow> answers h' = [] \<and> qp_states h' = qp_states h"
  by (auto simp: ExchangeQPInfo_calls save_remote_def answer_def Let_def split: prod.splits if_splits sum.splits)

lemma post_all_succeeds: "calls e = [] \<Longrightarrow> fst (post_all bs e)"
  by (induction bs arbitrary: e) (simp_all add: post_recv_def verbs_call_def)

lemma bring_up_true:
  assumes "rdma_res t = Some r" "res_qp r = Some q" "qp_states h q = Reset" "answers h = []"
    and "ExchangeQPInfo (tcp_sock_fd t) ini r (h\<lparr>qp_states := (qp_states h)(q := Init)\<rparr>) = (True, r', h')"
  shows "\<exists>t' h'. bring_up ini t h = (True, t', h')"
proof -
  let ?h = "h\<lparr>qp_states := (qp_states h)(q := Init)\<rparr>" and ?t = "t\<lparr>rdma_res := Some r'\<rparr>"
  have x: "answers h' = []" "qp_states h' q = Init" "res_qp r' = Some q"
    using ExchangeQPInfo_verbs [OF assms(5)] ExchangeQPInfo_keeps [OF assms(5)] assms(2,4) by auto
  have 1: "ModifyQPToInit r h = (True, ?h)"
    using assms(2-4) by (simp add: ModifyQPToInit_def modify_qp_def answer_def)
  obtain h3 where 3: "ModifyQPToRTR r' h' = (True, h3)" "qp_states h3 q = Rtr" "answers h3 = []"
    using x by (auto simp: ModifyQPToRTR_def modify_qp_def answer_def Let_def)
  obtain h4 where 4: "ModifyQPToRTS r' h3 = (True, h4)" "answers h4 = []"
    using x 3 by (auto simp: ModifyQPToRTS_def modify_qp_def answer_def)
  obtain ok t5 h5 where 5: "(if zero_copy ?t then (True, ?t, h4) else post_pool ?t h4) = (ok, t5, h5)"
    by (metis surj_pair)
  have ok
  proof (cases "zero_copy ?t")
    case False
    then show ?thesis
      using 5 4(2) post_all_succeeds [of "endpoint_of (\<lambda>_. []) ?t h4" "buffers (endpoint_of (\<lambda>_. []) ?t h4)"]
      by (auto simp: post_pool_def PostRecvWRsForBufferPool_def endpoint_of_def split: prod.splits)
  qed (use 5 in simp)
  then show ?thesis
    using 5 by (simp only: bring_up_def assms(1,5) option.case 1 3 4 5 Let_def prod.case if_True not_True_eq_False if_False) blast
qed

text \<open>A host whose peer has sent its information already.\<close>

definition peer_msg :: bytes where
  "peer_msg = on_wire (EncodeQpInfo \<lparr>qpn = 5, lid = 9, gid = replicate 16 1, gid_index = 3\<rparr> [])"

definition reached_host :: host where
  "reached_host = some_host\<lparr>sockets := (sockets some_host)\<lparr>replies := [1, 0, 1, 0] @ replicate 30 4, wire_in := (\<lambda>_. peer_msg)\<rparr>\<rparr>"

lemma reached_socket: "\<exists>s. CreateConnectSocket 1 (sockets reached_host) = (3, s) \<and> replies s = replicate 30 4 \<and> wire_in s = (\<lambda>_. peer_msg)"
  by (simp add: reached_host_def some_host_def CreateConnectSocket_def sys_open_def sys_reply_def SetTcpNoDelay_def sys_setsockopt_def lowest_fd_def)

lemma reached: "\<exists>t h. RDMA_Connect (SetBufferPoolConfig 16 1 new_TransportRdma) reached_host = (True, t, h)"
proof -
  obtain t h r q where 1: "InitRdmaResources (SetBufferPoolConfig 16 1 new_TransportRdma) reached_host = (True, t, h)"
      "sockets h = sockets reached_host" "answers h = []" "gid_table h = gid_table reached_host"
      "rdma_res t = Some r" "res_qp r = Some q" "qp_states h q = Reset"
    using InitRdmaResources_true [of reached_host "SetBufferPoolConfig 16 1 new_TransportRdma"]
    by (auto simp: reached_host_def some_host_def SetBufferPoolConfig_def new_TransportRdma_def)
  obtain s where 2: "CreateConnectSocket 1 (sockets h) = (3, s)" "replies s = replicate 30 4" "wire_in s = (\<lambda>_. peer_msg)"
    using reached_socket 1(2) by auto
  let ?h = "h\<lparr>sockets := s, qp_states := (qp_states h)(q := Init)\<rparr>"
  have "good_port ?h"
    using 1(3,4) by (auto simp: good_port_def reached_host_def some_host_def split: if_splits)
  then obtain r' h' where "ExchangeQPInfo 3 True r ?h = (True, r', h')"
    using ExchangeQPInfo_initiator [of ?h "\<lparr>qpn = 5, lid = 9, gid = replicate 16 1, gid_index = 3\<rparr>" 3 r] 2
    by (auto simp: qp_info_ok_def prompt_def peer_msg_def)
  then obtain t' h' where "bring_up True (t\<lparr>tcp_sock_fd := 3\<rparr>) (h\<lparr>sockets := s\<rparr>) = (True, t', h')"
    using bring_up_true [of "t\<lparr>tcp_sock_fd := 3\<rparr>" r q "h\<lparr>sockets := s\<rparr>" True] 1 by auto
  then show ?thesis
    using 1(1) 2(1) by (simp add: RDMA_Connect_def)
qed

lemma RDMA_Connect_ready_witness:
  "\<exists>t h. RDMA_Connect (SetBufferPoolConfig 16 1 new_TransportRdma) reached_host = (True, t, h) \<and>
    quiet 16 ((endpoint_of (\<lambda>_. replicate 16 0) t h)\<lparr>calls := []\<rparr>) \<and> posted 16 ((endpoint_of (\<lambda>_. replicate 16 0) t h)\<lparr>calls := []\<rparr>) \<and>
    first_free (buffers (endpoint_of (\<lambda>_. replicate 16 0) t h)) = Some 0 \<and>
    enable_busy_polling (endpoint_of (\<lambda>_. replicate 16 0) t h) = True \<and> established t h"
proof -
  let ?t = "SetBufferPoolConfig 16 1 new_TransportRdma"
  let ?p = "\<lparr>transports = [?t], host = reached_host\<rparr>"
  obtain t h where c: "RDMA_Connect ?t reached_host = (True, t, h)"
    using reached by blast
  have t: "buffer_size ?t = 16" "buffer_count ?t = 1" "\<not> zero_copy ?t" "busy_polling ?t = True" "\<not> shared_resources_acquired ?t" "rdma_res ?t = None"
    by (simp_all add: SetBufferPoolConfig_def new_TransportRdma_def)
  have "rdma_inv ?p"
    using t by (simp add: rdma_inv_def owned_def held_def reached_host_def some_host_def)
  then show ?thesis
    using RDMA_Connect_ready [of ?p 0 ?t t h "\<lambda>_. replicate 16 0"] c t by simp
qed

section \<open>The listening socket\<close>

lemma RDMA_Accept_listen_fd:
  assumes "RDMA_Accept t h = (True, t', h')"
  shows "tcp_listen_fd t' = tcp_listen_fd t"
proof -
  have "give_up r t h = (True, t', h') \<Longrightarrow> P" for r t h t' h' P
    by (simp add: give_up_def Let_def split: if_splits)
  then have "InitRdmaResources t h = (True, t1, h1) \<Longrightarrow> tcp_listen_fd t1 = tcp_listen_fd t" for t1 h1
    by (auto simp: InitRdmaResources_def Let_def split: prod.splits if_splits option.splits)
  moreover have "bring_up ini u g = (True, t', h') \<Longrightarrow> tcp_listen_fd t' = tcp_listen_fd u" for ini u g
    by (auto simp: bring_up_def close_false_def post_pool_def Let_def split: prod.splits if_splits option.splits)
  ultimately show ?thesis
    using assms by (fastforce simp: RDMA_Accept_def close_false_def Let_def split: prod.splits if_splits)
qed

text \<open>
  C39: An accepted connection shares the listening socket of the transport that accepted it, and
  closes it: whenever the connection is closed, nothing can be accepted any more.
\<close>

theorem RDMA_accepted_closes_listener:
  assumes "RDMA_CreateAcceptedConnection t h = (Some u, h')"
    and "distinct (open_fds (sockets g))" "RDMA_Close u g = (u', g')"
  shows "tcp_listen_fd t \<notin> set (open_fds (sockets g'))"
proof -
  have fd: "tcp_listen_fd u = tcp_listen_fd t" "0 \<le> tcp_listen_fd t"
    using assms(1) RDMA_Accept_listen_fd
    by (fastforce simp: RDMA_CreateAcceptedConnection_def split: prod.splits if_splits)+
  have d: "sockets (destroy_if k p x) = sockets x" for k p x
    by (simp add: destroy_if_def destroy_def split: option.splits)
  have "sockets (free_buffers bs x) = sockets x" for bs x
    by (induction bs arbitrary: x) (simp_all add: d)
  then have "sockets (delete_resources r x) = sockets x" "sockets (Release x) = sockets x" for r x
    by (simp_all add: delete_resources_def Release_def Cleanup_def d Let_def split: option.splits)
  then have "sockets g' = sys_close (tcp_listen_fd u) (if 0 \<le> tcp_sock_fd u then sys_close (tcp_sock_fd u) (sockets g) else sockets g)"
    using assms(3) fd by (auto simp: RDMA_Close_def Let_def split: if_splits)
  then show ?thesis
    using assms(2) fd(1) by (auto simp: sys_close_def)
qed

text \<open>A host that listens on descriptor three; the peer has connected and sent its information.\<close>

definition listening_host :: host where
  "listening_host = some_host\<lparr>sockets := (sockets some_host)\<lparr>open_fds := [3, 0, 1, 2],
     replies := [1, 0] @ replicate 30 4, wire_in := (\<lambda>_. peer_msg)\<rparr>\<rparr>"

abbreviation listener :: TransportRdma where
  "listener \<equiv> new_TransportRdma\<lparr>tcp_listen_fd := 3\<rparr>"

lemma listening_socket:
  "\<exists>s. AcceptConnection 3 (sockets listening_host) = (4, s) \<and> replies s = replicate 30 4 \<and> wire_in s = (\<lambda>_. peer_msg)"
  by (simp add: listening_host_def some_host_def AcceptConnection_def sys_open_def sys_reply_def SetTcpNoDelay_def sys_setsockopt_def lowest_fd_def)

lemma accepted: "\<exists>u h. RDMA_CreateAcceptedConnection listener listening_host = (Some u, h)"
proof -
  obtain t h r q where 1: "InitRdmaResources listener listening_host = (True, t, h)" "tcp_listen_fd t = 3"
      "sockets h = sockets listening_host" "answers h = []" "gid_table h = gid_table listening_host"
      "rdma_res t = Some r" "res_qp r = Some q" "qp_states h q = Reset"
    using InitRdmaResources_true [of listening_host listener]
    by (auto simp: listening_host_def some_host_def new_TransportRdma_def)
  obtain s where 2: "AcceptConnection 3 (sockets h) = (4, s)" "replies s = replicate 30 4" "wire_in s = (\<lambda>_. peer_msg)"
    using listening_socket 1(3) by auto
  let ?h = "h\<lparr>sockets := s, qp_states := (qp_states h)(q := Init)\<rparr>"
  have "good_port ?h"
    using 1(4,5) by (auto simp: good_port_def listening_host_def some_host_def split: if_splits)
  then obtain r' h' where "ExchangeQPInfo 4 False r ?h = (True, r', h')"
    using ExchangeQPInfo_acceptor [of ?h "\<lparr>qpn = 5, lid = 9, gid = replicate 16 1, gid_index = 3\<rparr>" 4 r] 2
    by (auto simp: qp_info_ok_def prompt_def peer_msg_def)
  then obtain t' h' where "bring_up False (t\<lparr>tcp_sock_fd := 4\<rparr>) (h\<lparr>sockets := s\<rparr>) = (True, t', h')"
    using bring_up_true [of "t\<lparr>tcp_sock_fd := 4\<rparr>" r q "h\<lparr>sockets := s\<rparr>" False] 1 by auto
  then show ?thesis
    using 1(1,2) 2(1) by (simp add: RDMA_CreateAcceptedConnection_def RDMA_Accept_def)
qed

lemma RDMA_accepted_closes_listener_witness:
  "\<exists>u h u' g. RDMA_CreateAcceptedConnection listener listening_host = (Some u, h) \<and>
     RDMA_Close u listening_host = (u', g) \<and> 3 \<in> set (open_fds (sockets listening_host)) \<and> 3 \<notin> set (open_fds (sockets g))"
proof -
  obtain u h where u: "RDMA_CreateAcceptedConnection listener listening_host = (Some u, h)"
    using accepted by blast
  obtain u' g where g: "RDMA_Close u listening_host = (u', g)"
    by fastforce
  have "distinct (open_fds (sockets listening_host))" "3 \<in> set (open_fds (sockets listening_host))"
    by (simp_all add: listening_host_def)
  then show ?thesis
    using RDMA_accepted_closes_listener [OF u _ g] u g by simp
qed

end
