(* ===== verification/TransportKinds.thy ===== *)
theory TransportKinds
  imports Types TransportTcp RdmaSetup
begin

text \<open>
  \<open>TransportFactory\<close> (\<open>src/include/transport_factory.h\<close>) and the transport that
  \<open>Communicator::Init\<close> makes only to learn of a free port (\<open>src/communicator.cpp\<close>): a
  transport of either kind, with the virtual calls that this takes.
\<close>

datatype Transport = TcpTransport TransportTCP | RdmaTransport TransportRdma

fun TransportFactory_Create :: "TransportType \<Rightarrow> Transport" where
  "TransportFactory_Create TCP = TcpTransport new_TransportTCP"
| "TransportFactory_Create RDMA = RdmaTransport new_TransportRdma"

fun transport_Listen :: "Transport \<Rightarrow> host \<Rightarrow> bool \<times> Transport \<times> host" where
  "transport_Listen (TcpTransport t) h =
     (let (ok, t, s) = TCP_Listen t (sockets h) in (ok, TcpTransport t, h\<lparr>sockets := s\<rparr>))"
| "transport_Listen (RdmaTransport t) h =
     (let (ok, t, h) = RDMA_Listen t h in (ok, RdmaTransport t, h))"

fun transport_GetListenPort :: "Transport \<Rightarrow> 16 word" where
  "transport_GetListenPort (TcpTransport t) = listen_port t"
| "transport_GetListenPort (RdmaTransport t) = rdma_listen_port t"

fun transport_IsConnected :: "Transport \<Rightarrow> bool" where
  "transport_IsConnected (TcpTransport t) = connected t"
| "transport_IsConnected (RdmaTransport t) = rdma_connected t"

fun transport_Close :: "Transport \<Rightarrow> host \<Rightarrow> Transport \<times> host" where
  "transport_Close (TcpTransport t) h =
     (let (t, s) = TCP_Close t (sockets h) in (TcpTransport t, h\<lparr>sockets := s\<rparr>))"
| "transport_Close (RdmaTransport t) h =
     (let (t, h) = RDMA_Close t h in (RdmaTransport t, h))"

text \<open>
  The port that a fresh transport has been given to listen on; the transport is closed again
  before the port is told to anyone. Where it cannot listen, going out of scope closes it.
\<close>

definition free_data_port :: "TransportType \<Rightarrow> host \<Rightarrow> 16 word option \<times> host" where
  "free_data_port type h =
     (let (ok, temp_transport, h) = transport_Listen (TransportFactory_Create type) h;
          (_, h) = transport_Close temp_transport h in
      (if ok then Some (transport_GetListenPort temp_transport) else None, h))"

text \<open>It leaves no descriptor open, and nothing of the verbs library, for either kind of transport.\<close>

lemma sys_close_opened: "opened s fd s' \<Longrightarrow> 0 \<le> fd \<Longrightarrow> open_fds (sys_close fd s') = open_fds s \<and> bad_closes (sys_close fd s') = bad_closes s"
  by (simp add: opened_def sys_close_def)

lemma free_data_port_closes:
  assumes "free_data_port type h = (p, h')"
  shows "same_fds (sockets h) (sockets h') \<and> live h' = live h \<and> ref_count h' = ref_count h"
proof -
  obtain fd port s where c: "CreateListenSocket True (sockets h) = (fd, port, s)"
    by (metis surj_pair)
  then have "opened (sockets h) fd s"
    using CreateListenSocket_opened by blast
  then have "0 \<le> fd \<Longrightarrow> same_fds (sockets h) (sys_close fd s)" "fd < 0 \<Longrightarrow> same_fds (sockets h) s"
    using sys_close_opened [of "sockets h" fd s] by (simp_all add: same_fds_def opened_def)
  then show ?thesis
    using assms c
    by (cases type; cases "0 \<le> fd") (auto simp: free_data_port_def TCP_Listen_def TCP_Close_def new_TransportTCP_def
        RDMA_Listen_def RDMA_Close_def new_TransportRdma_def delete_resources_def)
qed

end
