(* ===== verification/Spec2Isabelle.thy ===== *)
theory Spec2Isabelle
  imports RingResults FullMeshResults BarrierSafety CommunicatorResults TransportTcp RdmaConnections TransportKinds
begin

text \<open>
  Verification of mini_ccl, a collective communication library in C++ (\<open>src/\<close>): ranks find each
  other (bootstrap), connect to their neighbours in a topology (communicator), and run
  collectives over point-to-point transports (TCP or RDMA).

  \<^bold>\<open>Layers.\<close> The development follows the program's layers, and each layer is proved over what the
  layer below promises.

  (1) Vocabulary. \<open>Prelude\<close> has byte buffers with bounds-checked \<open>memcpy\<close>, error values and list
  lemmas; \<open>Bytes\<close> has integers in memory and in network order; \<open>Types\<close> models
  \<open>include/types.h\<close>, \<open>include/logger.h\<close>, and the small functions of \<open>src/utils.cpp\<close>.
  \<open>Reduction\<close> models \<open>ReduceData\<close> and \<open>PerformReduce\<close> on bytes, with integers as machine
  words and floating-point arithmetic as a parameter, and shows that they refine the element-wise
  operation (\<open>PerformReduce_refines\<close>). Its locale \<open>reduction\<close>, instantiated with the code's
  integer operations, carries the argument that the order of ranks does not matter (\<open>Reduced\<close>).

  (2) Concurrency. \<open>Steps\<close> has a locale for transition systems whose steps commute: one
  schedule that ends settles them all. \<open>Network\<close> gives ranks programs of blocking transport
  calls, with threads as several pending calls and links that are byte streams of any capacity
  above zero, and shows that its steps commute. \<open>Schedules\<close> pairs sends with receives.
  \<open>delivers N ws f v\<close> says that under every scheduler all ranks return (so nothing deadlocks),
  with the stated results and nothing left on the links.

  (3) Topologies. \<open>Topology\<close> holds the state of a topology and of a communicator and the wiring
  contract (locale \<open>wiring\<close>). \<open>Ring\<close> and \<open>FullMesh\<close> translate \<open>src/topology_ring.cpp\<close> and
  \<open>src/topology_fullmesh.cpp\<close>, one definition per method and per loop body.
  \<open>RingPositions\<close>, \<open>RingChains\<close>, \<open>RingRounds\<close>, \<open>RingAllReduce\<close>, \<open>RingBarrier\<close>,
  \<open>FullMeshRuns\<close> and \<open>Doubling\<close> find the schedules; \<open>RingResults\<close> and \<open>FullMeshResults\<close>
  state what each collective delivers, and where it does not deliver what it should.
  \<open>BarrierSafety\<close> shows that no rank leaves a barrier before all have entered it.

  (4) Setting up. \<open>Codec\<close> has the messages of the control plane and their round trips.
  \<open>Bootstrap\<close> translates \<open>src/bootstrap.cpp\<close>: every rank gets the same table, in whatever
  order workers connect. \<open>CommunicatorApi\<close> translates \<open>src/communicator.cpp\<close>; \<open>Handshake\<close>
  and \<open>CommunicatorResults\<close> show that \<open>Init\<close> connects each rank with exactly its neighbours
  and that the collectives then work on the communicators it leaves.

  (5) Transports. \<open>Transports\<close> states what the layers above rely on as the locale
  \<open>message_link\<close>, whose instances are the TCP and the RDMA transport. \<open>Sockets\<close> translates the
  socket functions of \<open>src/utils.cpp\<close> over descriptors, byte streams and a list of answers of
  the operating system; \<open>TransportTcp\<close> translates \<open>src/transport_tcp.cpp\<close>, with the ownership
  of descriptors as an invariant and messages as a round trip.
  \<open>RdmaQp\<close>, \<open>RdmaSetup\<close>, \<open>RdmaEndpoint\<close> and \<open>RdmaMessages\<close> translate
  \<open>src/transport_rdma.cpp\<close> and \<open>include/transport_rdma.h\<close>: queue pair information and the
  choice of an address, set-up and tear-down, the buffer pool with work requests and completions,
  and \<open>Send\<close> and \<open>Recv\<close>. \<open>RdmaOwnership\<close> shows that the objects of the verbs library have
  one owner each and that the shared ones live exactly as long as they are used;
  \<open>RdmaConnections\<close> that the two ends of a connection tell each other about their queue pairs
  without blocking for ever, and that an established connection is ready for messages, which by
  \<open>RdmaMessages\<close> then arrive: with busy polling and with events, for every timing of the
  adapter. The exchange is one conversation (\<open>qp_talk\<close>) with two readings: over the system calls
  of one process (\<open>ExchangeQPInfo\<close>), and as a program of the network that talks to the other end
  (\<open>qp_end\<close>). \<open>TransportKinds\<close> is the factory.

  \<^bold>\<open>Defects.\<close> Where the code does not do what it means to, a theorem shows what it does:
  \<open>Ring_AllReduce_misfit\<close> (chunk sizes wrap around), \<open>Ring_AllReduce_AVG_three\<close> (AVG divides
  too often), \<open>FullMesh_AllReduce_three\<close> (contributions lost unless the number of ranks is a
  power of two), \<open>RunMaster_bad_rank\<close> (unchecked index), \<open>RDMA_crossing_fails\<close> (one completion
  queue for both directions), \<open>RDMA_Send_buffer_size_8\<close> (no room for a payload),
  \<open>RDMA_pool_double_free\<close> and \<open>RDMA_accepted_closes_listener\<close>. The positive theorems carry
  the conditions that exclude these cases.

  \<^bold>\<open>Bounds.\<close> World sizes are positive and below \<open>2 ^ 31\<close>, counts and sizes below \<open>2 ^ 63\<close> or
  \<open>2 ^ 64\<close>, control messages below \<open>2 ^ 32\<close> bytes, RDMA buffers below \<open>2 ^ 32\<close> bytes; these are
  the ranges of the C++ types. No definition needs fuel: the loops over chunks end because each
  round moves a byte, or uses up an action of the adapter. The RDMA data path returns \<open>None\<close> when
  the adapter's schedule ends while it still waits; the round trip shows that this does not happen
  when the adapter acts once for each frame and is polled afterwards (\<open>rounds\<close>).

  \<^bold>\<open>Assumptions of the model.\<close> Hosts are little-endian and signed additions wrap around. A link
  keeps order and loses nothing. On the error paths of \<open>Init\<close> all threads have started before
  the first gives up. What a send has been given is taken when it is posted. RDMA connections are
  used one operation at a time in each process; the round trip of messages is about one direction,
  with polls, sends and library calls that succeed. Inline sends behave like others, and the number
  of buffers in a pool is not negative. An access outside a buffer or table and a call through a
  null pointer, which are undefined behaviour, stop the program with a value of their own
  (\<open>OutOfBounds\<close>, \<open>NullPointer\<close>); what would happen after them is not claimed.

  \<^bold>\<open>Not modelled.\<close> The format and time stamp of log messages and the output stream (the level and
  what is printed are in \<open>Types\<close>); sleeping between attempts to connect; closing the sockets of
  the bootstrap; that \<open>Finalize\<close> closes the transports it drops; moving and releasing an \<open>AutoMR\<close>, which the program does not do; the mutexes of
  \<open>TransportRdma\<close> and the buffer pool, since operations are one at a time. The tests under
  \<open>src/tests\<close> and the scripts are drivers.
\<close>

end
